(* ===== verification/Sylar_Prelude.thy ===== *)
theory Sylar_Prelude
  imports Main "HOL-Library.Word"
begin

text \<open>
  Shared vocabulary of the development: the machine integers of the C++ sources, the ways an
  operation of the framework can fail, the sequencing of fallible operations, a generic notion
  of reachable state with the invariant principle every component uses, and list lemmas.
\<close>

section \<open>Machine integers and names\<close>

type_synonym u8 = "8 word"
type_synonym u16 = "16 word"
type_synonym u32 = "32 word"
type_synonym u64 = "64 word"

text \<open>A C++ \<open>int\<close> that is an identifier (file descriptor, thread id) is an \<open>int\<close>.\<close>

type_synonym fd = int
type_synonym thread_id = int

named_theorems res_simps \<open>rewrite rules for fallible operations\<close>
named_theorems op_defs \<open>definitions of the operations of a component\<close>

section \<open>Failures\<close>

text \<open>
  \<open>AssertFail\<close>: a \<^verbatim>\<open>SYLAR_ASSERT\<close> (macro.h) that does not hold, which aborts the process
  (the build never defines \<^verbatim>\<open>NDEBUG\<close>). \<open>NullDeref\<close>, \<open>OutOfRange\<close>, \<open>BadIterator\<close>: undefined
  behaviour of C++ (a null pointer, an index past the end of a vector, an end iterator that is
  dereferenced or erased). \<open>Thrown\<close>: an exception.
\<close>

datatype error =
    AssertFail string
  | NullDeref string
  | OutOfRange string
  | BadIterator string
  | Thrown string

type_synonym 'a res = "error + 'a"

definition bindE :: "'a res \<Rightarrow> ('a \<Rightarrow> 'b res) \<Rightarrow> 'b res" where
  "bindE m f = (case m of Inl e \<Rightarrow> Inl e | Inr x \<Rightarrow> f x)"

text \<open>\<^verbatim>\<open>SYLAR_ASSERT(x)\<close> (macro.h, lines 9 to 15).\<close>

definition SYLAR_ASSERT :: "bool \<Rightarrow> string \<Rightarrow> unit res" where
  "SYLAR_ASSERT x msg = (if x then Inr () else Inl (AssertFail msg))"

definition deref :: "'a option \<Rightarrow> string \<Rightarrow> 'a res" where
  "deref p msg = (case p of None \<Rightarrow> Inl (NullDeref msg) | Some x \<Rightarrow> Inr x)"

lemma bindE_Inr [simp, res_simps]: "bindE (Inr x) f = f x"
  by (simp add: bindE_def)

lemma bindE_Inl [simp, res_simps]: "bindE (Inl e) f = Inl e"
  by (simp add: bindE_def)

lemma bindE_eq_Inr [res_simps]: "bindE m f = Inr y \<longleftrightarrow> (\<exists>x. m = Inr x \<and> f x = Inr y)"
  by (cases m) auto

lemma bindE_eq_Inl [res_simps]:
  "bindE m f = Inl e \<longleftrightarrow> m = Inl e \<or> (\<exists>x. m = Inr x \<and> f x = Inl e)"
  by (cases m) auto

lemma bindE_assoc: "bindE (bindE m f) g = bindE m (\<lambda>x. bindE (f x) g)"
  by (cases m) auto

lemma SYLAR_ASSERT_eq_Inr [simp, res_simps]: "SYLAR_ASSERT x msg = Inr u \<longleftrightarrow> x"
  by (simp add: SYLAR_ASSERT_def)

lemma SYLAR_ASSERT_True [simp]: "SYLAR_ASSERT True msg = Inr ()"
  by (simp add: SYLAR_ASSERT_def)

lemma SYLAR_ASSERT_False [simp]: "SYLAR_ASSERT False msg = Inl (AssertFail msg)"
  by (simp add: SYLAR_ASSERT_def)

lemma deref_Some [simp, res_simps]: "deref (Some x) msg = Inr x"
  by (simp add: deref_def)

lemma deref_None [simp, res_simps]: "deref None msg = Inl (NullDeref msg)"
  by (simp add: deref_def)

lemma deref_eq_Inr [res_simps]: "deref p msg = Inr x \<longleftrightarrow> p = Some x"
  by (cases p) auto

section \<open>Reachable states and invariants\<close>

text \<open>
  A component with state is a set of initial states and a step relation. The interface
  \<open>inductive_invariant\<close> is what a component provides (a predicate that holds initially and is
  kept by every step); every reachable state then satisfies it.
\<close>

inductive reachable :: "('s \<Rightarrow> bool) \<Rightarrow> ('s \<Rightarrow> 's \<Rightarrow> bool) \<Rightarrow> 's \<Rightarrow> bool"
  for init :: "'s \<Rightarrow> bool" and step :: "'s \<Rightarrow> 's \<Rightarrow> bool"
  where
    reachable_init: "init s \<Longrightarrow> reachable init step s"
  | reachable_step: "reachable init step s \<Longrightarrow> step s t \<Longrightarrow> reachable init step t"

locale inductive_invariant =
  fixes init :: "'s \<Rightarrow> bool"
    and step :: "'s \<Rightarrow> 's \<Rightarrow> bool"
    and inv :: "'s \<Rightarrow> bool"
  assumes inv_init: "init s \<Longrightarrow> inv s"
    and inv_step: "inv s \<Longrightarrow> step s t \<Longrightarrow> inv t"
begin

lemma reachable_inv: "reachable init step s \<Longrightarrow> inv s"
  by (induction rule: reachable.induct) (auto intro: inv_init inv_step)

lemma steps_inv: "step\<^sup>*\<^sup>* s t \<Longrightarrow> inv s \<Longrightarrow> inv t"
  by (induction rule: rtranclp_induct) (auto intro: inv_step)

end

section \<open>Numbers as text\<close>

text \<open>Numbers as a stream or \<^verbatim>\<open>std::to_string\<close> prints them.\<close>

fun show_nat :: "nat \<Rightarrow> string" where
  "show_nat n = (if n < 10 then [char_of (48 + n)] else show_nat (n div 10) @ [char_of (48 + n mod 10)])"

declare show_nat.simps [simp del]

definition show_int :: "int \<Rightarrow> string" where
  "show_int i = (if i < 0 then CHR ''-'' # show_nat (nat (- i)) else show_nat (nat i))"

section \<open>Lists\<close>

lemma takeWhile_append_prefix:
  "\<forall>x \<in> set xs. P x \<Longrightarrow> takeWhile P (xs @ ys) = xs @ takeWhile P ys"
  by (induction xs) auto

lemma length_filter_update:
  "i < length xs \<Longrightarrow>
   length (filter P (xs[i := y])) + (if P (xs ! i) then 1 else 0) =
   length (filter P xs) + (if P y then 1 else 0)"
proof (induction xs arbitrary: i)
  case Nil
  then show ?case by simp
next
  case (Cons x xs)
  then show ?case by (cases i) (auto split: if_splits)
qed

lemma sum_list_update_nat:
  fixes xs :: "nat list"
  assumes "i < length xs"
  shows "sum_list (xs[i := y]) + xs ! i = sum_list xs + y"
  using assms
proof (induction xs arbitrary: i)
  case Nil
  then show ?case by simp
next
  case (Cons x xs)
  then show ?case
  proof (cases i)
    case (Suc j)
    with Cons.prems have "j < length xs" by simp
    from Cons.IH [OF this] Suc show ?thesis by simp
  qed simp
qed

end
