(* ===== verification/Fiber.thy ===== *)
theory Fiber
  imports Sylar_Prelude
begin

text \<open>
  \<^verbatim>\<open>sylar/fiber.h\<close> and \<^verbatim>\<open>sylar/fiber.cpp\<close>: coroutines over \<^verbatim>\<open>ucontext\<close>. Fiber objects live in a heap
  shared by all threads; the thread-local variables of fiber.cpp, scheduler.cpp and hook.cpp
  form the record \<open>tls\<close>, one per thread, together with
  \<open>t_cpu\<close>, the fiber whose context the thread is executing. A context switch changes \<open>t_cpu\<close>; what
  the user's callback does between two switches is not part of the fiber module, only how it ends.
  \<^verbatim>\<open>malloc\<close> and \<^verbatim>\<open>getcontext\<close> are taken to succeed.
\<close>

section \<open>Data\<close>

type_synonym fiber_ptr = nat

datatype State = INIT | HOLD | EXEC | TERM' | READY | EXCEPT

text \<open>
  \<^verbatim>\<open>m_ctx\<close>: captured by \<^verbatim>\<open>getcontext\<close>; made by \<^verbatim>\<open>makecontext\<close> to start at an entry function; saved by
  \<^verbatim>\<open>swapcontext\<close>; or saved inside the last switch of an entry function, behind which there is only
  the assertion \<^verbatim>\<open>never reach\<close>.
\<close>

datatype entry = EntryMainFunc | EntryCallerMainFunc

datatype ucontext = Captured | Start entry | Saved | AtEnd

record 'c fiber =
  m_id :: u64
  m_stacksize :: u32
  m_state :: State
  m_ctx :: ucontext
  m_stack :: bool
  m_fiber_cb :: "'c option"

record 'c fiber_mem =
  fibers :: "fiber_ptr \<Rightarrow> 'c fiber"
  next_fiber :: fiber_ptr
  s_fiber_id :: u64
  s_fiber_count :: u64

record tls =
  t_fiber :: "fiber_ptr option"
  t_threadFiber :: "fiber_ptr option"
  t_scheduler_fiber :: "fiber_ptr option"
  t_cpu :: "fiber_ptr option"
  t_scheduler :: "nat option"
  t_hook_enable :: bool

definition new_tls :: tls where
  "new_tls = \<lparr>t_fiber = None, t_threadFiber = None, t_scheduler_fiber = None, t_cpu = None,
     t_scheduler = None, t_hook_enable = False\<rparr>"

text \<open>How a user callback ends.\<close>

datatype outcome = Returned | ThrewStdException | ThrewOther

section \<open>Operations\<close>

definition set_fiber :: "fiber_ptr \<Rightarrow> ('c fiber \<Rightarrow> 'c fiber) \<Rightarrow> 'c fiber_mem \<Rightarrow> 'c fiber_mem" where
  "set_fiber p f mem = mem\<lparr>fibers := (fibers mem)(p := f (fibers mem p))\<rparr>"

abbreviation set_state :: "fiber_ptr \<Rightarrow> State \<Rightarrow> 'c fiber_mem \<Rightarrow> 'c fiber_mem" where
  "set_state p st \<equiv> set_fiber p (\<lambda>f. f\<lparr>m_state := st\<rparr>)"

abbreviation state_of :: "'c fiber_mem \<Rightarrow> fiber_ptr \<Rightarrow> State" where
  "state_of mem p \<equiv> m_state (fibers mem p)"

definition SetThis :: "fiber_ptr option \<Rightarrow> tls \<Rightarrow> tls" where
  "SetThis f l = l\<lparr>t_fiber := f\<rparr>"

definition GetFiberId :: "tls \<Rightarrow> 'c fiber_mem \<Rightarrow> u64" where
  "GetFiberId l mem = (case t_fiber l of Some f \<Rightarrow> m_id (fibers mem f) | None \<Rightarrow> 0)"

definition TotalFibers :: "'c fiber_mem \<Rightarrow> u64" where
  "TotalFibers mem = s_fiber_count mem"

text \<open>The constructor of a thread's main fiber, and that of a fiber with a callback.\<close>

definition new_Fiber_main :: "tls \<Rightarrow> 'c fiber_mem \<Rightarrow> fiber_ptr \<times> tls \<times> 'c fiber_mem" where
  "new_Fiber_main l mem =
     (let p = next_fiber mem
      in (p, (SetThis (Some p) l)\<lparr>t_cpu := Some p\<rparr>,
          mem\<lparr>fibers := (fibers mem)(p := \<lparr>m_id = 0, m_stacksize = 0, m_state = EXEC,
                 m_ctx = Captured, m_stack = False, m_fiber_cb = None\<rparr>),
              next_fiber := Suc p, s_fiber_count := s_fiber_count mem + 1\<rparr>))"

definition new_Fiber :: "u32 \<Rightarrow> 'c option \<Rightarrow> u64 \<Rightarrow> bool \<Rightarrow> 'c fiber_mem \<Rightarrow> fiber_ptr \<times> 'c fiber_mem" where
  "new_Fiber fiber_stack_size cb stacksize use_caller mem =
     (let p = next_fiber mem;
          fid = s_fiber_id mem + 1
      in (p, mem\<lparr>fibers := (fibers mem)(p := \<lparr>m_id = fid,
                   m_stacksize = (if stacksize \<noteq> 0 then ucast stacksize else fiber_stack_size),
                   m_state = INIT,
                   m_ctx = Start (if \<not> use_caller then EntryMainFunc else EntryCallerMainFunc),
                   m_stack = True, m_fiber_cb = cb\<rparr>),
                 next_fiber := Suc p, s_fiber_id := fid, s_fiber_count := s_fiber_count mem + 1\<rparr>))"

definition delete_Fiber :: "fiber_ptr \<Rightarrow> tls \<Rightarrow> 'c fiber_mem \<Rightarrow> (tls \<times> 'c fiber_mem) res" where
  "delete_Fiber this l mem =
     (let mem1 = mem\<lparr>s_fiber_count := s_fiber_count mem - 1\<rparr>;
          f = fibers mem this
      in if m_stack f then
           bindE (SYLAR_ASSERT (m_state f = TERM' \<or> m_state f = EXCEPT \<or> m_state f = INIT)
                    ''m_state == TERM || m_state == EXCEPT || m_state == INIT'') (\<lambda>_.
           Inr (l, set_fiber this (\<lambda>f. f\<lparr>m_stack := False\<rparr>) mem1))
         else
           bindE (SYLAR_ASSERT (m_fiber_cb f = None) ''!m_cb'') (\<lambda>_.
           bindE (SYLAR_ASSERT (m_state f = EXEC) ''m_state == EXEC'') (\<lambda>_.
           Inr (if t_fiber l = Some this then SetThis None l else l, mem1))))"

definition Fiber_reset :: "'c option \<Rightarrow> fiber_ptr \<Rightarrow> 'c fiber_mem \<Rightarrow> 'c fiber_mem res" where
  "Fiber_reset cb this mem =
     (let f = fibers mem this
      in bindE (SYLAR_ASSERT (m_stack f) ''m_stack'') (\<lambda>_.
         bindE (SYLAR_ASSERT (m_state f = TERM' \<or> m_state f = EXCEPT \<or> m_state f = INIT)
                  ''m_state == TERM || m_state == EXCEPT || m_state == INIT'') (\<lambda>_.
         Inr (set_fiber this (\<lambda>f. f\<lparr>m_fiber_cb := cb, m_ctx := Start EntryMainFunc, m_state := INIT\<rparr>) mem))))"

text \<open>
  \<^verbatim>\<open>swapcontext(&from->m_ctx, &to->m_ctx)\<close>: the running context is saved in \<open>from\<close>; a context that
  has nothing left to run ends in the assertion behind the last switch of the entry functions.
\<close>

definition swapcontext :: "fiber_ptr \<Rightarrow> fiber_ptr \<Rightarrow> tls \<Rightarrow> 'c fiber_mem \<Rightarrow> (tls \<times> 'c fiber_mem) res" where
  "swapcontext from to l mem =
     bindE (SYLAR_ASSERT (m_ctx (fibers mem to) \<noteq> AtEnd) ''never reach'') (\<lambda>_.
     Inr (l\<lparr>t_cpu := Some to\<rparr>, set_fiber from (\<lambda>f. f\<lparr>m_ctx := Saved\<rparr>) mem))"

definition Fiber_call :: "fiber_ptr \<Rightarrow> tls \<Rightarrow> 'c fiber_mem \<Rightarrow> (tls \<times> 'c fiber_mem) res" where
  "Fiber_call this l mem =
     bindE (deref (t_threadFiber l) ''t_threadFiber'') (\<lambda>m.
     swapcontext m this (SetThis (Some this) l) (set_state this EXEC mem))"

definition Fiber_back :: "fiber_ptr \<Rightarrow> tls \<Rightarrow> 'c fiber_mem \<Rightarrow> (tls \<times> 'c fiber_mem) res" where
  "Fiber_back this l mem =
     bindE (deref (t_threadFiber l) ''t_threadFiber'') (\<lambda>m.
     swapcontext this m (SetThis (t_threadFiber l) l) mem)"

definition swapIn :: "fiber_ptr \<Rightarrow> tls \<Rightarrow> 'c fiber_mem \<Rightarrow> (tls \<times> 'c fiber_mem) res" where
  "swapIn this l mem =
     bindE (SYLAR_ASSERT (state_of mem this \<noteq> EXEC) ''m_state != EXEC'') (\<lambda>_.
     bindE (deref (t_scheduler_fiber l) ''Scheduler::GetMainFiber()'') (\<lambda>m.
     swapcontext m this (SetThis (Some this) l) (set_state this EXEC mem)))"

definition swapOut :: "fiber_ptr \<Rightarrow> tls \<Rightarrow> 'c fiber_mem \<Rightarrow> (tls \<times> 'c fiber_mem) res" where
  "swapOut this l mem =
     bindE (deref (t_scheduler_fiber l) ''Scheduler::GetMainFiber()'') (\<lambda>m.
     swapcontext this m (SetThis (t_scheduler_fiber l) l) mem)"

definition GetThis :: "tls \<Rightarrow> 'c fiber_mem \<Rightarrow> fiber_ptr \<times> tls \<times> 'c fiber_mem" where
  "GetThis l mem =
     (case t_fiber l of
        Some f \<Rightarrow> (f, l, mem)
      | None \<Rightarrow>
          let (main_fiber, l1, mem1) = new_Fiber_main l mem
          in (main_fiber, l1\<lparr>t_threadFiber := Some main_fiber\<rparr>, mem1))"

definition YieldToReady :: "tls \<Rightarrow> 'c fiber_mem \<Rightarrow> (tls \<times> 'c fiber_mem) res" where
  "YieldToReady l mem =
     (let (cur, l1, mem1) = GetThis l mem
      in bindE (SYLAR_ASSERT (state_of mem1 cur = EXEC) ''cur->m_state == EXEC'') (\<lambda>_.
         swapOut cur l1 (set_state cur READY mem1)))"

definition YieldToHold :: "tls \<Rightarrow> 'c fiber_mem \<Rightarrow> (tls \<times> 'c fiber_mem) res" where
  "YieldToHold l mem =
     (let (cur, l1, mem1) = GetThis l mem
      in bindE (SYLAR_ASSERT (state_of mem1 cur = EXEC) ''cur->m_state == EXEC'') (\<lambda>_.
         swapOut cur l1 mem1))"

text \<open>
  The end of the entry functions: the \<^verbatim>\<open>try\<close> block with the way the callback ended (calling an
  empty \<^verbatim>\<open>std::function\<close> throws a standard exception), then the last switch. \<open>cur\<close> is what
  \<^verbatim>\<open>GetThis()\<close> returned when the function was entered, the fiber itself.
\<close>

definition finish_cb :: "outcome \<Rightarrow> 'c fiber \<Rightarrow> 'c fiber" where
  "finish_cb out f =
     (if m_fiber_cb f \<noteq> None \<and> out = Returned then f\<lparr>m_fiber_cb := None, m_state := TERM'\<rparr>
      else f\<lparr>m_state := EXCEPT\<rparr>)"

definition MainFunc :: "fiber_ptr \<Rightarrow> outcome \<Rightarrow> tls \<Rightarrow> 'c fiber_mem \<Rightarrow> (tls \<times> 'c fiber_mem) res" where
  "MainFunc cur out l mem =
     bindE (swapOut cur l (set_fiber cur (finish_cb out) mem)) (\<lambda>(l1, mem1).
     Inr (l1, set_fiber cur (\<lambda>f. f\<lparr>m_ctx := AtEnd\<rparr>) mem1))"

definition CallerMainFunc :: "fiber_ptr \<Rightarrow> outcome \<Rightarrow> tls \<Rightarrow> 'c fiber_mem \<Rightarrow> (tls \<times> 'c fiber_mem) res" where
  "CallerMainFunc cur out l mem =
     bindE (Fiber_back cur l (set_fiber cur (finish_cb out) mem)) (\<lambda>(l1, mem1).
     Inr (l1, set_fiber cur (\<lambda>f. f\<lparr>m_ctx := AtEnd\<rparr>) mem1))"

lemmas fiber_defs [op_defs] =
  SetThis_def swapcontext_def Fiber_call_def Fiber_back_def swapIn_def swapOut_def GetThis_def
  YieldToReady_def YieldToHold_def MainFunc_def CallerMainFunc_def Fiber_reset_def set_fiber_def

section \<open>Lemmas\<close>

lemma set_fiber_simps [simp]:
  "fibers (set_fiber p g mem) q = (if q = p then g (fibers mem p) else fibers mem q)"
  "next_fiber (set_fiber p g mem) = next_fiber mem"
  "s_fiber_id (set_fiber p g mem) = s_fiber_id mem"
  "s_fiber_count (set_fiber p g mem) = s_fiber_count mem"
  by (simp_all add: set_fiber_def)

lemma swapIn_Inr:
  "swapIn this l mem = Inr (l', mem') \<longleftrightarrow>
     state_of mem this \<noteq> EXEC \<and>
     (\<exists>m. t_scheduler_fiber l = Some m \<and> m_ctx (fibers mem this) \<noteq> AtEnd \<and>
        l' = l\<lparr>t_fiber := Some this, t_cpu := Some this\<rparr> \<and>
        mem' = set_fiber m (\<lambda>f. f\<lparr>m_ctx := Saved\<rparr>) (set_state this EXEC mem))"
  by (auto simp: swapIn_def swapcontext_def SetThis_def bindE_eq_Inr deref_eq_Inr)

lemma swapOut_Inr:
  "swapOut this l mem = Inr (l', mem') \<longleftrightarrow>
     (\<exists>m. t_scheduler_fiber l = Some m \<and> m_ctx (fibers mem m) \<noteq> AtEnd \<and>
        l' = l\<lparr>t_fiber := Some m, t_cpu := Some m\<rparr> \<and>
        mem' = set_fiber this (\<lambda>f. f\<lparr>m_ctx := Saved\<rparr>) mem)"
  by (auto simp: swapOut_def swapcontext_def SetThis_def bindE_eq_Inr deref_eq_Inr)

section \<open>Executions of one thread\<close>

text \<open>
  The operations as a scheduler and its fibers use them on one thread: \<open>swapIn\<close> from the
  scheduling fiber, \<open>Fiber_call\<close> of the scheduler's root fiber from the thread's main fiber, the
  others from the fiber that is running, \<open>HOLD\<close> set by the scheduling fiber on a fiber that came
  back to it.
\<close>

inductive fiber_step :: "tls \<times> 'c fiber_mem \<Rightarrow> tls \<times> 'c fiber_mem \<Rightarrow> bool" where
  f_new: "new_Fiber dflt cb stacksize use_caller mem = (p, mem') \<Longrightarrow> fiber_step (l, mem) (l, mem')"
| f_GetThis: "GetThis l mem = (p, l', mem') \<Longrightarrow> fiber_step (l, mem) (l', mem')"
| f_main_fiber: "t_cpu l = t_threadFiber l \<Longrightarrow>
     fiber_step (l, mem) (l\<lparr>t_scheduler_fiber := t_fiber l\<rparr>, mem)"
| f_root_fiber: "t_cpu l = t_threadFiber l \<Longrightarrow> r < next_fiber mem \<Longrightarrow> m_stack (fibers mem r) \<Longrightarrow>
     fiber_step (l, mem) (l\<lparr>t_scheduler_fiber := Some r\<rparr>, mem)"
| f_swapIn: "t_cpu l = t_scheduler_fiber l \<Longrightarrow> p < next_fiber mem \<Longrightarrow>
     swapIn p l mem = Inr (l', mem') \<Longrightarrow> fiber_step (l, mem) (l', mem')"
| f_YieldToReady: "t_cpu l \<noteq> t_scheduler_fiber l \<Longrightarrow> t_cpu l \<noteq> t_threadFiber l \<Longrightarrow>
     YieldToReady l mem = Inr (l', mem') \<Longrightarrow> fiber_step (l, mem) (l', mem')"
| f_YieldToHold: "t_cpu l \<noteq> t_scheduler_fiber l \<Longrightarrow> t_cpu l \<noteq> t_threadFiber l \<Longrightarrow>
     YieldToHold l mem = Inr (l', mem') \<Longrightarrow> fiber_step (l, mem) (l', mem')"
| f_MainFunc: "t_cpu l = Some c \<Longrightarrow> t_cpu l \<noteq> t_scheduler_fiber l \<Longrightarrow> t_cpu l \<noteq> t_threadFiber l \<Longrightarrow>
     MainFunc c out l mem = Inr (l', mem') \<Longrightarrow> fiber_step (l, mem) (l', mem')"
| f_call: "t_cpu l = t_threadFiber l \<Longrightarrow> t_scheduler_fiber l = Some p \<Longrightarrow> state_of mem p \<noteq> EXEC \<Longrightarrow>
     Fiber_call p l mem = Inr (l', mem') \<Longrightarrow> fiber_step (l, mem) (l', mem')"
| f_CallerMainFunc: "t_cpu l = Some c \<Longrightarrow> t_scheduler_fiber l = Some c \<Longrightarrow> t_cpu l \<noteq> t_threadFiber l \<Longrightarrow>
     CallerMainFunc c out l mem = Inr (l', mem') \<Longrightarrow> fiber_step (l, mem) (l', mem')"
| f_reset: "p < next_fiber mem \<Longrightarrow> Fiber_reset cb p mem = Inr mem' \<Longrightarrow> fiber_step (l, mem) (l, mem')"
| f_hold: "p < next_fiber mem \<Longrightarrow> t_cpu l \<noteq> Some p \<Longrightarrow> t_scheduler_fiber l \<noteq> Some p \<Longrightarrow>
     m_stack (fibers mem p) \<Longrightarrow> state_of mem p \<noteq> TERM' \<Longrightarrow> state_of mem p \<noteq> EXCEPT \<Longrightarrow>
     fiber_step (l, mem) (l, set_state p HOLD mem)"

inductive_cases fiber_stepE: "fiber_step (l, mem) (l', mem')"

definition thread_init :: "tls \<times> 'c fiber_mem \<Rightarrow> bool" where
  "thread_init s \<longleftrightarrow>
     fst s = new_tls \<and>
     next_fiber (snd s) = 0"

text \<open>
  A context has nothing left to run exactly in the states \<open>TERM'\<close> and \<open>EXCEPT\<close>; a fiber without a
  stack (a thread's main fiber) is always in state \<open>EXEC\<close>. The running fiber is the one \<open>t_fiber\<close>
  names and is in state \<open>EXEC\<close>; away from the main fiber, so is the scheduling fiber.
\<close>

definition fiber_ok :: "'c fiber \<Rightarrow> bool" where
  "fiber_ok f \<longleftrightarrow>
     (m_ctx f = AtEnd \<longleftrightarrow> m_state f = TERM' \<or> m_state f = EXCEPT) \<and>
     (\<not> m_stack f \<longrightarrow> m_state f = EXEC)"

definition mem_ok :: "'c fiber_mem \<Rightarrow> bool" where
  "mem_ok mem \<longleftrightarrow> (\<forall>p < next_fiber mem. fiber_ok (fibers mem p))"

definition thread_inv :: "tls \<times> 'c fiber_mem \<Rightarrow> bool" where
  "thread_inv s \<longleftrightarrow> (case s of (l, mem) \<Rightarrow>
     mem_ok mem \<and> t_fiber l = t_cpu l \<and>
     (\<forall>c. t_cpu l = Some c \<longrightarrow> c < next_fiber mem \<and> state_of mem c = EXEC) \<and>
     (\<forall>t. t_threadFiber l = Some t \<longrightarrow> t < next_fiber mem \<and> \<not> m_stack (fibers mem t)) \<and>
     (\<forall>m. t_scheduler_fiber l = Some m \<longrightarrow> m < next_fiber mem \<and>
        (t_threadFiber l = Some m \<or> m_stack (fibers mem m)) \<and>
        (t_cpu l \<noteq> t_threadFiber l \<longrightarrow> state_of mem m = EXEC)) \<and>
     (t_cpu l \<noteq> t_threadFiber l \<longrightarrow> (\<exists>c. t_cpu l = Some c \<and> m_stack (fibers mem c))) \<and>
     (t_cpu l = None \<longrightarrow> t_threadFiber l = None))"

lemma thread_inv_alloc:
  assumes inv: "thread_inv (l, mem)" and F: "fiber_ok F"
    and mem': "fibers mem' = (fibers mem)(next_fiber mem := F)" "next_fiber mem' = Suc (next_fiber mem)"
  shows "thread_inv (l, mem')"
proof -
  have old: "p < next_fiber mem \<Longrightarrow> fibers mem' p = fibers mem p" for p
    using mem'(1) by simp
  have "mem_ok mem'"
    using inv F mem' old by (simp add: thread_inv_def mem_ok_def less_Suc_eq)
  moreover have "\<And>c. t_cpu l = Some c \<Longrightarrow> c < next_fiber mem"
    "\<And>t. t_threadFiber l = Some t \<Longrightarrow> t < next_fiber mem"
    "\<And>m. t_scheduler_fiber l = Some m \<Longrightarrow> m < next_fiber mem"
    using inv by (simp_all add: thread_inv_def)
  then have "\<And>c. t_cpu l = Some c \<Longrightarrow> c < next_fiber mem' \<and> fibers mem' c = fibers mem c"
    "\<And>t. t_threadFiber l = Some t \<Longrightarrow> t < next_fiber mem' \<and> fibers mem' t = fibers mem t"
    "\<And>m. t_scheduler_fiber l = Some m \<Longrightarrow> m < next_fiber mem' \<and> fibers mem' m = fibers mem m"
    using mem'(2) old by (simp_all add: less_Suc_eq)
  ultimately show ?thesis
    using inv unfolding thread_inv_def by clarsimp
qed

lemma thread_inv_new:
  assumes "thread_inv (l, mem)" and "new_Fiber dflt cb stacksize use_caller mem = (p, mem')"
  shows "thread_inv (l, mem')"
  using assms(2)
  by (intro thread_inv_alloc [OF assms(1), where F = "fibers mem' p"])
     (auto simp: new_Fiber_def Let_def fiber_ok_def)

lemma thread_inv_GetThis:
  assumes "thread_inv (l, mem)" and "GetThis l mem = (p, l', mem')"
  shows "thread_inv (l', mem')"
proof (cases "t_fiber l")
  case None
  let ?F = "\<lparr>m_id = 0, m_stacksize = 0, m_state = EXEC, m_ctx = Captured, m_stack = False,
    m_fiber_cb = None\<rparr>"
  have mem': "fibers mem' = (fibers mem)(next_fiber mem := ?F)" "next_fiber mem' = Suc (next_fiber mem)"
    and l': "l' = l\<lparr>t_fiber := Some (next_fiber mem), t_cpu := Some (next_fiber mem),
      t_threadFiber := Some (next_fiber mem)\<rparr>"
    using assms(2) None by (auto simp: GetThis_def new_Fiber_main_def SetThis_def Let_def)
  have "thread_inv (l, mem')"
    by (rule thread_inv_alloc [OF assms(1) _ mem']) (simp add: fiber_ok_def)
  moreover have "t_cpu l = None" "t_threadFiber l = None"
    using assms(1) None by (auto simp: thread_inv_def)
  ultimately show ?thesis
    unfolding l' using mem' by (simp add: thread_inv_def)
next
  case (Some f)
  then show ?thesis using assms by (simp add: GetThis_def)
qed

lemma thread_inv_swapIn:
  assumes "thread_inv (l, mem)" and "t_cpu l = t_scheduler_fiber l" and "p < next_fiber mem"
    and "swapIn p l mem = Inr (l', mem')"
  shows "thread_inv (l', mem')"
proof -
  from assms(4) obtain m where m: "t_scheduler_fiber l = Some m" "state_of mem p \<noteq> EXEC"
    "m_ctx (fibers mem p) \<noteq> AtEnd" "l' = l\<lparr>t_fiber := Some p, t_cpu := Some p\<rparr>"
    "mem' = set_fiber m (\<lambda>f. f\<lparr>m_ctx := Saved\<rparr>) (set_state p EXEC mem)"
    by (auto simp: swapIn_Inr)
  have cpu: "t_cpu l = Some m" using assms(2) m(1) by simp
  have "state_of mem m = EXEC" "m \<noteq> p"
    using assms(1) cpu m(2) by (auto simp: thread_inv_def)
  moreover have stack: "m_stack (fibers mem p)"
    using assms(1,3) m(2) by (auto simp: thread_inv_def mem_ok_def fiber_ok_def)
  moreover have "t_threadFiber l \<noteq> Some p"
    using assms(1) stack by (auto simp: thread_inv_def)
  ultimately show ?thesis
    unfolding m(4,5) using assms(1,3) m(1,3) cpu
    by (simp add: thread_inv_def mem_ok_def fiber_ok_def)
qed

text \<open>Leaving a fiber for the scheduling fiber, with the fiber changed by \<open>g\<close>.\<close>

lemma thread_inv_leave:
  assumes inv: "thread_inv (l, mem)" and c: "t_cpu l = Some c" "t_cpu l \<noteq> t_scheduler_fiber l"
    "t_cpu l \<noteq> t_threadFiber l" and m: "t_scheduler_fiber l = Some m"
    and g: "fiber_ok (g (fibers mem c))" "m_stack (g (fibers mem c)) = m_stack (fibers mem c)"
  shows "thread_inv (l\<lparr>t_fiber := Some m, t_cpu := Some m\<rparr>, set_fiber c g mem)"
proof -
  have "m \<noteq> c" "state_of mem m = EXEC" "\<And>t. t_threadFiber l = Some t \<Longrightarrow> t \<noteq> c"
    using inv c m by (auto simp: thread_inv_def)
  then show ?thesis
    using assms by (auto simp: thread_inv_def mem_ok_def)
qed

lemma running_fiber_ok:
  assumes "thread_inv (l, mem)" and "t_cpu l = Some c"
  shows "fiber_ok (fibers mem c)" and "state_of mem c = EXEC"
  using assms by (auto simp: thread_inv_def mem_ok_def)

lemma YieldToReady_eq:
  assumes "thread_inv (l, mem)" and "t_cpu l = Some c" and "t_cpu l \<noteq> t_scheduler_fiber l"
    and "t_cpu l \<noteq> t_threadFiber l" and "t_scheduler_fiber l = Some m"
  shows "YieldToReady l mem = Inr (l\<lparr>t_fiber := Some m, t_cpu := Some m\<rparr>,
           set_fiber c (\<lambda>f. f\<lparr>m_state := READY, m_ctx := Saved\<rparr>) mem)"
proof -
  have "fiber_ok (fibers mem m)" "state_of mem m = EXEC" "m \<noteq> c" "t_fiber l = Some c"
    "state_of mem c = EXEC"
    using assms by (auto simp: thread_inv_def mem_ok_def)
  then show ?thesis
    using assms(5)
    by (simp add: YieldToReady_def GetThis_def swapOut_def swapcontext_def SetThis_def
        fiber_ok_def set_fiber_def)
qed

lemma YieldToHold_eq:
  assumes "thread_inv (l, mem)" and "t_cpu l = Some c" and "t_cpu l \<noteq> t_scheduler_fiber l"
    and "t_cpu l \<noteq> t_threadFiber l" and "t_scheduler_fiber l = Some m"
  shows "YieldToHold l mem = Inr (l\<lparr>t_fiber := Some m, t_cpu := Some m\<rparr>,
           set_fiber c (\<lambda>f. f\<lparr>m_ctx := Saved\<rparr>) mem)"
proof -
  have "fiber_ok (fibers mem m)" "state_of mem m = EXEC" "t_fiber l = Some c"
    "state_of mem c = EXEC"
    using assms by (auto simp: thread_inv_def mem_ok_def)
  then show ?thesis
    using assms(5)
    by (simp add: YieldToHold_def GetThis_def swapOut_def swapcontext_def SetThis_def
        fiber_ok_def set_fiber_def)
qed

lemma MainFunc_eq:
  assumes "thread_inv (l, mem)" and "t_cpu l = Some c" and "t_cpu l \<noteq> t_scheduler_fiber l"
    and "t_cpu l \<noteq> t_threadFiber l" and "t_scheduler_fiber l = Some m"
  shows "MainFunc c out l mem = Inr (l\<lparr>t_fiber := Some m, t_cpu := Some m\<rparr>,
           set_fiber c (\<lambda>f. (finish_cb out f)\<lparr>m_ctx := AtEnd\<rparr>) mem)"
proof -
  have "fiber_ok (fibers mem m)" "state_of mem m = EXEC" "m \<noteq> c"
    using assms by (auto simp: thread_inv_def mem_ok_def)
  then show ?thesis
    using assms(5)
    by (simp add: MainFunc_def swapOut_def swapcontext_def SetThis_def fiber_ok_def set_fiber_def)
qed

lemma leaves_to_scheduler_fiber:
  "YieldToReady l mem = Inr r \<Longrightarrow> \<exists>m. t_scheduler_fiber l = Some m"
  "YieldToHold l mem = Inr r \<Longrightarrow> \<exists>m. t_scheduler_fiber l = Some m"
  "MainFunc c out l mem = Inr r \<Longrightarrow> \<exists>m. t_scheduler_fiber l = Some m"
  by (auto simp: YieldToReady_def YieldToHold_def MainFunc_def swapOut_def GetThis_def
      new_Fiber_main_def SetThis_def Let_def bindE_eq_Inr deref_eq_Inr split: option.splits)

lemma running_fiber:
  "thread_inv (l, mem) \<Longrightarrow> t_cpu l \<noteq> t_threadFiber l \<Longrightarrow>
   \<exists>c. t_cpu l = Some c \<and> m_stack (fibers mem c)"
  by (simp add: thread_inv_def)

lemma fiber_ok_updates:
  "fiber_ok f \<Longrightarrow> m_state f = EXEC \<Longrightarrow> fiber_ok (f\<lparr>m_ctx := Saved\<rparr>)"
  "m_stack f \<Longrightarrow> fiber_ok (f\<lparr>m_state := READY, m_ctx := Saved\<rparr>)"
  "m_stack f \<Longrightarrow> fiber_ok ((finish_cb out f)\<lparr>m_ctx := AtEnd\<rparr>)"
  by (auto simp: fiber_ok_def finish_cb_def)

lemma finish_cb_stack [simp]: "m_stack (finish_cb out f) = m_stack f"
  by (simp add: finish_cb_def)

lemma thread_inv_call:
  assumes inv: "thread_inv (l, mem)" and "t_cpu l = t_threadFiber l" and "t_scheduler_fiber l = Some p" and "state_of mem p \<noteq> EXEC"
    and call: "Fiber_call p l mem = Inr (l', mem')"
  shows "thread_inv (l', mem')"
proof -
  from call obtain t where t: "t_threadFiber l = Some t" "m_ctx (fibers mem p) \<noteq> AtEnd"
    "l' = l\<lparr>t_fiber := Some p, t_cpu := Some p\<rparr>"
    "mem' = set_fiber t (\<lambda>f. f\<lparr>m_ctx := Saved\<rparr>) (set_state p EXEC mem)"
    by (auto simp: Fiber_call_def swapcontext_def SetThis_def bindE_eq_Inr deref_eq_Inr)
  with assms have "t \<noteq> p" "state_of mem t = EXEC" by (auto simp: thread_inv_def mem_ok_def fiber_ok_def)
  with assms t show ?thesis by (auto simp: thread_inv_def mem_ok_def fiber_ok_def)
qed

lemma thread_inv_CallerMainFunc:
  assumes inv: "thread_inv (l, mem)" and "t_cpu l = Some c" and "t_scheduler_fiber l = Some c" and "t_cpu l \<noteq> t_threadFiber l"
    and ret: "CallerMainFunc c out l mem = Inr (l', mem')"
  shows "thread_inv (l', mem')"
proof -
  from ret obtain t where t: "t_threadFiber l = Some t"
    "l' = l\<lparr>t_fiber := Some t, t_cpu := Some t\<rparr>"
    "mem' = set_fiber c (\<lambda>f. (finish_cb out f)\<lparr>m_ctx := AtEnd\<rparr>) mem"
    by (auto simp: CallerMainFunc_def Fiber_back_def swapcontext_def SetThis_def bindE_eq_Inr deref_eq_Inr set_fiber_def)
  with assms have "t \<noteq> c" "m_stack (fibers mem c)" by (auto simp: thread_inv_def)
  with assms t fiber_ok_updates(3) [of "fibers mem c" out] show ?thesis
    by (auto simp: thread_inv_def mem_ok_def fiber_ok_def)
qed

lemma thread_inv_reset:
  assumes "thread_inv (l, mem)" and "p < next_fiber mem" and "Fiber_reset cb p mem = Inr mem'"
  shows "thread_inv (l, mem')"
proof -
  have "mem' = set_fiber p (\<lambda>f. f\<lparr>m_fiber_cb := cb, m_ctx := Start EntryMainFunc, m_state := INIT\<rparr>) mem"
    "m_stack (fibers mem p)" "state_of mem p \<noteq> EXEC"
    using assms(3) by (auto simp: Fiber_reset_def bindE_eq_Inr Let_def)
  with assms(1,2) show ?thesis by (auto simp: thread_inv_def mem_ok_def fiber_ok_def)
qed

lemma thread_inv_step:
  assumes inv: "thread_inv s" and step: "fiber_step s s'"
  shows "thread_inv s'"
  using step
proof (cases rule: fiber_step.cases)
  case (f_new dflt cb stacksize use_caller mem p mem' l)
  then show ?thesis using inv thread_inv_new by blast
next
  case (f_GetThis l mem p l' mem')
  then show ?thesis using inv thread_inv_GetThis by blast
next
  case (f_main_fiber l mem)
  then show ?thesis using inv by (auto simp: thread_inv_def mem_ok_def fiber_ok_def)
next
  case (f_root_fiber l r mem)
  then show ?thesis using inv by (auto simp: thread_inv_def)
next
  case (f_swapIn l p mem l' mem')
  then show ?thesis using inv thread_inv_swapIn by blast
next
  case (f_YieldToReady l mem l' mem')
  then obtain c m where c: "t_cpu l = Some c" "t_scheduler_fiber l = Some m" "m_stack (fibers mem c)"
    using inv running_fiber leaves_to_scheduler_fiber(1) by blast
  with f_YieldToReady inv show ?thesis
    by (auto simp: YieldToReady_eq intro!: thread_inv_leave fiber_ok_updates)
next
  case (f_YieldToHold l mem l' mem')
  then obtain c m where c: "t_cpu l = Some c" "t_scheduler_fiber l = Some m"
    using inv running_fiber leaves_to_scheduler_fiber(2) by blast
  with f_YieldToHold inv running_fiber_ok [of l mem c] show ?thesis
    by (auto simp: YieldToHold_eq intro!: thread_inv_leave fiber_ok_updates)
next
  case (f_MainFunc l c out mem l' mem')
  then obtain m where m: "t_scheduler_fiber l = Some m" "m_stack (fibers mem c)"
    using inv running_fiber leaves_to_scheduler_fiber(3) by fastforce
  with f_MainFunc inv show ?thesis
    by (auto simp: MainFunc_eq intro!: thread_inv_leave fiber_ok_updates)
next
  case (f_call l p mem l' mem')
  then show ?thesis using inv thread_inv_call by blast
next
  case (f_CallerMainFunc l c out mem l' mem')
  then show ?thesis using inv thread_inv_CallerMainFunc by blast
next
  case (f_reset p mem cb mem' l)
  then show ?thesis using inv thread_inv_reset by blast
next
  case (f_hold p mem l)
  then show ?thesis using inv by (auto simp: thread_inv_def mem_ok_def fiber_ok_def)
qed

interpretation thread: inductive_invariant thread_init fiber_step thread_inv
proof unfold_locales
  show "thread_init s \<Longrightarrow> thread_inv s" for s :: "tls \<times> 'c fiber_mem"
    by (cases s) (auto simp: thread_init_def new_tls_def thread_inv_def mem_ok_def)
  show "thread_inv s \<Longrightarrow> fiber_step s t \<Longrightarrow> thread_inv t" for s t :: "tls \<times> 'c fiber_mem"
    by (rule thread_inv_step)
qed

section \<open>Properties\<close>

text \<open>
  A running fiber can always give up the processor: in every state a thread can reach, when a
  fiber other than the main and the scheduling fiber runs and the scheduling fiber is set, both
  yields pass their assertions and switch to the scheduling fiber, which is in state \<open>EXEC\<close>;
  \<open>YieldToReady\<close> leaves the fiber in state \<open>READY\<close>, while \<open>YieldToHold\<close> leaves it in state \<open>EXEC\<close>
  (it is the scheduler that sets \<open>HOLD\<close>).
\<close>

theorem yield_switches_to_scheduler:
  assumes "reachable thread_init fiber_step (l, mem)" and "t_cpu l = Some c"
    and "t_scheduler_fiber l = Some m" and "c \<noteq> m" and "t_threadFiber l \<noteq> Some c"
  shows "state_of mem m = EXEC \<and>
     (\<exists>l' mem'. YieldToReady l mem = Inr (l', mem') \<and> t_cpu l' = Some m \<and> t_fiber l' = Some m \<and>
        state_of mem' c = READY \<and> m_ctx (fibers mem' c) = Saved \<and>
        (\<forall>q. q \<noteq> c \<longrightarrow> fibers mem' q = fibers mem q)) \<and>
     (\<exists>l' mem'. YieldToHold l mem = Inr (l', mem') \<and> t_cpu l' = Some m \<and> t_fiber l' = Some m \<and>
        state_of mem' c = EXEC \<and> m_ctx (fibers mem' c) = Saved \<and>
        (\<forall>q. q \<noteq> c \<longrightarrow> fibers mem' q = fibers mem q))"
proof -
  have inv: "thread_inv (l, mem)" using assms(1) by (rule thread.reachable_inv)
  have ne: "t_cpu l \<noteq> t_scheduler_fiber l" "t_cpu l \<noteq> t_threadFiber l"
    using assms(2-5) by auto
  have "state_of mem m = EXEC" and "state_of mem c = EXEC"
    using inv assms(2,3) ne(2) by (auto simp: thread_inv_def)
  then show ?thesis
    using YieldToReady_eq [OF inv assms(2) ne assms(3)] YieldToHold_eq [OF inv assms(2) ne assms(3)]
    by simp
qed

text \<open>A thread whose main fiber is its scheduling fiber (as on the threads a scheduler creates)
  and that switched to a new fiber.\<close>

definition demo_tls :: tls where
  "demo_tls = \<lparr>t_fiber = Some 1, t_threadFiber = Some 0, t_scheduler_fiber = Some 0, t_cpu = Some 1,
     t_scheduler = None, t_hook_enable = False\<rparr>"

definition demo_main :: "nat fiber" where
  "demo_main = \<lparr>m_id = 0, m_stacksize = 0, m_state = EXEC, m_ctx = Captured, m_stack = False, m_fiber_cb = None\<rparr>"

definition demo_fiber :: "nat fiber" where
  "demo_fiber = \<lparr>m_id = 1, m_stacksize = 131072, m_state = EXEC, m_ctx = Start EntryMainFunc,
     m_stack = True, m_fiber_cb = Some 7\<rparr>"

definition demo_mem :: "nat fiber_mem" where
  "demo_mem = \<lparr>fibers = (\<lambda>_. demo_main)(1 := demo_fiber, 0 := demo_main\<lparr>m_ctx := Saved\<rparr>),
     next_fiber = 2, s_fiber_id = 1, s_fiber_count = 2\<rparr>"

lemma demo_thread_reachable: "reachable thread_init fiber_step (demo_tls, demo_mem)"
proof -
  let ?l = "new_tls"
  let ?m = "\<lparr>fibers = (\<lambda>_. demo_main), next_fiber = 0, s_fiber_id = 0, s_fiber_count = 0\<rparr>"
  let ?la = "?l\<lparr>t_fiber := Some 0, t_cpu := Some 0, t_threadFiber := Some 0\<rparr>"
  let ?ma = "?m\<lparr>next_fiber := 1, s_fiber_count := 1\<rparr>"
  let ?lb = "?la\<lparr>t_scheduler_fiber := Some 0\<rparr>"
  let ?mb = "?ma\<lparr>fibers := (\<lambda>_. demo_main)(1 := demo_fiber\<lparr>m_state := INIT\<rparr>),
    next_fiber := 2, s_fiber_id := 1, s_fiber_count := 2\<rparr>"
  have "reachable thread_init fiber_step (?l, ?m)"
    by (rule reachable_init) (simp add: thread_init_def)
  moreover have "fiber_step (?l, ?m) (?la, ?ma)"
    by (rule f_GetThis [where p = 0])
       (simp add: new_tls_def GetThis_def new_Fiber_main_def SetThis_def demo_main_def fun_upd_idem)
  ultimately have "reachable thread_init fiber_step (?la, ?ma)" by (rule reachable_step)
  moreover have "fiber_step (?la, ?ma) (?lb, ?ma)"
    using f_main_fiber [of ?la ?ma] by (simp add: new_tls_def)
  ultimately have "reachable thread_init fiber_step (?lb, ?ma)" by (rule reachable_step)
  moreover have "fiber_step (?lb, ?ma) (?lb, ?mb)"
    by (rule f_new [where dflt = 131072 and cb = "Some 7" and stacksize = 0 and use_caller = False and p = 1])
       (simp add: new_Fiber_def demo_fiber_def)
  ultimately have "reachable thread_init fiber_step (?lb, ?mb)" by (rule reachable_step)
  moreover have "fiber_step (?lb, ?mb) (demo_tls, demo_mem)"
    by (rule f_swapIn [where p = 1])
       (simp_all add: new_tls_def swapIn_Inr demo_tls_def demo_mem_def demo_fiber_def set_fiber_def fun_upd_twist)
  ultimately show ?thesis by (rule reachable_step)
qed

theorem yield_switches_to_scheduler_witness:
  "\<exists>l' mem'. YieldToReady demo_tls demo_mem = Inr (l', mem') \<and> t_cpu l' = Some 0 \<and> state_of mem' 1 = READY"
  using yield_switches_to_scheduler [OF demo_thread_reachable, of 1 0] by (auto simp: demo_tls_def)



end
