(* ===== verification/Scheduler.thy ===== *)
theory Scheduler
  imports Fiber
begin

text \<open>
  \<^verbatim>\<open>sylar/scheduler.h\<close> and \<^verbatim>\<open>sylar/scheduler.cpp\<close>: the N-to-M fiber scheduler. The scheduler object is
  the record \<open>sched\<close>; a thread inside \<^verbatim>\<open>Scheduler::run\<close> is a \<open>worker\<close> with the local variables of that
  function and a program counter. The loop body of \<open>run\<close> is cut where control leaves the thread:
  the section under the lock (\<open>run_pick\<close>), the code up to the switch into a fiber
  (\<open>run_dispatch\<close>) and the code after it came back (\<open>run_return\<close>). The virtual functions
  \<^verbatim>\<open>tickle\<close> and \<^verbatim>\<open>stopping\<close> are arguments; \<open>Scheduler_tickle\<close> and \<open>Scheduler_stopping\<close> are those of
  the base class.
\<close>

section \<open>Data\<close>

type_synonym sched_ptr = nat

text \<open>\<^verbatim>\<open>Scheduler::FiberAndThread\<close>.\<close>

record 'c task =
  ft_fiber :: "fiber_ptr option"
  ft_cb :: "'c option"
  ft_thread :: thread_id

record 'c sched =
  mem :: "'c fiber_mem"
  m_threads :: "thread_id list"
  m_fibers :: "'c task list"
  m_rootFiber :: "fiber_ptr option"
  m_name :: string
  m_threadIds :: "thread_id list"
  m_threadCount :: nat
  m_activeThreadCount :: u64
  m_idleThreadCount :: u64
  m_stopping :: bool
  m_autoStop :: bool
  m_rootThread :: thread_id

datatype pc = AtTop | Picked | InFiber | InCb | InIdle | Exited

record 'c worker =
  w_tid :: thread_id
  w_tls :: tls
  w_idle_fiber :: fiber_ptr
  w_cb_fiber :: "fiber_ptr option"
  w_ft :: "'c task"
  w_tickle_me :: bool
  w_is_active :: bool
  w_pc :: pc

section \<open>Operations\<close>

text \<open>The constructors of \<^verbatim>\<open>FiberAndThread\<close> and its \<^verbatim>\<open>reset()\<close>.\<close>

definition FT_fiber :: "fiber_ptr option \<Rightarrow> thread_id \<Rightarrow> 'c task" where
  "FT_fiber f thr = \<lparr>ft_fiber = f, ft_cb = None, ft_thread = thr\<rparr>"

definition FT_cb :: "'c option \<Rightarrow> thread_id \<Rightarrow> 'c task" where
  "FT_cb f thr = \<lparr>ft_fiber = None, ft_cb = f, ft_thread = thr\<rparr>"

definition FT_reset :: "'c task" where
  "FT_reset = \<lparr>ft_fiber = None, ft_cb = None, ft_thread = - 1\<rparr>"

definition schedulerNoLock :: "'c task \<Rightarrow> ('c, 'z) sched_scheme \<Rightarrow> bool \<times> ('c, 'z) sched_scheme" where
  "schedulerNoLock ft s =
     (let need_tickle = (m_fibers s = [])
      in (need_tickle,
          if ft_fiber ft \<noteq> None \<or> ft_cb ft \<noteq> None then s\<lparr>m_fibers := m_fibers s @ [ft]\<rparr> else s))"

definition schedule ::
  "(('c, 'z) sched_scheme \<Rightarrow> ('c, 'z) sched_scheme) \<Rightarrow> 'c task \<Rightarrow> ('c, 'z) sched_scheme \<Rightarrow> ('c, 'z) sched_scheme" where
  "schedule tickle ft s =
     (let (need_tickle, s1) = schedulerNoLock ft s
      in if need_tickle then tickle s1 else s1)"

text \<open>\<^verbatim>\<open>schedule(begin, end)\<close>: the loop under the lock, then one tickle.\<close>

fun schedule_loop :: "'c task list \<Rightarrow> bool \<Rightarrow> ('c, 'z) sched_scheme \<Rightarrow> bool \<times> ('c, 'z) sched_scheme" where
  "schedule_loop [] need_tickle s = (need_tickle, s)"
| "schedule_loop (ft # fts) need_tickle s =
     (let (n, s1) = schedulerNoLock ft s in schedule_loop fts (n \<or> need_tickle) s1)"

definition schedule_range ::
  "(('c, 'z) sched_scheme \<Rightarrow> ('c, 'z) sched_scheme) \<Rightarrow> 'c task list \<Rightarrow> ('c, 'z) sched_scheme \<Rightarrow> ('c, 'z) sched_scheme" where
  "schedule_range tickle fts s =
     (let (need_tickle, s1) = schedule_loop fts False s
      in if need_tickle then tickle s1 else s1)"

definition Scheduler_tickle :: "('c, 'z) sched_scheme \<Rightarrow> ('c, 'z) sched_scheme" where
  "Scheduler_tickle s = s"

definition hasIdleThreads :: "('c, 'z) sched_scheme \<Rightarrow> bool" where
  "hasIdleThreads s = (0 < m_idleThreadCount s)"

definition Scheduler_stopping :: "('c, 'z) sched_scheme \<Rightarrow> bool" where
  "Scheduler_stopping s =
     (m_autoStop s \<and> m_stopping s \<and> m_fibers s = [] \<and> m_activeThreadCount s = 0)"

text \<open>
  The constructor, on a thread with id \<open>tid\<close> and thread-locals \<open>l\<close>, for the object at address
  \<open>this\<close>; \<open>run\<close> stands for \<^verbatim>\<open>std::bind(&Scheduler::run, this)\<close>.
\<close>

definition new_Scheduler ::
  "u32 \<Rightarrow> nat \<Rightarrow> bool \<Rightarrow> string \<Rightarrow> sched_ptr \<Rightarrow> 'c \<Rightarrow> thread_id \<Rightarrow> tls \<Rightarrow> 'c fiber_mem \<Rightarrow> (tls \<times> 'c sched) res" where
  "new_Scheduler fiber_stack_size threads use_caller name this run tid l m =
     bindE (SYLAR_ASSERT (threads > 0) ''threads > 0'') (\<lambda>_.
     let s0 = \<lparr>mem = m, m_threads = [], m_fibers = [], m_rootFiber = None, m_name = name,
               m_threadIds = [], m_threadCount = threads, m_activeThreadCount = 0,
               m_idleThreadCount = 0, m_stopping = True, m_autoStop = False, m_rootThread = - 1\<rparr>
     in if use_caller then
          let (_, l1, m1) = GetThis l m
          in bindE (SYLAR_ASSERT (t_scheduler l1 = None) ''GetThis() == nullptr'') (\<lambda>_.
             let (r, m2) = new_Fiber fiber_stack_size (Some run) 0 True m1
             in Inr (l1\<lparr>t_scheduler := Some this, t_scheduler_fiber := Some r\<rparr>,
                     s0\<lparr>mem := m2, m_rootFiber := Some r, m_threadIds := [tid],
                        m_threadCount := threads - 1, m_rootThread := tid\<rparr>))
        else Inr (l, s0))"

definition delete_Scheduler :: "sched_ptr \<Rightarrow> tls \<Rightarrow> ('c, 'z) sched_scheme \<Rightarrow> tls res" where
  "delete_Scheduler this l s =
     bindE (SYLAR_ASSERT (m_stopping s) ''m_stopping'') (\<lambda>_.
     Inr (if t_scheduler l = Some this then l\<lparr>t_scheduler := None\<rparr> else l))"

text \<open>\<open>start\<close>: the i-th new thread has id \<open>ids i\<close> (the \<^verbatim>\<open>Thread\<close> constructor returns once the thread
  runs and has stored its id).\<close>

definition start :: "(nat \<Rightarrow> thread_id) \<Rightarrow> ('c, 'z) sched_scheme \<Rightarrow> ('c, 'z) sched_scheme res" where
  "start ids s =
     (if \<not> m_stopping s then Inr s
      else
        let s1 = s\<lparr>m_stopping := False\<rparr>
        in bindE (SYLAR_ASSERT (m_threads s1 = []) ''m_threads.empty()'') (\<lambda>_.
           let new = map ids [0..<m_threadCount s1]
           in Inr (s1\<lparr>m_threads := new, m_threadIds := m_threadIds s1 @ new\<rparr>)))"

text \<open>
  \<open>stop\<close>, called on a thread with thread-locals \<open>l\<close>: \<open>call_root\<close> is the effect of
  \<^verbatim>\<open>m_rootFiber->call()\<close>, which runs \<open>run\<close> on this thread until it returns. \<open>stop_begin\<close> is the function up to the swap of
  the vector of threads, with whether it returned before; joining the threads is the last thing the function does.
\<close>

definition stop_begin ::
  "(('c, 'z) sched_scheme \<Rightarrow> ('c, 'z) sched_scheme) \<Rightarrow> (('c, 'z) sched_scheme \<Rightarrow> bool \<times> ('c, 'z) sched_scheme) \<Rightarrow>
   (('c, 'z) sched_scheme \<Rightarrow> ('c, 'z) sched_scheme res) \<Rightarrow> sched_ptr \<Rightarrow> tls \<Rightarrow> ('c, 'z) sched_scheme \<Rightarrow>
   (bool \<times> ('c, 'z) sched_scheme) res" where
  "stop_begin tickle stopping call_root this l s =
     (let s1 = s\<lparr>m_autoStop := True\<rparr>;
          root_done = (case m_rootFiber s1 of
              None \<Rightarrow> False
            | Some r \<Rightarrow> m_threadCount s1 = 0 \<and> (state_of (mem s1) r = TERM' \<or> state_of (mem s1) r = INIT));
          (finished, s2) = (if root_done then stopping (s1\<lparr>m_stopping := True\<rparr>) else (False, s1))
      in if finished then Inr (True, s2)
         else
           bindE (SYLAR_ASSERT (if m_rootThread s2 \<noteq> - 1 then t_scheduler l = Some this
                                else t_scheduler l \<noteq> Some this) ''GetThis()'') (\<lambda>_.
           let s3 = (tickle ^^ m_threadCount s2) (s2\<lparr>m_stopping := True\<rparr>);
               s4 = (if m_rootFiber s3 \<noteq> None then tickle s3 else s3)
           in bindE (if m_rootFiber s4 \<noteq> None
                     then let (b, s5) = stopping s4 in if \<not> b then call_root s5 else Inr s5
                     else Inr s4) (\<lambda>s6.
              Inr (False, s6))))"

definition stop ::
  "(('c, 'z) sched_scheme \<Rightarrow> ('c, 'z) sched_scheme) \<Rightarrow> (('c, 'z) sched_scheme \<Rightarrow> bool \<times> ('c, 'z) sched_scheme) \<Rightarrow>
   (('c, 'z) sched_scheme \<Rightarrow> ('c, 'z) sched_scheme res) \<Rightarrow> sched_ptr \<Rightarrow> tls \<Rightarrow> ('c, 'z) sched_scheme \<Rightarrow>
   ('c, 'z) sched_scheme res" where
  "stop tickle stopping call_root this l s =
     bindE (stop_begin tickle stopping call_root this l s) (\<lambda>(returned, s1).
     Inr (if returned then s1 else s1\<lparr>m_threads := []\<rparr>))"

text \<open>The start of \<open>run\<close> on a thread, up to the loop.\<close>

definition run_enter ::
  "u32 \<Rightarrow> 'c \<Rightarrow> sched_ptr \<Rightarrow> thread_id \<Rightarrow> tls \<Rightarrow> ('c, 'z) sched_scheme \<Rightarrow> 'c worker \<times> ('c, 'z) sched_scheme" where
  "run_enter fiber_stack_size idle this tid l s =
     (let l1 = l\<lparr>t_hook_enable := True, t_scheduler := Some this\<rparr>;
          (l2, m2) = (if tid \<noteq> m_rootThread s
                      then let (f, l', m') = GetThis l1 (mem s) in (l'\<lparr>t_scheduler_fiber := Some f\<rparr>, m')
                      else (l1, mem s));
          (idle_fiber, m3) = new_Fiber fiber_stack_size (Some idle) 0 False m2
      in (\<lparr>w_tid = tid, w_tls = l2, w_idle_fiber = idle_fiber, w_cb_fiber = None, w_ft = FT_reset,
           w_tickle_me = False, w_is_active = False, w_pc = AtTop\<rparr>,
          s\<lparr>mem := m3\<rparr>))"

text \<open>
  The search under the lock. \<open>skipped\<close> holds the tasks passed over, \<open>tickle_me\<close> the flag so far;
  the result is the task taken, the queue left and the flag.
\<close>

fun run_scan ::
  "thread_id \<Rightarrow> (fiber_ptr \<Rightarrow> State) \<Rightarrow> 'c task list \<Rightarrow> 'c task list \<Rightarrow> bool \<Rightarrow>
   ('c task option \<times> 'c task list \<times> bool) res" where
  "run_scan tid st skipped [] tickle_me = Inr (None, skipped, tickle_me)"
| "run_scan tid st skipped (ft # rest) tickle_me =
     (if ft_thread ft \<noteq> - 1 \<and> ft_thread ft \<noteq> tid
      then run_scan tid st (skipped @ [ft]) rest True
      else
        bindE (SYLAR_ASSERT (ft_fiber ft \<noteq> None \<or> ft_cb ft \<noteq> None) ''it->fiber || it->cb'') (\<lambda>_.
        if (case ft_fiber ft of Some f \<Rightarrow> st f = EXEC | None \<Rightarrow> False)
        then run_scan tid st (skipped @ [ft]) rest tickle_me
        else Inr (Some ft, skipped @ rest, tickle_me \<or> rest \<noteq> [])))"

definition run_pick :: "'c worker \<Rightarrow> ('c, 'z) sched_scheme \<Rightarrow> ('c worker \<times> ('c, 'z) sched_scheme) res" where
  "run_pick w s =
     bindE (run_scan (w_tid w) (state_of (mem s)) [] (m_fibers s) False) (\<lambda>(taken, rest, tickle_me).
     Inr (case taken of
            None \<Rightarrow>
              (w\<lparr>w_ft := FT_reset, w_tickle_me := tickle_me, w_is_active := False, w_pc := Picked\<rparr>,
               s\<lparr>m_fibers := rest\<rparr>)
          | Some ft \<Rightarrow>
              (w\<lparr>w_ft := ft, w_tickle_me := tickle_me, w_is_active := True, w_pc := Picked\<rparr>,
               s\<lparr>m_fibers := rest, m_activeThreadCount := m_activeThreadCount s + 1\<rparr>)))"

text \<open>\<open>swapIn\<close> on a worker's thread.\<close>

definition worker_swapIn ::
  "fiber_ptr \<Rightarrow> pc \<Rightarrow> 'c worker \<Rightarrow> ('c, 'z) sched_scheme \<Rightarrow> ('c worker \<times> ('c, 'z) sched_scheme) res" where
  "worker_swapIn f at w s =
     bindE (swapIn f (w_tls w) (mem s)) (\<lambda>(l, m).
     Inr (w\<lparr>w_tls := l, w_pc := at\<rparr>, s\<lparr>mem := m\<rparr>))"

definition run_dispatch ::
  "u32 \<Rightarrow> (('c, 'z) sched_scheme \<Rightarrow> ('c, 'z) sched_scheme) \<Rightarrow> 'c worker \<Rightarrow> ('c, 'z) sched_scheme \<Rightarrow>
   ('c worker \<times> ('c, 'z) sched_scheme) res" where
  "run_dispatch fiber_stack_size tickle w s =
     (let s1 = (if w_tickle_me w then tickle s else s)
      in if (case ft_fiber (w_ft w) of
               Some f \<Rightarrow> state_of (mem s1) f \<noteq> TERM' \<and> state_of (mem s1) f \<noteq> EXCEPT
             | None \<Rightarrow> False)
         then worker_swapIn (the (ft_fiber (w_ft w))) InFiber w s1
         else if ft_cb (w_ft w) \<noteq> None then
           bindE (case w_cb_fiber w of
                    Some f \<Rightarrow> bindE (Fiber_reset (ft_cb (w_ft w)) f (mem s1)) (\<lambda>m. Inr (f, m))
                  | None \<Rightarrow> Inr (new_Fiber fiber_stack_size (ft_cb (w_ft w)) 0 False (mem s1)))
             (\<lambda>(f, m). worker_swapIn f InCb (w\<lparr>w_cb_fiber := Some f, w_ft := FT_reset\<rparr>) (s1\<lparr>mem := m\<rparr>))
         else if w_is_active w then
           Inr (w\<lparr>w_pc := AtTop\<rparr>, s1\<lparr>m_activeThreadCount := m_activeThreadCount s1 - 1\<rparr>)
         else if state_of (mem s1) (w_idle_fiber w) = TERM' then Inr (w\<lparr>w_pc := Exited\<rparr>, s1)
         else worker_swapIn (w_idle_fiber w) InIdle w (s1\<lparr>m_idleThreadCount := m_idleThreadCount s1 + 1\<rparr>))"

text \<open>The code behind the three calls of \<open>swapIn\<close>.\<close>

definition run_return ::
  "(('c, 'z) sched_scheme \<Rightarrow> ('c, 'z) sched_scheme) \<Rightarrow> 'c worker \<Rightarrow> ('c, 'z) sched_scheme \<Rightarrow>
   ('c worker \<times> ('c, 'z) sched_scheme) res" where
  "run_return tickle w s =
     (case w_pc w of
        InFiber \<Rightarrow>
          bindE (deref (ft_fiber (w_ft w)) ''ft.fiber'') (\<lambda>f.
          let s1 = s\<lparr>m_activeThreadCount := m_activeThreadCount s - 1\<rparr>;
              st = state_of (mem s1) f;
              s2 = (if st = READY then schedule tickle (FT_fiber (Some f) (- 1)) s1
                    else if st \<noteq> TERM' \<and> st \<noteq> EXCEPT then s1\<lparr>mem := set_state f HOLD (mem s1)\<rparr>
                    else s1)
          in Inr (w\<lparr>w_ft := FT_reset, w_pc := AtTop\<rparr>, s2))
      | InCb \<Rightarrow>
          bindE (deref (w_cb_fiber w) ''cb_fiber'') (\<lambda>f.
          let s1 = s\<lparr>m_activeThreadCount := m_activeThreadCount s - 1\<rparr>;
              st = state_of (mem s1) f
          in if st = READY then
               Inr (w\<lparr>w_cb_fiber := None, w_pc := AtTop\<rparr>, schedule tickle (FT_fiber (Some f) (- 1)) s1)
             else if st = EXCEPT \<or> st = TERM' then
               bindE (Fiber_reset None f (mem s1)) (\<lambda>m. Inr (w\<lparr>w_pc := AtTop\<rparr>, s1\<lparr>mem := m\<rparr>))
             else Inr (w\<lparr>w_cb_fiber := None, w_pc := AtTop\<rparr>, s1\<lparr>mem := set_state f HOLD (mem s1)\<rparr>))
      | InIdle \<Rightarrow>
          (let s1 = s\<lparr>m_idleThreadCount := m_idleThreadCount s - 1\<rparr>;
               st = state_of (mem s1) (w_idle_fiber w);
               s2 = (if st \<noteq> TERM' \<and> st \<noteq> EXCEPT then s1\<lparr>mem := set_state (w_idle_fiber w) HOLD (mem s1)\<rparr>
                     else s1)
           in Inr (w\<lparr>w_pc := AtTop\<rparr>, s2))
      | _ \<Rightarrow> Inr (w, s))"

text \<open>
  \<^verbatim>\<open>Scheduler::idle\<close>, run by the idle fiber: one turn of its loop, which either yields or, when
  \<open>stopping\<close>, leaves the loop and so ends the fiber.
\<close>

definition Scheduler_idle ::
  "(('c, 'z) sched_scheme \<Rightarrow> bool \<times> ('c, 'z) sched_scheme) \<Rightarrow> 'c worker \<Rightarrow> ('c, 'z) sched_scheme \<Rightarrow>
   ('c worker \<times> ('c, 'z) sched_scheme) res" where
  "Scheduler_idle stopping w s =
     (let (b, s1) = stopping s
      in bindE (if \<not> b then YieldToHold (w_tls w) (mem s1)
                else MainFunc (w_idle_fiber w) Returned (w_tls w) (mem s1)) (\<lambda>(l, m).
         Inr (w\<lparr>w_tls := l\<rparr>, s1\<lparr>mem := m\<rparr>)))"

lemmas sched_defs [op_defs] =
  schedulerNoLock_def schedule_def run_pick_def worker_swapIn_def run_dispatch_def run_return_def
  Scheduler_idle_def

section \<open>The virtual functions\<close>

text \<open>
  What \<open>Scheduler\<close> expects of a class that overrides \<^verbatim>\<open>tickle\<close> and \<^verbatim>\<open>stopping\<close>: neither touches the
  members of the base class, and \<open>stopping\<close> is at least as strict as that of the base class.
\<close>

locale scheduler_virtuals =
  fixes tick :: "('c, 'z) sched_scheme \<Rightarrow> ('c, 'z) sched_scheme"
    and stopping :: "('c, 'z) sched_scheme \<Rightarrow> bool \<times> ('c, 'z) sched_scheme"
  assumes tick_frame: "sched.truncate (tick s) = sched.truncate s"
    and stopping_frame: "sched.truncate (snd (stopping s)) = sched.truncate s"
    and stopping_sound: "fst (stopping s) \<Longrightarrow> Scheduler_stopping s"

lemma truncate_eqD:
  assumes "sched.truncate s = sched.truncate t"
  shows "mem s = mem t" "m_fibers s = m_fibers t" "m_activeThreadCount s = m_activeThreadCount t"
    "m_idleThreadCount s = m_idleThreadCount t" "m_stopping s = m_stopping t"
    "m_autoStop s = m_autoStop t" "m_rootThread s = m_rootThread t"
    "m_threads s = m_threads t" "m_threadIds s = m_threadIds t" "m_threadCount s = m_threadCount t"
    "m_rootFiber s = m_rootFiber t"
  using assms by (simp_all add: sched.truncate_def)

definition base_stopping :: "('c, 'z) sched_scheme \<Rightarrow> bool \<times> ('c, 'z) sched_scheme" where
  "base_stopping s = (Scheduler_stopping s, s)"

interpretation base: scheduler_virtuals Scheduler_tickle base_stopping
  by unfold_locales (simp_all add: Scheduler_tickle_def base_stopping_def)

section \<open>A scheduler with its workers\<close>

text \<open>
  The scheduler and the threads inside \<open>run\<close>. Steps: any thread schedules a task, creates a fiber,
  calls \<open>start\<close> or the assignments of \<open>stop\<close>; a thread enters \<open>run\<close>; a worker goes through its
  loop; the fiber a worker switched to yields or ends. Any other operation of a derived class
  (\<open>y_derived\<close>) can only append tasks and leaves the two counters alone.
\<close>

type_synonym ('c, 'z) sys = "('c, 'z) sched_scheme \<times> 'c worker list"

abbreviation at_scheduler_fiber :: "'c worker \<Rightarrow> bool" where
  "at_scheduler_fiber w \<equiv> t_cpu (w_tls w) = t_scheduler_fiber (w_tls w)"

abbreviation in_switch :: "'c worker \<Rightarrow> bool" where
  "in_switch w \<equiv> w_pc w = InFiber \<or> w_pc w = InCb \<or> w_pc w = InIdle"

inductive sys_step ::
  "(('c, 'z) sched_scheme \<Rightarrow> ('c, 'z) sched_scheme) \<Rightarrow> (('c, 'z) sched_scheme \<Rightarrow> bool \<times> ('c, 'z) sched_scheme) \<Rightarrow>
   ('c, 'z) sys \<Rightarrow> ('c, 'z) sys \<Rightarrow> bool"
  for tick :: "('c, 'z) sched_scheme \<Rightarrow> ('c, 'z) sched_scheme"
    and stopping :: "('c, 'z) sched_scheme \<Rightarrow> bool \<times> ('c, 'z) sched_scheme" where
  y_schedule: "sys_step tick stopping (s, ws) (schedule tick ft s, ws)"
| y_new_Fiber: "new_Fiber dflt cb stacksize use_caller (mem s) = (p, m') \<Longrightarrow>
     sys_step tick stopping (s, ws) (s\<lparr>mem := m'\<rparr>, ws)"
| y_start: "start ids s = Inr s' \<Longrightarrow> sys_step tick stopping (s, ws) (s', ws)"
| y_autoStop: "sys_step tick stopping (s, ws) (s\<lparr>m_autoStop := True\<rparr>, ws)"
| y_stopping: "sys_step tick stopping (s, ws) (s\<lparr>m_stopping := True\<rparr>, ws)"
| y_derived: "m_fibers s' = m_fibers s @ q \<Longrightarrow> \<forall>ft \<in> set q. ft_fiber ft \<noteq> None \<or> ft_cb ft \<noteq> None \<Longrightarrow>
     m_activeThreadCount s' = m_activeThreadCount s \<Longrightarrow> m_idleThreadCount s' = m_idleThreadCount s \<Longrightarrow>
     sys_step tick stopping (s, ws) (s', ws)"
| y_enter: "run_enter dflt idle this tid l s = (w, s') \<Longrightarrow> Suc (length ws) < 2 ^ 64 \<Longrightarrow>
     sys_step tick stopping (s, ws) (s', ws @ [w])"
| y_pick: "i < length ws \<Longrightarrow> w_pc (ws ! i) = AtTop \<Longrightarrow> run_pick (ws ! i) s = Inr (w', s') \<Longrightarrow>
     sys_step tick stopping (s, ws) (s', ws[i := w'])"
| y_dispatch: "i < length ws \<Longrightarrow> w_pc (ws ! i) = Picked \<Longrightarrow> run_dispatch dflt tick (ws ! i) s = Inr (w', s') \<Longrightarrow>
     sys_step tick stopping (s, ws) (s', ws[i := w'])"
| y_fiber: "i < length ws \<Longrightarrow> in_switch (ws ! i) \<Longrightarrow> \<not> at_scheduler_fiber (ws ! i) \<Longrightarrow>
     YieldToReady (w_tls (ws ! i)) (mem s) = Inr (l', m') \<or> YieldToHold (w_tls (ws ! i)) (mem s) = Inr (l', m') \<or>
     t_cpu (w_tls (ws ! i)) = Some c \<and> MainFunc c out (w_tls (ws ! i)) (mem s) = Inr (l', m') \<Longrightarrow>
     sys_step tick stopping (s, ws) (s\<lparr>mem := m'\<rparr>, ws[i := (ws ! i)\<lparr>w_tls := l'\<rparr>])"
| y_idle: "i < length ws \<Longrightarrow> w_pc (ws ! i) = InIdle \<Longrightarrow> \<not> at_scheduler_fiber (ws ! i) \<Longrightarrow>
     Scheduler_idle stopping (ws ! i) s = Inr (w', s') \<Longrightarrow>
     sys_step tick stopping (s, ws) (s', ws[i := w'])"
| y_return: "i < length ws \<Longrightarrow> in_switch (ws ! i) \<Longrightarrow> at_scheduler_fiber (ws ! i) \<Longrightarrow>
     run_return tick (ws ! i) s = Inr (w', s') \<Longrightarrow>
     sys_step tick stopping (s, ws) (s', ws[i := w'])"

definition sys_init :: "('c, 'z) sys \<Rightarrow> bool" where
  "sys_init c \<longleftrightarrow> snd c = [] \<and> m_fibers (fst c) = [] \<and> m_activeThreadCount (fst c) = 0 \<and> m_idleThreadCount (fst c) = 0"

text \<open>A worker that holds a task: from the pick to the decrement of \<open>m_activeThreadCount\<close>.\<close>

definition w_busy :: "'c worker \<Rightarrow> bool" where
  "w_busy w \<longleftrightarrow> w_pc w = InFiber \<or> w_pc w = InCb \<or> w_pc w = Picked \<and> w_is_active w"

definition w_in_idle :: "'c worker \<Rightarrow> bool" where
  "w_in_idle w \<longleftrightarrow> w_pc w = InIdle"

definition task_ok :: "'c task \<Rightarrow> bool" where
  "task_ok ft \<longleftrightarrow> ft_fiber ft \<noteq> None \<or> ft_cb ft \<noteq> None"

definition worker_ok :: "'c worker \<Rightarrow> bool" where
  "worker_ok w \<longleftrightarrow>
     (w_pc w = Picked \<longrightarrow> (if w_is_active w then task_ok (w_ft w) else w_ft w = FT_reset)) \<and>
     (w_pc w = InFiber \<longrightarrow> ft_fiber (w_ft w) \<noteq> None) \<and>
     (w_pc w = InCb \<longrightarrow> w_cb_fiber w \<noteq> None)"

definition sched_ok :: "('c, 'z) sched_scheme \<Rightarrow> nat \<Rightarrow> nat \<Rightarrow> bool" where
  "sched_ok s active idle \<longleftrightarrow> m_activeThreadCount s = of_nat active \<and> m_idleThreadCount s = of_nat idle \<and>
     (\<forall>ft \<in> set (m_fibers s). task_ok ft)"

fun sys_inv :: "('c, 'z) sys \<Rightarrow> bool" where
  "sys_inv (s, ws) \<longleftrightarrow>
     sched_ok s (length (filter w_busy ws)) (length (filter w_in_idle ws)) \<and>
     (\<forall>w \<in> set ws. worker_ok w) \<and> length ws < 2 ^ 64"

text \<open>The bookkeeping of one worker's step: both counters change with the worker.\<close>

definition balanced :: "'c worker \<Rightarrow> 'c worker \<Rightarrow> ('c, 'z) sched_scheme \<Rightarrow> ('c, 'z) sched_scheme \<Rightarrow> bool" where
  "balanced w w' s s' \<longleftrightarrow>
     m_activeThreadCount s' + of_bool (w_busy w) = m_activeThreadCount s + of_bool (w_busy w') \<and>
     m_idleThreadCount s' + of_bool (w_in_idle w) = m_idleThreadCount s + of_bool (w_in_idle w') \<and>
     ((\<forall>ft \<in> set (m_fibers s). task_ok ft) \<longrightarrow> (\<forall>ft \<in> set (m_fibers s'). task_ok ft)) \<and>
     worker_ok w'"

lemma of_nat_filter_update:
  assumes "i < length ws"
  shows "of_nat (length (filter P (ws[i := w]))) + of_bool (P (ws ! i)) =
         of_nat (length (filter P ws)) + (of_bool (P w) :: 'n :: ring_1)"
proof -
  have "of_nat (length (filter P (ws[i := w])) + of_bool (P (ws ! i))) =
        (of_nat (length (filter P ws) + of_bool (P w)) :: 'n)"
    using length_filter_update [OF assms, of P w] by (simp add: of_bool_def)
  then show ?thesis by simp
qed

lemma sys_inv_update:
  assumes "sys_inv (s, ws)" and "i < length ws" and "balanced (ws ! i) w' s s'"
  shows "sys_inv (s', ws[i := w'])"
proof -
  have "m_activeThreadCount s' + of_bool (w_busy (ws ! i)) =
        of_nat (length (filter w_busy (ws[i := w']))) + of_bool (w_busy (ws ! i))"
    using assms by (simp add: of_nat_filter_update balanced_def sched_ok_def)
  moreover have "m_idleThreadCount s' + of_bool (w_in_idle (ws ! i)) =
        of_nat (length (filter w_in_idle (ws[i := w']))) + of_bool (w_in_idle (ws ! i))"
    using assms by (simp add: of_nat_filter_update balanced_def sched_ok_def)
  moreover have "\<forall>w \<in> set (ws[i := w']). worker_ok w"
    using assms set_update_subset_insert [of ws i w'] by (auto simp: balanced_def)
  ultimately show ?thesis using assms by (simp add: balanced_def sched_ok_def)
qed

context scheduler_virtuals
begin

lemmas tick_fields [simp] = truncate_eqD [OF tick_frame]
lemmas stopping_fields [simp] = truncate_eqD [OF stopping_frame]

lemma schedule_fields:
  "m_fibers (schedule tick ft s) = (if task_ok ft then m_fibers s @ [ft] else m_fibers s)"
  "mem (schedule tick ft s) = mem s"
  "m_activeThreadCount (schedule tick ft s) = m_activeThreadCount s"
  "m_idleThreadCount (schedule tick ft s) = m_idleThreadCount s"
  by (simp_all add: schedule_def schedulerNoLock_def Let_def task_ok_def)

end

lemma FT_reset_null [simp]: "ft_fiber FT_reset = None" "ft_cb FT_reset = None"
  by (simp_all add: FT_reset_def)

lemma FT_fiber_ok: "task_ok (FT_fiber (Some f) tid)"
  by (simp add: FT_fiber_def task_ok_def)

lemma run_scan_ok:
  assumes "\<forall>ft \<in> set skipped \<union> set q. task_ok ft"
  shows "\<exists>t r b. run_scan tid st skipped q flag = Inr (t, r, b) \<and> (\<forall>ft \<in> set r. task_ok ft) \<and>
    (\<forall>ft. t = Some ft \<longrightarrow> task_ok ft)"
  using assms
  by (induction tid st skipped q flag rule: run_scan.induct) (auto simp: task_ok_def)

lemma run_pick_balanced:
  assumes "\<forall>ft \<in> set (m_fibers s). task_ok ft" and "w_pc w = AtTop"
  shows "\<exists>w' s'. run_pick w s = Inr (w', s') \<and> balanced w w' s s'"
proof -
  obtain t r b where "run_scan (w_tid w) (state_of (mem s)) [] (m_fibers s) False = Inr (t, r, b)"
    "\<forall>ft \<in> set r. task_ok ft" "\<forall>ft. t = Some ft \<longrightarrow> task_ok ft"
    using run_scan_ok [of "[]" "m_fibers s" "w_tid w" "state_of (mem s)" False] assms(1) by auto
  then show ?thesis using assms(2)
    by (cases t) (simp_all add: run_pick_def balanced_def w_busy_def w_in_idle_def worker_ok_def)
qed

lemma worker_swapIn_Inr:
  "worker_swapIn f at w s = Inr (w', s') \<longleftrightarrow>
     (\<exists>l m. swapIn f (w_tls w) (mem s) = Inr (l, m) \<and> w' = w\<lparr>w_tls := l, w_pc := at\<rparr> \<and> s' = s\<lparr>mem := m\<rparr>)"
  by (auto simp: worker_swapIn_def bindE_eq_Inr)

context scheduler_virtuals
begin

lemma run_dispatch_balanced:
  assumes "run_dispatch dflt tick w s = Inr (w', s')" and "w_pc w = Picked" and "worker_ok w"
  shows "balanced w w' s s'"
  using assms
  by (auto simp: run_dispatch_def Let_def worker_swapIn_Inr balanced_def w_busy_def w_in_idle_def
      worker_ok_def task_ok_def bindE_eq_Inr split: if_splits option.splits)

lemma run_return_pc:
  assumes "run_return tick w s = Inr (w', s')" and "in_switch w"
  shows "w_pc w' = AtTop"
  using assms
  by (auto simp: run_return_def Let_def bindE_eq_Inr deref_eq_Inr split: if_splits)

lemma run_return_counters:
  assumes "run_return tick w s = Inr (w', s')" and "in_switch w"
  shows "m_activeThreadCount s' = m_activeThreadCount s - of_bool (w_pc w \<noteq> InIdle)"
    "m_idleThreadCount s' = m_idleThreadCount s - of_bool (w_pc w = InIdle)"
    "\<exists>q. m_fibers s' = m_fibers s @ q \<and> (\<forall>ft \<in> set q. task_ok ft)"
  using assms
  by (auto simp: run_return_def Let_def bindE_eq_Inr deref_eq_Inr schedule_fields FT_fiber_ok
      split: if_splits)

lemma run_return_balanced:
  assumes "run_return tick w s = Inr (w', s')" and "in_switch w"
  shows "balanced w w' s s'"
  using run_return_pc [OF assms] run_return_counters [OF assms] assms(2)
  by (auto simp: balanced_def w_busy_def w_in_idle_def worker_ok_def)

lemma Scheduler_idle_balanced:
  assumes "Scheduler_idle stopping w s = Inr (w', s')" and "w_pc w = InIdle"
  shows "balanced w w' s s'"
proof -
  obtain b s1 where b: "stopping s = (b, s1)" by fastforce
  with stopping_fields [of s] have "m_fibers s1 = m_fibers s"
    "m_activeThreadCount s1 = m_activeThreadCount s" "m_idleThreadCount s1 = m_idleThreadCount s"
    by simp_all
  then show ?thesis using assms b
    by (auto simp: Scheduler_idle_def balanced_def w_busy_def w_in_idle_def worker_ok_def bindE_eq_Inr)
qed

lemma sys_inv_step:
  assumes step: "sys_step tick stopping c c'" and inv: "sys_inv c"
  shows "sys_inv c'"
  using step
proof (cases rule: sys_step.cases)
  case (y_pick i ws s w' s')
  have "\<forall>ft \<in> set (m_fibers s). task_ok ft" using inv y_pick by (simp add: sched_ok_def)
  then have "balanced (ws ! i) w' s s'" using y_pick run_pick_balanced [of s "ws ! i"] by auto
  then show ?thesis using sys_inv_update [of s ws i w' s'] inv y_pick by simp
next
  case (y_dispatch i ws dflt s w' s')
  then have "worker_ok (ws ! i)" using inv by simp
  with y_dispatch have "balanced (ws ! i) w' s s'" by (blast intro: run_dispatch_balanced)
  then show ?thesis using sys_inv_update [of s ws i w' s'] inv y_dispatch by simp
next
  case (y_fiber i ws s l' m' c out)
  then have "balanced (ws ! i) ((ws ! i)\<lparr>w_tls := l'\<rparr>) s (s\<lparr>mem := m'\<rparr>)"
    using inv by (auto simp: balanced_def w_busy_def w_in_idle_def worker_ok_def)
  then show ?thesis using sys_inv_update [of s ws i] inv y_fiber by simp
next
  case (y_idle i ws s w' s')
  then have "balanced (ws ! i) w' s s'" by (blast intro: Scheduler_idle_balanced)
  then show ?thesis using sys_inv_update [of s ws i w' s'] inv y_idle by simp
next
  case (y_return i ws s w' s')
  then have "balanced (ws ! i) w' s s'" by (blast intro: run_return_balanced)
  then show ?thesis using sys_inv_update [of s ws i w' s'] inv y_return by simp
next
  case (y_enter dflt idle this tid l s w s' ws)
  then have "w_pc w = AtTop" "m_fibers s' = m_fibers s" "m_activeThreadCount s' = m_activeThreadCount s"
    "m_idleThreadCount s' = m_idleThreadCount s"
    by (auto simp: run_enter_def Let_def split: prod.splits if_splits)
  then show ?thesis using y_enter inv
    by (auto simp: sched_ok_def w_busy_def w_in_idle_def worker_ok_def)
next
  case (y_start ids s s' ws)
  then show ?thesis using inv
    by (auto simp: start_def sched_ok_def Let_def bindE_eq_Inr split: if_splits)
qed (use inv in \<open>auto simp: sched_ok_def schedule_fields task_ok_def\<close>)

end

sublocale scheduler_virtuals \<subseteq> system: inductive_invariant sys_init "sys_step tick stopping" sys_inv
proof unfold_locales
  show "sys_init s \<Longrightarrow> sys_inv s" for s :: "('c, 'z) sys"
    by (cases s) (simp add: sys_init_def sched_ok_def)
  show "sys_inv s \<Longrightarrow> sys_step tick stopping s t \<Longrightarrow> sys_inv t" for s t :: "('c, 'z) sys"
    by (rule sys_inv_step)
qed

section \<open>What the search takes\<close>

text \<open>A task the thread may take now: not bound to another thread, and its fiber not running.\<close>

definition other_thread :: "thread_id \<Rightarrow> 'c task \<Rightarrow> bool" where
  "other_thread tid ft \<longleftrightarrow> ft_thread ft \<noteq> - 1 \<and> ft_thread ft \<noteq> tid"

definition eligible :: "thread_id \<Rightarrow> (fiber_ptr \<Rightarrow> State) \<Rightarrow> 'c task \<Rightarrow> bool" where
  "eligible tid st ft \<longleftrightarrow> \<not> other_thread tid ft \<and> (\<forall>f. ft_fiber ft = Some f \<longrightarrow> st f \<noteq> EXEC)"

lemma run_scan_none:
  assumes "\<forall>ft \<in> set q. task_ok ft \<and> \<not> eligible tid st ft"
  shows "run_scan tid st skipped q flag = Inr (None, skipped @ q, flag \<or> (\<exists>ft \<in> set q. other_thread tid ft))"
  using assms
  by (induction tid st skipped q flag rule: run_scan.induct)
     (auto simp: task_ok_def eligible_def other_thread_def)

lemma run_scan_some:
  assumes "\<forall>ft \<in> set pre. task_ok ft \<and> \<not> eligible tid st ft" and "task_ok ft" and "eligible tid st ft"
  shows "run_scan tid st skipped (pre @ ft # post) flag =
    Inr (Some ft, skipped @ pre @ post, flag \<or> (\<exists>ft \<in> set pre. other_thread tid ft) \<or> post \<noteq> [])"
  using assms
proof (induction pre arbitrary: skipped flag)
  case Nil
  then show ?case by (auto simp: eligible_def other_thread_def task_ok_def split: option.splits)
next
  case (Cons t pre)
  then show ?case by (auto simp: eligible_def other_thread_def task_ok_def split: option.splits)
qed

section \<open>Properties\<close>

text \<open>
  C2. The counters and \<open>stopping\<close>: in every state a scheduler and its workers can reach,
  \<open>m_activeThreadCount\<close> is the number of workers that hold a task and \<open>m_idleThreadCount\<close> the number
  inside the idle fiber (neither ever wraps), the assertion of the search under the lock holds for
  every worker, and when \<open>stopping\<close> answers true no task is queued and no worker holds one.
\<close>

theorem scheduler_accounting:
  assumes "reachable sys_init (sys_step Scheduler_tickle base_stopping) (s, ws)"
  shows "unat (m_activeThreadCount s) = length (filter w_busy ws) \<and>
    unat (m_idleThreadCount s) = length (filter w_in_idle ws) \<and>
    (\<forall>w \<in> set ws. w_pc w = AtTop \<longrightarrow> (\<exists>r. run_pick w s = Inr r)) \<and>
    (Scheduler_stopping s \<longrightarrow> m_fibers s = [] \<and> (\<forall>w \<in> set ws. \<not> w_busy w))"
proof -
  have inv: "sys_inv (s, ws)" using assms by (rule base.system.reachable_inv)
  have bound: "length (filter P ws) < 2 ^ LENGTH(64)" for P
    using inv le_less_trans [OF length_filter_le [of P ws]] by simp
  have active: "unat (m_activeThreadCount s) = length (filter w_busy ws)"
    and idle: "unat (m_idleThreadCount s) = length (filter w_in_idle ws)"
    using inv bound by (simp_all add: sched_ok_def unat_of_nat)
  have pick: "\<exists>r. run_pick w s = Inr r" if "w \<in> set ws" "w_pc w = AtTop" for w
    using run_pick_balanced [OF _ that(2)] inv by (fastforce simp: sched_ok_def)
  have "m_fibers s = [] \<and> (\<forall>w \<in> set ws. \<not> w_busy w)" if "Scheduler_stopping s"
    using that active by (auto simp: Scheduler_stopping_def filter_empty_conv)
  with active idle pick show ?thesis by blast
qed

definition demo_sched :: "nat sched" where
  "demo_sched = \<lparr>mem = demo_mem, m_threads = [], m_fibers = [FT_cb (Some 3) (- 1)], m_rootFiber = None, m_name = ''demo'',
     m_threadIds = [], m_threadCount = 1, m_activeThreadCount = 0, m_idleThreadCount = 0,
     m_stopping = True, m_autoStop = False, m_rootThread = - 1\<rparr>"

lemma demo_sched_reachable: "reachable sys_init (sys_step Scheduler_tickle base_stopping) (demo_sched, [])"
proof -
  have "reachable sys_init (sys_step Scheduler_tickle base_stopping) (demo_sched\<lparr>m_fibers := []\<rparr>, [])"
    by (rule reachable_init) (simp add: sys_init_def demo_sched_def)
  moreover have "sys_step Scheduler_tickle base_stopping (demo_sched\<lparr>m_fibers := []\<rparr>, []) (demo_sched, [])"
    using y_schedule [of Scheduler_tickle base_stopping "demo_sched\<lparr>m_fibers := []\<rparr>" "[]" "FT_cb (Some 3) (- 1)"]
    by (simp add: schedule_def schedulerNoLock_def Scheduler_tickle_def demo_sched_def FT_cb_def)
  ultimately show ?thesis by (rule reachable_step)
qed

theorem scheduler_accounting_witness:
  "unat (m_activeThreadCount demo_sched) = 0 \<and> \<not> Scheduler_stopping demo_sched"
  using scheduler_accounting [OF demo_sched_reachable] by (auto simp: demo_sched_def)


definition demo_worker :: "nat worker" where
  "demo_worker = \<lparr>w_tid = 12, w_tls = demo_tls\<lparr>t_fiber := Some 0, t_cpu := Some 0\<rparr>, w_idle_fiber = 1,
     w_cb_fiber = None, w_ft = FT_reset, w_tickle_me = False, w_is_active = False, w_pc = AtTop\<rparr>"


text \<open>A worker at the top of its loop, on a thread whose scheduling fiber is \<open>m\<close>.\<close>

definition worker_at_top :: "'c worker \<Rightarrow> fiber_ptr \<Rightarrow> bool" where
  "worker_at_top w m \<longleftrightarrow> w_pc w = AtTop \<and> t_scheduler_fiber (w_tls w) = Some m"

text \<open>A fiber that can be resumed.\<close>

definition resumable :: "'c fiber_mem \<Rightarrow> fiber_ptr \<Rightarrow> bool" where
  "resumable mm f \<longleftrightarrow> state_of mm f \<noteq> EXEC \<and> state_of mm f \<noteq> TERM' \<and> state_of mm f \<noteq> EXCEPT \<and>
     m_ctx (fibers mm f) \<noteq> AtEnd"

lemma run_pick_fiber:
  assumes "worker_at_top w m" and "resumable (mem s) f"
    and "m_fibers s = FT_fiber (Some f) tid # q" and "tid = - 1 \<or> tid = w_tid w"
  shows "run_pick w s = Inr (w\<lparr>w_ft := FT_fiber (Some f) tid, w_tickle_me := (q \<noteq> []),
      w_is_active := True, w_pc := Picked\<rparr>,
    s\<lparr>m_fibers := q, m_activeThreadCount := m_activeThreadCount s + 1\<rparr>)"
  using assms by (auto simp: run_pick_def FT_fiber_def resumable_def)

lemma swapIn_resumable:
  assumes "resumable mm f" and "t_scheduler_fiber l = Some m"
  shows "swapIn f l mm = Inr (l\<lparr>t_fiber := Some f, t_cpu := Some f\<rparr>,
    set_fiber m (\<lambda>f. f\<lparr>m_ctx := Saved\<rparr>) (set_state f EXEC mm))"
  using assms by (simp add: swapIn_Inr resumable_def)

text \<open>
  C12. One turn of a fiber: a worker that finds a resumable fiber at the head of the queue takes it
  and switches to it, and the fiber is then \<open>EXEC\<close> and current on the worker's thread. When it gives up
  the processor by \<open>YieldToReady\<close>, the worker puts it back at the end of the queue in state \<open>READY\<close>,
  bound to no thread any more; after \<open>YieldToHold\<close> it is in state \<open>HOLD\<close> and in no queue. Either way
  the active count is as before the turn.
\<close>

theorem fiber_turn:
  assumes "worker_at_top w m" and "m \<noteq> f" and "resumable (mem s) f"
    and "m_fibers s = FT_fiber (Some f) tid # q" and "tid = - 1 \<or> tid = w_tid w"
  shows "\<exists>w1 s1 w2 s2. run_pick w s = Inr (w1, s1) \<and> run_dispatch dflt Scheduler_tickle w1 s1 = Inr (w2, s2) \<and>
      w_pc w2 = InFiber \<and> t_fiber (w_tls w2) = Some f \<and> state_of (mem s2) f = EXEC \<and> m_fibers s2 = q \<and>
      (\<exists>l3 m3 w4 s4. YieldToReady (w_tls w2) (mem s2) = Inr (l3, m3) \<and>
         run_return Scheduler_tickle (w2\<lparr>w_tls := l3\<rparr>) (s2\<lparr>mem := m3\<rparr>) = Inr (w4, s4) \<and>
         w_pc w4 = AtTop \<and> m_fibers s4 = q @ [FT_fiber (Some f) (- 1)] \<and>
         state_of (mem s4) f = READY \<and> m_activeThreadCount s4 = m_activeThreadCount s) \<and>
      (\<exists>l3 m3 w4 s4. YieldToHold (w_tls w2) (mem s2) = Inr (l3, m3) \<and>
         run_return Scheduler_tickle (w2\<lparr>w_tls := l3\<rparr>) (s2\<lparr>mem := m3\<rparr>) = Inr (w4, s4) \<and>
         w_pc w4 = AtTop \<and> m_fibers s4 = q \<and>
         state_of (mem s4) f = HOLD \<and> m_activeThreadCount s4 = m_activeThreadCount s)"
proof -
  have st: "state_of (mem s) f \<noteq> TERM'" "state_of (mem s) f \<noteq> EXCEPT" "f \<noteq> m"
    using assms(2,3) by (auto simp: resumable_def)
  have tls: "t_scheduler_fiber (w_tls w) = Some m" using assms(1) by (simp add: worker_at_top_def)
  let ?w1 = "w\<lparr>w_ft := FT_fiber (Some f) tid, w_tickle_me := (q \<noteq> []), w_is_active := True, w_pc := Picked\<rparr>"
  let ?s1 = "s\<lparr>m_fibers := q, m_activeThreadCount := m_activeThreadCount s + 1\<rparr>"
  let ?m2 = "set_fiber m (\<lambda>f. f\<lparr>m_ctx := Saved\<rparr>) (set_state f EXEC (mem s))"
  let ?w2 = "?w1\<lparr>w_tls := (w_tls w)\<lparr>t_fiber := Some f, t_cpu := Some f\<rparr>, w_pc := InFiber\<rparr>"
  have disp: "run_dispatch dflt Scheduler_tickle ?w1 ?s1 = Inr (?w2, ?s1\<lparr>mem := ?m2\<rparr>)"
    using swapIn_resumable [OF assms(3) tls] st
    by (simp add: run_dispatch_def FT_fiber_def Scheduler_tickle_def worker_swapIn_def)
  show ?thesis
    apply (rule exI [of _ ?w1], rule exI [of _ ?s1], rule exI [of _ ?w2], rule exI [of _ "?s1\<lparr>mem := ?m2\<rparr>"])
    using run_pick_fiber [OF assms(1,3,4,5)] disp st tls
    by (simp add: YieldToReady_def YieldToHold_def GetThis_def swapOut_def swapcontext_def SetThis_def
        run_return_def FT_fiber_def schedule_def schedulerNoLock_def Scheduler_tickle_def Let_def)
qed

theorem fiber_turn_witness:
  "\<exists>w1 s1 w2 s2. run_pick demo_worker (demo_sched\<lparr>mem := set_state 1 INIT demo_mem, m_fibers := [FT_fiber (Some 1) 12]\<rparr>) = Inr (w1, s1) \<and>
     run_dispatch 131072 Scheduler_tickle w1 s1 = Inr (w2, s2) \<and> state_of (mem s2) 1 = EXEC"
  using fiber_turn [of demo_worker 0 1 "demo_sched\<lparr>mem := set_state 1 INIT demo_mem, m_fibers := [FT_fiber (Some 1) 12]\<rparr>" 12 "[]" 131072]
  by (auto simp: worker_at_top_def resumable_def demo_worker_def demo_tls_def demo_mem_def demo_fiber_def demo_sched_def)

text \<open>
  A fiber must not be queued twice: the search skips a running fiber, but the state changes to
  \<open>EXEC\<close> only in \<open>swapIn\<close>, outside the lock. When a resumable fiber stands twice in the queue, two
  workers can both take it, and the second one that switches to it aborts the process at the
  assertion of \<open>swapIn\<close>.
\<close>

theorem double_schedule_aborts:
  assumes "worker_at_top w m" and "worker_at_top w' m'" and "m \<noteq> f" and "m' \<noteq> f"
    and "resumable (mem s) f" and "m_fibers s = FT_fiber (Some f) (- 1) # FT_fiber (Some f) (- 1) # q"
  shows "\<exists>w1 s1 w2 s2 w3 s3. run_pick w s = Inr (w1, s1) \<and> run_pick w' s1 = Inr (w2, s2) \<and>
     run_dispatch dflt Scheduler_tickle w1 s2 = Inr (w3, s3) \<and>
     run_dispatch dflt Scheduler_tickle w2 s3 = Inl (AssertFail ''m_state != EXEC'')"
proof -
  let ?ft = "FT_fiber (Some f) (- 1) :: 'a task"
  let ?w1 = "w\<lparr>w_ft := ?ft, w_tickle_me := True, w_is_active := True, w_pc := Picked\<rparr>"
  let ?s1 = "s\<lparr>m_fibers := ?ft # q, m_activeThreadCount := m_activeThreadCount s + 1\<rparr>"
  let ?w2 = "w'\<lparr>w_ft := ?ft, w_tickle_me := (q \<noteq> []), w_is_active := True, w_pc := Picked\<rparr>"
  let ?s2 = "?s1\<lparr>m_fibers := q, m_activeThreadCount := m_activeThreadCount s + 1 + 1\<rparr>"
  have p1: "run_pick w s = Inr (?w1, ?s1)"
    using run_pick_fiber [OF assms(1,5,6)] by simp
  have p2: "run_pick w' ?s1 = Inr (?w2, ?s2)"
    using run_pick_fiber [OF assms(2), of ?s1 f "- 1" q] assms(5) by simp
  have tls: "t_scheduler_fiber (w_tls w) = Some m" using assms(1) by (simp add: worker_at_top_def)
  have st: "state_of (mem s) f \<noteq> TERM'" "state_of (mem s) f \<noteq> EXCEPT"
    using assms(5) by (auto simp: resumable_def)
  let ?m3 = "set_fiber m (\<lambda>f. f\<lparr>m_ctx := Saved\<rparr>) (set_state f EXEC (mem s))"
  let ?w3 = "?w1\<lparr>w_tls := (w_tls w)\<lparr>t_fiber := Some f, t_cpu := Some f\<rparr>, w_pc := InFiber\<rparr>"
  have d1: "run_dispatch dflt Scheduler_tickle ?w1 ?s2 = Inr (?w3, ?s2\<lparr>mem := ?m3\<rparr>)"
    using swapIn_resumable [OF assms(5) tls] st
    by (simp add: run_dispatch_def FT_fiber_def Scheduler_tickle_def worker_swapIn_def)
  have d2: "run_dispatch dflt Scheduler_tickle ?w2 (?s2\<lparr>mem := ?m3\<rparr>) = Inl (AssertFail ''m_state != EXEC'')"
    using assms(3) by (simp add: run_dispatch_def FT_fiber_def Scheduler_tickle_def worker_swapIn_def swapIn_def)
  show ?thesis using p1 p2 d1 d2 by blast
qed

theorem double_schedule_aborts_witness:
  "\<exists>w1 s1 w2 s2 w3 s3.
     run_pick demo_worker (demo_sched\<lparr>mem := set_state 1 INIT demo_mem,
       m_fibers := [FT_fiber (Some 1) (- 1), FT_fiber (Some 1) (- 1)]\<rparr>) = Inr (w1, s1) \<and>
     run_pick (demo_worker\<lparr>w_tid := 13, w_tls := demo_tls\<lparr>t_scheduler_fiber := Some 2\<rparr>\<rparr>) s1 = Inr (w2, s2) \<and>
     run_dispatch 0 Scheduler_tickle w1 s2 = Inr (w3, s3) \<and>
     run_dispatch 0 Scheduler_tickle w2 s3 = Inl (AssertFail ''m_state != EXEC'')"
  by (rule double_schedule_aborts [where m = 0 and m' = 2 and f = 1 and q = "[]"])
     (simp_all add: worker_at_top_def resumable_def demo_worker_def demo_tls_def demo_mem_def demo_fiber_def demo_sched_def)

text \<open>
  A stopped scheduler lets its workers go: when \<open>stopping\<close> holds, a worker inside its idle fiber
  leaves \<open>run\<close>: the idle function returns, the idle fiber ends in \<open>TERM\<close>, the worker comes back,
  finds no task and breaks out of the loop, with the idle count decremented.
\<close>

theorem stopping_worker_exits:
  assumes "Scheduler_stopping s" and "w_pc w = InIdle" and "w_idle_fiber w = i"
    and "t_scheduler_fiber (w_tls w) = Some m" and "m \<noteq> i" and "m_ctx (fibers (mem s) m) \<noteq> AtEnd"
    and "m_fiber_cb (fibers (mem s) i) \<noteq> None"
  shows "\<exists>w1 s1 w2 s2 w3 s3 w4 s4. Scheduler_idle base_stopping w s = Inr (w1, s1) \<and>
     at_scheduler_fiber w1 \<and> state_of (mem s1) i = TERM' \<and>
     run_return Scheduler_tickle w1 s1 = Inr (w2, s2) \<and> run_pick w2 s2 = Inr (w3, s3) \<and>
     run_dispatch dflt Scheduler_tickle w3 s3 = Inr (w4, s4) \<and> w_pc w4 = Exited \<and>
     m_idleThreadCount s4 = m_idleThreadCount s - 1 \<and> Scheduler_stopping s4"
proof -
  let ?m1 = "set_fiber i (\<lambda>f. f\<lparr>m_ctx := AtEnd\<rparr>)
    (set_fiber i (\<lambda>f. f\<lparr>m_ctx := Saved\<rparr>) (set_fiber i (finish_cb Returned) (mem s)))"
  let ?l1 = "(w_tls w)\<lparr>t_fiber := Some m, t_cpu := Some m\<rparr>"
  have fin: "state_of ?m1 i = TERM'" using assms(7) by (simp add: finish_cb_def)
  have idle: "Scheduler_idle base_stopping w s = Inr (w\<lparr>w_tls := ?l1\<rparr>, s\<lparr>mem := ?m1\<rparr>)"
    using assms(1,3,4,5,6)
    by (simp add: Scheduler_idle_def base_stopping_def MainFunc_def swapOut_def swapcontext_def SetThis_def)
  let ?s2 = "s\<lparr>mem := ?m1, m_idleThreadCount := m_idleThreadCount s - 1\<rparr>"
  have ret: "run_return Scheduler_tickle (w\<lparr>w_tls := ?l1\<rparr>) (s\<lparr>mem := ?m1\<rparr>) =
      Inr (w\<lparr>w_tls := ?l1, w_pc := AtTop\<rparr>, ?s2)"
    using assms(2,3) fin by (simp add: run_return_def)
  let ?w3 = "w\<lparr>w_tls := ?l1, w_ft := FT_reset, w_tickle_me := False, w_is_active := False, w_pc := Picked\<rparr>"
  have q: "m_fibers s = []" using assms(1) by (simp add: Scheduler_stopping_def)
  then have pick: "run_pick (w\<lparr>w_tls := ?l1, w_pc := AtTop\<rparr>) ?s2 = Inr (?w3, ?s2\<lparr>m_fibers := []\<rparr>)"
    by (simp add: run_pick_def)
  have disp: "run_dispatch dflt Scheduler_tickle ?w3 (?s2\<lparr>m_fibers := []\<rparr>) =
      Inr (?w3\<lparr>w_pc := Exited\<rparr>, ?s2\<lparr>m_fibers := []\<rparr>)"
    using assms(3) fin by (simp add: run_dispatch_def)
  have "Scheduler_stopping (?s2\<lparr>m_fibers := []\<rparr>)"
    using assms(1) by (simp add: Scheduler_stopping_def)
  then show ?thesis
    using fin assms(4) idle ret pick disp
    by (intro exI conjI) (rule idle, simp, simp, rule ret, rule pick, rule disp, simp_all)
qed

theorem stopping_worker_exits_witness:
  "\<exists>w1 s1. Scheduler_idle base_stopping (demo_worker\<lparr>w_pc := InIdle\<rparr>)
       (demo_sched\<lparr>m_fibers := [], m_autoStop := True, m_idleThreadCount := 1\<rparr>) = Inr (w1, s1) \<and>
     state_of (mem s1) 1 = TERM'"
  using stopping_worker_exits [of "demo_sched\<lparr>m_fibers := [], m_autoStop := True, m_idleThreadCount := 1\<rparr>"
      "demo_worker\<lparr>w_pc := InIdle\<rparr>" 1 0 0]
  by (auto simp: Scheduler_stopping_def demo_worker_def demo_tls_def demo_mem_def demo_fiber_def demo_sched_def demo_main_def)

lemma GetThis_fields:
  "GetThis l mm = (f, l', mm') \<Longrightarrow> t_scheduler l' = t_scheduler l \<and> t_fiber l' = Some f"
  by (auto simp: GetThis_def new_Fiber_main_def SetThis_def Let_def split: option.splits)

lemma new_Scheduler_ok:
  assumes "0 < threads" and "t_scheduler l = None"
  shows "\<exists>l1 s1. new_Scheduler dflt threads uc name this run tid l mm = Inr (l1, s1) \<and>
    m_stopping s1 \<and> m_threads s1 = [] \<and> m_threadIds s1 = (if uc then [tid] else []) \<and>
    m_threadCount s1 + (if uc then 1 else 0) = threads \<and>
    (uc \<longrightarrow> t_scheduler l1 = Some this \<and> t_scheduler_fiber l1 = m_rootFiber s1 \<and>
       new_Scheduler dflt threads uc name this' run tid l1 (mem s1) = Inl (AssertFail ''GetThis() == nullptr''))"
proof -
  obtain f l0 m0 where g: "GetThis l mm = (f, l0, m0)" by (rule prod_cases3)
  obtain r m2 where r: "new_Fiber dflt (Some run) 0 True m0 = (r, m2)" by fastforce
  have l0: "t_scheduler l0 = None" "t_fiber l0 = Some f" using GetThis_fields [OF g] assms(2) by simp_all
  show ?thesis
    using assms g r l0
    by (cases uc) (simp_all add: new_Scheduler_def Let_def GetThis_def [of "l0\<lparr>t_scheduler := x, t_scheduler_fiber := y\<rparr>" for x y])
qed

text \<open>
  Life cycle: a scheduler made for \<open>threads > 0\<close> threads and started has exactly that many
  threads working for it, the caller's included when \<open>use_caller\<close> is set; starting it again changes
  nothing; with \<open>threads = 0\<close> the constructor aborts, and so does a second scheduler made on a
  thread that already belongs to one. It may be destroyed only when it is stopping.
\<close>

theorem scheduler_lifecycle:
  fixes ids :: "nat \<Rightarrow> thread_id"
  assumes "t_scheduler l = None"
  shows "new_Scheduler dflt 0 uc name this run tid l mm = Inl (AssertFail ''threads > 0'') \<and>
    (0 < threads \<longrightarrow>
      (\<exists>l1 s1 s2. new_Scheduler dflt threads uc name this run tid l mm = Inr (l1, s1) \<and>
        (uc \<longrightarrow> t_scheduler l1 = Some this \<and> t_scheduler_fiber l1 = m_rootFiber s1 \<and>
           new_Scheduler dflt threads uc name this' run tid l1 (mem s1) = Inl (AssertFail ''GetThis() == nullptr'')) \<and>
        start ids s1 = Inr s2 \<and> start ids s2 = Inr s2 \<and>
        length (m_threads s2) + (if uc then 1 else 0) = threads \<and> length (m_threadIds s2) = threads \<and>
        m_threadIds s2 = (if uc then [tid] else []) @ m_threads s2 \<and>
        (\<exists>r. delete_Scheduler this l1 s1 = Inr r) \<and>
        delete_Scheduler this l1 s2 = Inl (AssertFail ''m_stopping'')))"
proof (intro conjI impI)
  show "new_Scheduler dflt 0 uc name this run tid l mm = Inl (AssertFail ''threads > 0'')"
    by (simp add: new_Scheduler_def)
  assume "0 < threads"
  then obtain l1 s1 where n: "new_Scheduler dflt threads uc name this run tid l mm = Inr (l1, s1)"
    and s1: "m_stopping s1" "m_threads s1 = []" "m_threadIds s1 = (if uc then [tid] else [])"
      "m_threadCount s1 + (if uc then 1 else 0) = threads"
    and l1: "uc \<longrightarrow> t_scheduler l1 = Some this \<and> t_scheduler_fiber l1 = m_rootFiber s1 \<and>
        new_Scheduler dflt threads uc name this' run tid l1 (mem s1) = Inl (AssertFail ''GetThis() == nullptr'')"
    using new_Scheduler_ok [OF _ assms] by metis
  let ?new = "map ids [0..<m_threadCount s1]"
  let ?s2 = "s1\<lparr>m_stopping := False, m_threads := ?new, m_threadIds := m_threadIds s1 @ ?new\<rparr>"
  have "start ids s1 = Inr ?s2" "start ids ?s2 = Inr ?s2"
    "\<exists>r. delete_Scheduler this l1 s1 = Inr r" "delete_Scheduler this l1 ?s2 = Inl (AssertFail ''m_stopping'')"
    using s1 by (simp_all add: start_def delete_Scheduler_def Let_def)
  moreover have "length (m_threads ?s2) + (if uc then 1 else 0) = threads" "length (m_threadIds ?s2) = threads"
    "m_threadIds ?s2 = (if uc then [tid] else []) @ m_threads ?s2"
    using s1 by (auto split: if_splits)
  ultimately show "\<exists>l1 s1 s2. new_Scheduler dflt threads uc name this run tid l mm = Inr (l1, s1) \<and>
        (uc \<longrightarrow> t_scheduler l1 = Some this \<and> t_scheduler_fiber l1 = m_rootFiber s1 \<and>
           new_Scheduler dflt threads uc name this' run tid l1 (mem s1) = Inl (AssertFail ''GetThis() == nullptr'')) \<and>
        start ids s1 = Inr s2 \<and> start ids s2 = Inr s2 \<and>
        length (m_threads s2) + (if uc then 1 else 0) = threads \<and> length (m_threadIds s2) = threads \<and>
        m_threadIds s2 = (if uc then [tid] else []) @ m_threads s2 \<and>
        (\<exists>r. delete_Scheduler this l1 s1 = Inr r) \<and>
        delete_Scheduler this l1 s2 = Inl (AssertFail ''m_stopping'')"
    using n l1 by (intro exI [of _ l1] exI [of _ s1] exI [of _ ?s2]) blast
qed

theorem scheduler_lifecycle_witness:
  "\<exists>l1 s1 s2. new_Scheduler 131072 3 True ''main'' 5 (7 :: nat) 40 new_tls demo_mem = Inr (l1, s1) \<and>
     start (\<lambda>i. 41 + int i) s1 = Inr s2 \<and> m_threadIds s2 = [40, 41, 42]"
proof -
  have "t_scheduler new_tls = None" by (simp add: new_tls_def)
  from scheduler_lifecycle [OF this, of 131072 True "''main''" 5 "7 :: nat" 40 demo_mem 3 0 "\<lambda>i. 41 + int i"]
  obtain l1 s1 s2 where r: "new_Scheduler 131072 3 True ''main'' 5 (7 :: nat) 40 new_tls demo_mem = Inr (l1, s1)"
    "start (\<lambda>i. 41 + int i) s1 = Inr s2" "m_threadIds s2 = [40] @ m_threads s2"
    by auto
  then have "m_threads s2 = [41, 42]"
    by (auto simp: new_Scheduler_def start_def GetThis_def new_Fiber_main_def new_Fiber_def SetThis_def
        new_tls_def Let_def upt_rec)
  with r show ?thesis by auto
qed

end
