(* ===== verification/Sync.thy ===== *)
theory Sync
  imports Scheduler "HOL-Library.Multiset"
begin

text \<open>
  \<^verbatim>\<open>sylar/mutex.h\<close> and \<^verbatim>\<open>sylar/mutex.cpp\<close>: the locks, the scoped-lock templates over them, the
  semaphore, and \<open>FiberSemaphore\<close>, which parks fibers instead of threads. An operation that may have
  to wait is a function to \<open>option\<close>: \<open>None\<close> where the thread does not get past it in this state.
\<close>

section \<open>Locks\<close>

text \<open>
  \<^verbatim>\<open>Mutex\<close> and \<^verbatim>\<open>Spinlock\<close> (a POSIX lock: held or not), \<^verbatim>\<open>CASLock\<close> (an \<^verbatim>\<open>atomic_flag\<close>), \<^verbatim>\<open>RWMutex\<close>
  (readers and a writer) and the locks for debugging that do nothing.
\<close>

type_synonym Mutex = bool

definition Mutex_lock :: "Mutex \<Rightarrow> Mutex option" where
  "Mutex_lock m = (if m then None else Some True)"

definition Mutex_unlock :: "Mutex \<Rightarrow> Mutex" where
  "Mutex_unlock m = False"

definition Spinlock_lock :: "bool \<Rightarrow> bool option" where
  "Spinlock_lock m = (if m then None else Some True)"

definition Spinlock_unlock :: "bool \<Rightarrow> bool" where
  "Spinlock_unlock m = False"

definition test_and_set :: "bool \<Rightarrow> bool \<times> bool" where
  "test_and_set flag = (flag, True)"

text \<open>The loop of \<open>CASLock::lock\<close>: it goes on as long as the flag was set, which the loop itself
  never undoes.\<close>

partial_function (option) CASLock_lock :: "bool \<Rightarrow> bool option" where
  "CASLock_lock flag =
     (let (old, flag1) = test_and_set flag in if old then CASLock_lock flag1 else Some flag1)"

definition CASLock_unlock :: "bool \<Rightarrow> bool" where
  "CASLock_unlock flag = False"

record RWMutex =
  rw_readers :: nat
  rw_writer :: bool

definition RWMutex_rdlock :: "RWMutex \<Rightarrow> RWMutex option" where
  "RWMutex_rdlock m = (if rw_writer m then None else Some (m\<lparr>rw_readers := Suc (rw_readers m)\<rparr>))"

definition RWMutex_wrlock :: "RWMutex \<Rightarrow> RWMutex option" where
  "RWMutex_wrlock m = (if rw_writer m \<or> 0 < rw_readers m then None else Some (m\<lparr>rw_writer := True\<rparr>))"

definition RWMutex_unlock :: "RWMutex \<Rightarrow> RWMutex" where
  "RWMutex_unlock m = (if rw_writer m then m\<lparr>rw_writer := False\<rparr> else m\<lparr>rw_readers := rw_readers m - 1\<rparr>)"

definition NullMutex_lock :: "unit \<Rightarrow> unit option" where
  "NullMutex_lock m = Some m"

definition NullMutex_unlock :: "unit \<Rightarrow> unit" where
  "NullMutex_unlock m = m"

definition NullRWMutex_rdlock :: "unit \<Rightarrow> unit option" where
  "NullRWMutex_rdlock m = Some m"

definition NullRWMutex_wrlock :: "unit \<Rightarrow> unit option" where
  "NullRWMutex_wrlock m = Some m"

definition NullRWMutex_unlock :: "unit \<Rightarrow> unit" where
  "NullRWMutex_unlock m = m"

section \<open>Scoped locks\<close>

text \<open>
  \<^verbatim>\<open>ScopedLockImpl\<close>, \<^verbatim>\<open>ReadScopedLockImpl\<close> and \<^verbatim>\<open>WriteScopedLockImpl\<close> differ only in which member of the
  mutex takes the lock. The guard holds a reference, so the mutex is state next to its flag.
\<close>

record 'm guard =
  g_mutex :: 'm
  m_locked :: bool

definition ScopedLockImpl :: "('m \<Rightarrow> 'm option) \<Rightarrow> 'm \<Rightarrow> 'm guard option" where
  "ScopedLockImpl lockop m = map_option (\<lambda>m. \<lparr>g_mutex = m, m_locked = True\<rparr>) (lockop m)"

definition ScopedLockImpl_lock :: "('m \<Rightarrow> 'm option) \<Rightarrow> 'm guard \<Rightarrow> 'm guard option" where
  "ScopedLockImpl_lock lockop g =
     (if \<not> m_locked g then map_option (\<lambda>m. \<lparr>g_mutex = m, m_locked = True\<rparr>) (lockop (g_mutex g)) else Some g)"

definition ScopedLockImpl_unlock :: "('m \<Rightarrow> 'm) \<Rightarrow> 'm guard \<Rightarrow> 'm guard" where
  "ScopedLockImpl_unlock unlockop g =
     (if m_locked g then \<lparr>g_mutex = unlockop (g_mutex g), m_locked = False\<rparr> else g)"

definition ScopedLockImpl_delete :: "('m \<Rightarrow> 'm) \<Rightarrow> 'm guard \<Rightarrow> 'm" where
  "ScopedLockImpl_delete unlockop g = g_mutex (ScopedLockImpl_unlock unlockop g)"

definition ReadScopedLockImpl :: "('m \<Rightarrow> 'm option) \<Rightarrow> 'm \<Rightarrow> 'm guard option" where
  "ReadScopedLockImpl rdlock m = map_option (\<lambda>m. \<lparr>g_mutex = m, m_locked = True\<rparr>) (rdlock m)"

definition ReadScopedLockImpl_lock :: "('m \<Rightarrow> 'm option) \<Rightarrow> 'm guard \<Rightarrow> 'm guard option" where
  "ReadScopedLockImpl_lock rdlock g =
     (if \<not> m_locked g then map_option (\<lambda>m. \<lparr>g_mutex = m, m_locked = True\<rparr>) (rdlock (g_mutex g)) else Some g)"

definition ReadScopedLockImpl_unlock :: "('m \<Rightarrow> 'm) \<Rightarrow> 'm guard \<Rightarrow> 'm guard" where
  "ReadScopedLockImpl_unlock unlockop g =
     (if m_locked g then \<lparr>g_mutex = unlockop (g_mutex g), m_locked = False\<rparr> else g)"

definition ReadScopedLockImpl_delete :: "('m \<Rightarrow> 'm) \<Rightarrow> 'm guard \<Rightarrow> 'm" where
  "ReadScopedLockImpl_delete unlockop g = g_mutex (ReadScopedLockImpl_unlock unlockop g)"

definition WriteScopedLockImpl :: "('m \<Rightarrow> 'm option) \<Rightarrow> 'm \<Rightarrow> 'm guard option" where
  "WriteScopedLockImpl wrlock m = map_option (\<lambda>m. \<lparr>g_mutex = m, m_locked = True\<rparr>) (wrlock m)"

definition WriteScopedLockImpl_lock :: "('m \<Rightarrow> 'm option) \<Rightarrow> 'm guard \<Rightarrow> 'm guard option" where
  "WriteScopedLockImpl_lock wrlock g =
     (if \<not> m_locked g then map_option (\<lambda>m. \<lparr>g_mutex = m, m_locked = True\<rparr>) (wrlock (g_mutex g)) else Some g)"

definition WriteScopedLockImpl_unlock :: "('m \<Rightarrow> 'm) \<Rightarrow> 'm guard \<Rightarrow> 'm guard" where
  "WriteScopedLockImpl_unlock unlockop g =
     (if m_locked g then \<lparr>g_mutex = unlockop (g_mutex g), m_locked = False\<rparr> else g)"

definition WriteScopedLockImpl_delete :: "('m \<Rightarrow> 'm) \<Rightarrow> 'm guard \<Rightarrow> 'm" where
  "WriteScopedLockImpl_delete unlockop g = g_mutex (WriteScopedLockImpl_unlock unlockop g)"

text \<open>A guard gives its lock back once: the destructor does nothing after an \<open>unlock\<close>.\<close>

lemma guard_deleted_once:
  "ScopedLockImpl_delete ul (ScopedLockImpl_unlock ul g) = ScopedLockImpl_delete ul g"
  "ReadScopedLockImpl_delete ul (ReadScopedLockImpl_unlock ul g) = ReadScopedLockImpl_delete ul g"
  "WriteScopedLockImpl_delete ul (WriteScopedLockImpl_unlock ul g) = WriteScopedLockImpl_delete ul g"
  by (simp_all add: ScopedLockImpl_delete_def ScopedLockImpl_unlock_def ReadScopedLockImpl_delete_def ReadScopedLockImpl_unlock_def
      WriteScopedLockImpl_delete_def WriteScopedLockImpl_unlock_def)

section \<open>Semaphores\<close>

text \<open>
  \<^verbatim>\<open>Semaphore\<close> over a POSIX semaphore: \<open>sem_init\<close> fails above \<^verbatim>\<open>SEM_VALUE_MAX\<close>, \<open>sem_post\<close> at it,
  \<open>sem_wait\<close> when a signal handler interrupts it.
\<close>

definition SEM_VALUE_MAX :: u32 where "SEM_VALUE_MAX = 2147483647"

definition Semaphore_new :: "u32 \<Rightarrow> u32 res" where
  "Semaphore_new n =
     (if SEM_VALUE_MAX < n then Inl (Thrown ''sem_init error'') else Inr n)"

definition Semaphore_wait :: "bool \<Rightarrow> u32 \<Rightarrow> u32 option res" where
  "Semaphore_wait interrupted value =
     (if 0 < value then Inr (Some (value - 1))
      else if interrupted then Inl (Thrown ''sem_wait error'') else Inr None)"

definition Semaphore_notify :: "u32 \<Rightarrow> u32 res" where
  "Semaphore_notify value =
     (if value = SEM_VALUE_MAX then Inl (Thrown ''sem_post error'') else Inr (value + 1))"

record fsem =
  m_waiters :: "(sched_ptr \<times> fiber_ptr) list"
  m_concurrency :: u64

definition FiberSemaphore :: "u64 \<Rightarrow> fsem" where
  "FiberSemaphore initial_concurrency = \<lparr>m_waiters = [], m_concurrency = initial_concurrency\<rparr>"

definition delete_FiberSemaphore :: "fsem \<Rightarrow> unit res" where
  "delete_FiberSemaphore sem = SYLAR_ASSERT (m_waiters sem = []) ''m_waiters.empty()''"

definition tryWait :: "tls \<Rightarrow> fsem \<Rightarrow> (bool \<times> fsem) res" where
  "tryWait l sem =
     bindE (SYLAR_ASSERT (t_scheduler l \<noteq> None) ''Scheduler::GetThis()'') (\<lambda>_.
     Inr (if 0 < m_concurrency sem
          then (True, sem\<lparr>m_concurrency := m_concurrency sem - 1\<rparr>) else (False, sem)))"

text \<open>
  \<open>wait\<close> in two parts: the section under the lock, which says whether the fiber has to park, and the
  yield behind it.
\<close>

definition wait_locked :: "tls \<Rightarrow> 'c fiber_mem \<Rightarrow> fsem \<Rightarrow> (bool \<times> tls \<times> 'c fiber_mem \<times> fsem) res" where
  "wait_locked l mm sem =
     bindE (SYLAR_ASSERT (t_scheduler l \<noteq> None) ''Scheduler::GetThis()'') (\<lambda>_.
     Inr (if 0 < m_concurrency sem
          then (False, l, mm, sem\<lparr>m_concurrency := m_concurrency sem - 1\<rparr>)
          else let (f, l1, mm1) = GetThis l mm
               in (True, l1, mm1, sem\<lparr>m_waiters := m_waiters sem @ [(the (t_scheduler l), f)]\<rparr>)))"

definition wait :: "tls \<Rightarrow> 'c fiber_mem \<Rightarrow> fsem \<Rightarrow> (tls \<times> 'c fiber_mem \<times> fsem) res" where
  "wait l mm sem =
     bindE (wait_locked l mm sem) (\<lambda>(park, l1, mm1, sem1).
     if park then bindE (YieldToHold l1 mm1) (\<lambda>(l2, mm2). Inr (l2, mm2, sem1))
     else Inr (l1, mm1, sem1))"

text \<open>\<open>notify\<close>: \<open>scheds\<close> are the scheduler objects, \<open>schedule_on\<close> is \<^verbatim>\<open>schedule\<close> of one of them.\<close>

definition notify :: "(fiber_ptr \<Rightarrow> 's \<Rightarrow> 's) \<Rightarrow> fsem \<Rightarrow> (sched_ptr \<Rightarrow> 's) \<Rightarrow> fsem \<times> (sched_ptr \<Rightarrow> 's)" where
  "notify schedule_on sem scheds =
     (case m_waiters sem of
        (s, f) # rest \<Rightarrow> (sem\<lparr>m_waiters := rest\<rparr>, scheds(s := schedule_on f (scheds s)))
      | [] \<Rightarrow> (sem\<lparr>m_concurrency := m_concurrency sem + 1\<rparr>, scheds))"

definition getConcurrency :: "fsem \<Rightarrow> u64" where
  "getConcurrency sem = m_concurrency sem"

definition FiberSemaphore_reset :: "fsem \<Rightarrow> fsem" where
  "FiberSemaphore_reset sem = sem\<lparr>m_concurrency := 0\<rparr>"

section \<open>Guards on a shared lock\<close>

text \<open>
  A lock with the guards that refer to it, each of some kind (which member takes the lock) and
  with its \<open>m_locked\<close>. Guards come and go and are locked and unlocked in any order; the parameters
  are the members of the scoped-lock template for each kind.
\<close>

type_synonym ('m, 'k) guarded = "'m \<times> ('k \<times> bool) list"

inductive guard_step ::
  "('k \<Rightarrow> 'm \<Rightarrow> 'm guard option) \<Rightarrow> ('k \<Rightarrow> 'm guard \<Rightarrow> 'm guard option) \<Rightarrow> ('k \<Rightarrow> 'm guard \<Rightarrow> 'm guard) \<Rightarrow>
   ('m, 'k) guarded \<Rightarrow> ('m, 'k) guarded \<Rightarrow> bool"
  for mk :: "'k \<Rightarrow> 'm \<Rightarrow> 'm guard option" and lk :: "'k \<Rightarrow> 'm guard \<Rightarrow> 'm guard option"
    and ulk :: "'k \<Rightarrow> 'm guard \<Rightarrow> 'm guard" where
  g_new: "mk k m = Some g \<Longrightarrow> guard_step mk lk ulk (m, gs) (g_mutex g, gs @ [(k, m_locked g)])"
| g_lock: "lk k \<lparr>g_mutex = m, m_locked = b\<rparr> = Some g \<Longrightarrow>
     guard_step mk lk ulk (m, xs @ (k, b) # ys) (g_mutex g, xs @ (k, m_locked g) # ys)"
| g_unlock: "ulk k \<lparr>g_mutex = m, m_locked = b\<rparr> = g \<Longrightarrow>
     guard_step mk lk ulk (m, xs @ (k, b) # ys) (g_mutex g, xs @ (k, m_locked g) # ys)"
| g_delete: "ulk k \<lparr>g_mutex = m, m_locked = b\<rparr> = g \<Longrightarrow>
     guard_step mk lk ulk (m, xs @ (k, b) # ys) (g_mutex g, xs @ ys)"

definition held :: "('k \<times> bool) list \<Rightarrow> 'k multiset" where
  "held gs = mset (map fst (filter snd gs))"

lemma held_simps [simp]:
  "held [] = {#}" "held (xs @ ys) = held xs + held ys"
  "held ((k, b) # xs) = (if b then add_mset k (held xs) else held xs)"
  by (simp_all add: held_def)

text \<open>
  The interface of a lock: what the multiset of its holders becomes, and which holders may hold it
  together.
\<close>

locale lockable =
  fixes lockop :: "'k \<Rightarrow> 'm \<Rightarrow> 'm option"
    and unlockop :: "'m \<Rightarrow> 'm"
    and holders :: "'m \<Rightarrow> 'k multiset"
    and compat :: "'k multiset \<Rightarrow> bool"
  assumes lock_holders: "compat (holders m) \<Longrightarrow> lockop k m = Some m' \<Longrightarrow>
      holders m' = add_mset k (holders m) \<and> compat (holders m')"
    and unlock_holders: "compat (holders m) \<Longrightarrow> k \<in># holders m \<Longrightarrow>
      holders (unlockop m) = holders m - {#k#} \<and> compat (holders (unlockop m))"
    and compat_empty: "compat {#}"
begin

abbreviation scoped_step :: "('m, 'k) guarded \<Rightarrow> ('m, 'k) guarded \<Rightarrow> bool" where
  "scoped_step \<equiv> guard_step (\<lambda>k. ScopedLockImpl (lockop k)) (\<lambda>k. ScopedLockImpl_lock (lockop k))
     (\<lambda>k. ScopedLockImpl_unlock unlockop)"

abbreviation free :: "('m, 'k) guarded \<Rightarrow> bool" where
  "free c \<equiv> holders (fst c) = {#} \<and> snd c = []"

abbreviation guarded_inv :: "('m, 'k) guarded \<Rightarrow> bool" where
  "guarded_inv c \<equiv> holders (fst c) = held (snd c) \<and> compat (holders (fst c))"

lemma guarded_inv_unlock:
  assumes "holders m = held xs + held ((k, b) # ys)" and "compat (holders m)"
    and "ScopedLockImpl_unlock unlockop \<lparr>g_mutex = m, m_locked = b\<rparr> = g"
  shows "holders (g_mutex g) = held xs + held ys \<and> compat (holders (g_mutex g)) \<and> \<not> m_locked g"
proof (cases b)
  case True
  with assms(1) have "k \<in># holders m" by simp
  from unlock_holders [OF assms(2) this] assms(1,3) True show ?thesis
    by (auto simp: ScopedLockImpl_unlock_def)
next
  case False
  with assms show ?thesis by (auto simp: ScopedLockImpl_unlock_def)
qed

lemma guarded_inv_lock:
  assumes "holders m = held xs + held ((k, b) # ys)" and "compat (holders m)"
    and "ScopedLockImpl_lock (lockop k) \<lparr>g_mutex = m, m_locked = b\<rparr> = Some g"
  shows "holders (g_mutex g) = held xs + held ((k, m_locked g) # ys) \<and> compat (holders (g_mutex g))"
  using assms lock_holders [OF assms(2), of k]
  by (auto simp: ScopedLockImpl_lock_def split: if_splits)

lemma guarded_inv_step:
  assumes step: "scoped_step c c'" and inv: "guarded_inv c"
  shows "guarded_inv c'"
  using step
proof (cases rule: guard_step.cases)
  case (g_new k m g gs)
  then obtain m' where "lockop k m = Some m'" "g = \<lparr>g_mutex = m', m_locked = True\<rparr>"
    by (auto simp: ScopedLockImpl_def)
  with g_new inv lock_holders [of m k m'] show ?thesis by auto
next
  case (g_lock k m b g xs ys)
  with inv have "holders m = held xs + held ((k, b) # ys)" "compat (holders m)" by (simp, metis fst_conv)
  from guarded_inv_lock [OF this g_lock(3)] g_lock(2) show ?thesis by (cases "m_locked g") auto
next
  case (g_unlock k m b g xs ys)
  with inv have "holders m = held xs + held ((k, b) # ys)" "compat (holders m)" by (simp, metis fst_conv)
  from guarded_inv_unlock [OF this g_unlock(3)] g_unlock(2) show ?thesis by (cases "m_locked g") auto
next
  case (g_delete k m b g xs ys)
  with inv have "holders m = held xs + held ((k, b) # ys)" "compat (holders m)" by (simp, metis fst_conv)
  from guarded_inv_unlock [OF this g_delete(3)] g_delete(2) show ?thesis by (cases "m_locked g") auto
qed

end

sublocale lockable \<subseteq> guards: inductive_invariant free scoped_step guarded_inv
proof unfold_locales
  show "free c \<Longrightarrow> guarded_inv c" for c :: "('m, 'k) guarded"
    using compat_empty by auto
  show "guarded_inv c \<Longrightarrow> scoped_step c c' \<Longrightarrow> guarded_inv c'" for c c' :: "('m, 'k) guarded"
    by (rule guarded_inv_step)
qed

text \<open>The locks of mutex.h provide the interface.\<close>

abbreviation single :: "unit multiset \<Rightarrow> bool" where
  "single A \<equiv> size A \<le> 1"

definition flag_holders :: "bool \<Rightarrow> unit multiset" where
  "flag_holders b = (if b then {#()#} else {#})"

lemma CASLock_lock_eq: "CASLock_lock flag = (if flag then None else Some True)"
proof (cases flag)
  case True
  have "\<not> flag" if "CASLock_lock flag = Some y" for flag y
    by (rule CASLock_lock.raw_induct [OF _ that]) (auto simp: test_and_set_def split: if_splits)
  with True show ?thesis by (cases "CASLock_lock True") auto
next
  case False
  then show ?thesis by (simp add: CASLock_lock.simps test_and_set_def)
qed

interpretation mutex: lockable "\<lambda>_. Mutex_lock" Mutex_unlock flag_holders single
  by unfold_locales (auto simp: Mutex_lock_def Mutex_unlock_def flag_holders_def split: if_splits)

interpretation spin: lockable "\<lambda>_. Spinlock_lock" Spinlock_unlock flag_holders single
  by unfold_locales (auto simp: Spinlock_lock_def Spinlock_unlock_def flag_holders_def split: if_splits)

interpretation cas: lockable "\<lambda>_. CASLock_lock" CASLock_unlock flag_holders single
  by unfold_locales (auto simp: CASLock_lock_eq CASLock_unlock_def flag_holders_def split: if_splits)

datatype rw_kind = Read | Write

definition rw_lock :: "rw_kind \<Rightarrow> RWMutex \<Rightarrow> RWMutex option" where
  "rw_lock k = (case k of Read \<Rightarrow> RWMutex_rdlock | Write \<Rightarrow> RWMutex_wrlock)"

definition rw_holders :: "RWMutex \<Rightarrow> rw_kind multiset" where
  "rw_holders m = replicate_mset (rw_readers m) Read + (if rw_writer m then {#Write#} else {#})"

definition rw_compat :: "rw_kind multiset \<Rightarrow> bool" where
  "rw_compat A \<longleftrightarrow> (Write \<in># A \<longrightarrow> A = {#Write#})"

interpretation rw: lockable rw_lock RWMutex_unlock rw_holders rw_compat
proof unfold_locales
  show "rw_holders m' = add_mset k (rw_holders m) \<and> rw_compat (rw_holders m')"
    if "rw_compat (rw_holders m)" "rw_lock k m = Some m'" for k m m'
    using that
    by (cases k) (auto simp: rw_lock_def RWMutex_rdlock_def RWMutex_wrlock_def rw_holders_def rw_compat_def split: if_splits)
  show "rw_holders (RWMutex_unlock m) = rw_holders m - {#k#} \<and> rw_compat (rw_holders (RWMutex_unlock m))"
    if "rw_compat (rw_holders m)" "k \<in># rw_holders m" for k m
  proof (cases "rw_writer m")
    case True
    with that(1) have "rw_readers m = 0" by (auto simp: rw_holders_def rw_compat_def)
    with True that(2) show ?thesis by (auto simp: RWMutex_unlock_def rw_holders_def rw_compat_def)
  next
    case False
    with that(2) have "k = Read" "0 < rw_readers m" by (auto simp: rw_holders_def split: if_splits)
    with False show ?thesis
      by (cases "rw_readers m") (auto simp: RWMutex_unlock_def rw_holders_def rw_compat_def)
  qed
  show "rw_compat {#}" by (simp add: rw_compat_def)
qed

text \<open>The scoped locks of \<open>RWMutex\<close>.\<close>

definition rw_mk :: "rw_kind \<Rightarrow> RWMutex \<Rightarrow> RWMutex guard option" where
  "rw_mk k = (case k of Read \<Rightarrow> ReadScopedLockImpl RWMutex_rdlock | Write \<Rightarrow> WriteScopedLockImpl RWMutex_wrlock)"

definition rw_lk :: "rw_kind \<Rightarrow> RWMutex guard \<Rightarrow> RWMutex guard option" where
  "rw_lk k = (case k of Read \<Rightarrow> ReadScopedLockImpl_lock RWMutex_rdlock
                      | Write \<Rightarrow> WriteScopedLockImpl_lock RWMutex_wrlock)"

definition rw_ulk :: "rw_kind \<Rightarrow> RWMutex guard \<Rightarrow> RWMutex guard" where
  "rw_ulk k = (case k of Read \<Rightarrow> ReadScopedLockImpl_unlock RWMutex_unlock
                       | Write \<Rightarrow> WriteScopedLockImpl_unlock RWMutex_unlock)"

lemma rw_templates:
  "rw_mk = (\<lambda>k. ScopedLockImpl (rw_lock k))"
  "rw_lk = (\<lambda>k. ScopedLockImpl_lock (rw_lock k))"
  "rw_ulk = (\<lambda>k. ScopedLockImpl_unlock RWMutex_unlock)"
  by (auto simp: fun_eq_iff rw_mk_def rw_lk_def rw_ulk_def rw_lock_def ScopedLockImpl_def
      ReadScopedLockImpl_def WriteScopedLockImpl_def ScopedLockImpl_lock_def ReadScopedLockImpl_lock_def
      WriteScopedLockImpl_lock_def ScopedLockImpl_unlock_def ReadScopedLockImpl_unlock_def
      WriteScopedLockImpl_unlock_def split: rw_kind.split)

definition rw_free :: "(RWMutex, rw_kind) guarded \<Rightarrow> bool" where
  "rw_free c \<longleftrightarrow> c = (\<lparr>rw_readers = 0, rw_writer = False\<rparr>, [])"

definition flag_free :: "(bool, unit) guarded \<Rightarrow> bool" where
  "flag_free c \<longleftrightarrow> c = (False, [])"

lemma reachable_mono:
  assumes "reachable init step c" and "\<And>c. init c \<Longrightarrow> init' c"
  shows "reachable init' step c"
  using assms(1) by (induction rule: reachable.induct) (auto intro: reachable.intros assms(2))

lemma flag_free_holders: "flag_free c \<Longrightarrow> flag_holders (fst c) = {#} \<and> snd c = []"
  by (simp add: flag_free_def flag_holders_def)

section \<open>Properties of the locks\<close>

text \<open>
  C34. Mutual exclusion through scoped locks: however guards on a \<open>Mutex\<close>, a \<open>Spinlock\<close> or a \<open>CASLock\<close>
  are created, locked, unlocked and destroyed, at most one of them has \<open>m_locked\<close> set, and the lock is taken
  exactly when one has; once all guards are gone the lock is free.
\<close>

theorem scoped_lock_exclusive:
  assumes "reachable flag_free mutex.scoped_step (m, gs) \<or> reachable flag_free spin.scoped_step (m, gs) \<or>
    reachable flag_free cas.scoped_step (m, gs)"
  shows "length (filter snd gs) \<le> 1 \<and> (m \<longleftrightarrow> filter snd gs \<noteq> []) \<and> (gs = [] \<longrightarrow> \<not> m)"
proof -
  have "flag_holders m = held gs \<and> single (flag_holders m)"
    using assms mutex.guards.reachable_inv [OF reachable_mono [of flag_free mutex.scoped_step "(m, gs)"]]
      spin.guards.reachable_inv [OF reachable_mono [of flag_free spin.scoped_step "(m, gs)"]]
      cas.guards.reachable_inv [OF reachable_mono [of flag_free cas.scoped_step "(m, gs)"]] flag_free_holders
    by (metis fst_conv snd_conv)
  moreover have "size (held gs) = length (filter snd gs)" by (induction gs) auto
  moreover have "size (flag_holders m) = of_bool m" by (simp add: flag_holders_def)
  ultimately have n: "length (filter snd gs) = of_bool m" by metis
  have "gs = [] \<Longrightarrow> \<not> m" using n by auto
  with n show ?thesis by (cases m) auto
qed

theorem scoped_lock_exclusive_witness:
  "length (filter snd [((), True)]) \<le> 1 \<and> CASLock_lock False = Some True"
proof -
  have "reachable flag_free cas.scoped_step (False, [])"
    by (rule reachable_init) (simp add: flag_free_def)
  moreover have "cas.scoped_step (False, []) (True, [((), True)])"
    using g_new [of "\<lambda>k. ScopedLockImpl CASLock_lock" "()" False "\<lparr>g_mutex = True, m_locked = True\<rparr>"
      "\<lambda>k. ScopedLockImpl_lock CASLock_lock" "\<lambda>k. ScopedLockImpl_unlock CASLock_unlock" "[]"]
    by (simp add: ScopedLockImpl_def CASLock_lock_eq)
  ultimately have "reachable flag_free cas.scoped_step (True, [((), True)])" by (rule reachable_step)
  from scoped_lock_exclusive [OF disjI2 [OF disjI2 [OF this]]] show ?thesis by (simp add: CASLock_lock_eq)
qed



section \<open>The fiber semaphore and the scheduler\<close>

text \<open>
  What \<open>notify\<close> needs of a scheduler: a scheduled fiber is appended to the tasks waiting there.
\<close>

locale task_scheduler =
  fixes schedule_on :: "fiber_ptr \<Rightarrow> 's \<Rightarrow> 's"
    and pending :: "'s \<Rightarrow> 't list"
    and task_of :: "fiber_ptr \<Rightarrow> 't"
  assumes schedule_pending: "pending (schedule_on f s) = pending s @ [task_of f]"
begin

lemma notify_n:
  assumes "n \<le> length (m_waiters sem)"
  shows "case ((\<lambda>(sem, scheds). notify schedule_on sem scheds) ^^ n) (sem, scheds) of (sem', scheds') \<Rightarrow>
     m_waiters sem' = drop n (m_waiters sem) \<and> m_concurrency sem' = m_concurrency sem \<and>
     (\<forall>p. pending (scheds' p) = pending (scheds p) @
        map (task_of \<circ> snd) (filter (\<lambda>w. fst w = p) (take n (m_waiters sem))))"
  using assms
proof (induction n)
  case 0
  then show ?case by simp
next
  case (Suc n)
  obtain sem' scheds' where it: "((\<lambda>(sem, scheds). notify schedule_on sem scheds) ^^ n) (sem, scheds) = (sem', scheds')"
    by fastforce
  from Suc.prems have n: "n < length (m_waiters sem)" by simp
  obtain q f where w: "m_waiters sem ! n = (q, f)" by fastforce
  have ih: "m_waiters sem' = drop n (m_waiters sem)" "m_concurrency sem' = m_concurrency sem"
    "pending (scheds' p) = pending (scheds p) @
        map (task_of \<circ> snd) (filter (\<lambda>w. fst w = p) (take n (m_waiters sem)))" for p
    using Suc.IH n it by simp_all
  have "m_waiters sem' = (q, f) # drop (Suc n) (m_waiters sem)"
    using ih(1) n w by (metis Cons_nth_drop_Suc)
  then have "notify schedule_on sem' scheds' =
      (sem'\<lparr>m_waiters := drop (Suc n) (m_waiters sem)\<rparr>, scheds'(q := schedule_on f (scheds' q)))"
    by (simp add: notify_def)
  then show ?case
    using it ih(2,3) n w by (simp add: schedule_pending take_Suc_conv_app_nth)
qed

end

text \<open>\<^verbatim>\<open>schedule(fiber)\<close> of a scheduler with the virtual \<^verbatim>\<open>tickle\<close>.\<close>

definition schedule_fiber ::
  "(('c, 'z) sched_scheme \<Rightarrow> ('c, 'z) sched_scheme) \<Rightarrow> fiber_ptr \<Rightarrow> ('c, 'z) sched_scheme \<Rightarrow> ('c, 'z) sched_scheme" where
  "schedule_fiber tick f = schedule tick (FT_fiber (Some f) (- 1))"

sublocale scheduler_virtuals \<subseteq> tasks: task_scheduler "schedule_fiber tick" m_fibers "\<lambda>f. FT_fiber (Some f) (- 1)"
  by unfold_locales (simp add: schedule_fiber_def schedule_fields FT_fiber_ok)

text \<open>
  Executions of a fiber semaphore made with \<open>n\<close> tokens, with three numbers that are not part of the
  program: how often it was notified, how many calls of \<open>wait\<close> and \<open>tryWait\<close> were given a token, and
  how many tokens \<open>reset\<close> threw away.
\<close>

type_synonym 'c fsem_run = "fsem \<times> (sched_ptr \<Rightarrow> 'c sched) \<times> nat \<times> nat \<times> nat"

inductive fsem_step :: "'c fsem_run \<Rightarrow> 'c fsem_run \<Rightarrow> bool" where
  s_wait: "wait_locked l (mm :: 'c fiber_mem) sem = Inr (False, l', mm', sem') \<Longrightarrow>
     fsem_step (sem, scheds, notified, granted, dropped) (sem', scheds, notified, Suc granted, dropped)"
| s_park: "wait_locked l (mm :: 'c fiber_mem) sem = Inr (True, l', mm', sem') \<Longrightarrow>
     fsem_step (sem, scheds, notified, granted, dropped) (sem', scheds, notified, granted, dropped)"
| s_tryWait: "tryWait l sem = Inr (b, sem') \<Longrightarrow>
     fsem_step (sem, scheds, notified, granted, dropped) (sem', scheds, notified, granted + of_bool b, dropped)"
| s_notify: "notify (schedule_fiber Scheduler_tickle) sem scheds = (sem', scheds') \<Longrightarrow>
     fsem_step (sem, scheds, notified, granted, dropped)
       (sem', scheds', Suc notified, granted + of_bool (m_waiters sem \<noteq> []), dropped)"
| s_reset: "fsem_step (sem, scheds, notified, granted, dropped)
     (FiberSemaphore_reset sem, scheds, notified, granted, dropped + unat (getConcurrency sem))"

definition fsem_init :: "u64 \<Rightarrow> 'c fsem_run \<Rightarrow> bool" where
  "fsem_init n c \<longleftrightarrow> (\<exists>scheds. c = (FiberSemaphore n, scheds, 0, 0, 0))"

fun fsem_inv :: "u64 \<Rightarrow> 'c fsem_run \<Rightarrow> bool" where
  "fsem_inv n (sem, scheds, notified, granted, dropped) \<longleftrightarrow>
     (m_waiters sem \<noteq> [] \<longrightarrow> m_concurrency sem = 0) \<and>
     (unat n + notified < 2 ^ 64 \<longrightarrow> granted + dropped + unat (m_concurrency sem) = unat n + notified)"

lemma unat_minus_1: "0 < (x :: u64) \<Longrightarrow> Suc (unat (x - 1)) = unat x"
  by (metis Suc_pred' less_irrefl unat_gt_0 unat_minus_one)

lemma unat_plus_1: "unat (x :: u64) + 1 < 2 ^ 64 \<Longrightarrow> unat (x + 1) = Suc (unat x)"
  by (simp add: unat_word_ariths)

lemma wait_locked_cases:
  "wait_locked l mm sem = Inr (b, l', mm', sem') \<Longrightarrow>
   (\<not> b \<and> 0 < m_concurrency sem \<and> sem' = sem\<lparr>m_concurrency := m_concurrency sem - 1\<rparr>) \<or>
   (b \<and> m_concurrency sem = 0 \<and> (\<exists>w. sem' = sem\<lparr>m_waiters := m_waiters sem @ [w]\<rparr>))"
  by (auto simp: wait_locked_def bindE_eq_Inr Let_def word_gt_0 split: if_splits prod.splits)

lemma fsem_inv_step:
  assumes "fsem_step c c'" and "fsem_inv n c"
  shows "fsem_inv n c'"
  using assms
proof (cases rule: fsem_step.cases)
  case (s_wait l mm sem l' mm' sem' scheds notified granted dropped)
  then show ?thesis using assms(2) wait_locked_cases [of l mm sem False] unat_minus_1 by fastforce
next
  case (s_park l mm sem l' mm' sem' scheds notified granted dropped)
  then show ?thesis using assms(2) wait_locked_cases [of l mm sem True] by fastforce
next
  case (s_tryWait l sem b sem' scheds notified granted dropped)
  then show ?thesis using assms(2) unat_minus_1 [of "m_concurrency sem"]
    by (auto simp: tryWait_def bindE_eq_Inr split: if_splits)
next
  case (s_notify sem scheds sem' scheds' notified granted dropped)
  then show ?thesis using assms(2) unat_plus_1 [of "m_concurrency sem"]
    by (auto simp: notify_def split: list.splits)
next
  case (s_reset sem scheds notified granted dropped)
  then show ?thesis using assms(2) by (auto simp: FiberSemaphore_reset_def getConcurrency_def)
qed

interpretation fsem: inductive_invariant "fsem_init n" fsem_step "fsem_inv n" for n
proof unfold_locales
  show "fsem_init n c \<Longrightarrow> fsem_inv n c" for c
    by (cases c) (auto simp: fsem_init_def FiberSemaphore_def)
  show "fsem_inv n c \<Longrightarrow> fsem_step c c' \<Longrightarrow> fsem_inv n c'" for c c'
    by (rule fsem_inv_step)
qed



text \<open>
  Waiting fibers are woken in the order they came: \<open>k\<close> notifications of a semaphore with at least
  \<open>k\<close> parked fibers put the first \<open>k\<close> of them, in order, at the end of the queues of their
  schedulers, and create no token.
\<close>

theorem semaphore_wakes_fifo:
  assumes "k \<le> length (m_waiters sem)"
    and "((\<lambda>(sem, scheds). notify (schedule_fiber Scheduler_tickle) sem scheds) ^^ k) (sem, scheds) = (sem', scheds')"
  shows "m_waiters sem' = drop k (m_waiters sem) \<and> m_concurrency sem' = m_concurrency sem \<and>
    m_fibers (scheds' p) = m_fibers (scheds p) @
      map (\<lambda>w. FT_fiber (Some (snd w)) (- 1)) (filter (\<lambda>w. fst w = p) (take k (m_waiters sem)))"
  using base.tasks.notify_n [OF assms(1), of scheds] assms(2) by (simp add: comp_def)

theorem semaphore_wakes_fifo_witness:
  "m_fibers (snd (((\<lambda>(sem, scheds). notify (schedule_fiber Scheduler_tickle) sem scheds) ^^ 2)
      (\<lparr>m_waiters = [(0, 4), (1, 5), (0, 6)], m_concurrency = 0\<rparr>, \<lambda>_. demo_sched)) 1) =
   [FT_cb (Some 3) (- 1), FT_fiber (Some 5) (- 1)]"
  using semaphore_wakes_fifo
    [of 2 "\<lparr>m_waiters = [(0, 4), (1, 5), (0, 6)], m_concurrency = 0\<rparr>" "\<lambda>_. demo_sched" _ _ 1, OF _ surjective_pairing]
  by (simp add: demo_sched_def numeral_2_eq_2)

text \<open>
  C37. A parked fiber is not resumed before it left its stack: \<open>wait\<close> on a semaphore without tokens
  enters the fiber among the waiters and then yields; until the scheduler that ran it marks it
  \<open>HOLD\<close> the fiber is \<open>EXEC\<close>, so that no worker takes it from the queue even if it was notified in
  between, and its task stays in the queue.
\<close>

theorem parked_fiber_not_taken:
  assumes "t_scheduler l = Some p" and "m_concurrency sem = 0" and "t_fiber l = Some f"
    and "state_of mm f = EXEC" and "t_scheduler_fiber l = Some m" and "m \<noteq> f"
    and "m_ctx (fibers mm m) \<noteq> AtEnd"
  shows "\<exists>l' mm' sem'. wait l mm sem = Inr (l', mm', sem') \<and> m_waiters sem' = m_waiters sem @ [(p, f)] \<and>
     t_cpu l' = Some m \<and> state_of mm' f = EXEC \<and>
     (\<forall>w s q. (\<forall>ft \<in> set q. task_ok ft \<and> \<not> eligible (w_tid w) (state_of mm') ft) \<and>
        mem s = mm' \<and> m_fibers s = q @ [FT_fiber (Some f) tid] \<longrightarrow>
        (\<exists>w'. run_pick w s = Inr (w', s) \<and> \<not> w_is_active w'))"
proof -
  let ?l' = "l\<lparr>t_fiber := Some m, t_cpu := Some m\<rparr>"
  let ?mm' = "set_fiber f (\<lambda>f. f\<lparr>m_ctx := Saved\<rparr>) mm"
  let ?sem' = "sem\<lparr>m_waiters := m_waiters sem @ [(p, f)]\<rparr>"
  have wt: "wait l mm sem = Inr (?l', ?mm', ?sem')"
    using assms by (simp add: wait_def wait_locked_def GetThis_def YieldToHold_def swapOut_def swapcontext_def SetThis_def)
  have "\<exists>w'. run_pick w s = Inr (w', s) \<and> \<not> w_is_active w'"
    if "\<forall>ft \<in> set q. task_ok ft \<and> \<not> eligible (w_tid w) (state_of ?mm') ft" "mem s = ?mm'"
      "m_fibers s = q @ [FT_fiber (Some f) tid]"
    for w :: "'a worker" and s :: "('a, 'b) sched_scheme" and q
  proof -
    have "\<forall>ft \<in> set (m_fibers s). task_ok ft \<and> \<not> eligible (w_tid w) (state_of (mem s)) ft"
      using that assms(4) by (auto simp: task_ok_def eligible_def FT_fiber_def)
    then show ?thesis by (simp add: run_pick_def run_scan_none)
  qed
  then have taken: "\<forall>(w :: 'a worker) (s :: ('a, 'b) sched_scheme) q.
      (\<forall>ft \<in> set q. task_ok ft \<and> \<not> eligible (w_tid w) (state_of ?mm') ft) \<and>
      mem s = ?mm' \<and> m_fibers s = q @ [FT_fiber (Some f) tid] \<longrightarrow>
      (\<exists>w'. run_pick w s = Inr (w', s) \<and> \<not> w_is_active w')" by blast
  show ?thesis
    by (rule exI [of _ ?l'], rule exI [of _ ?mm'], rule exI [of _ ?sem']) (use wt taken assms(4) in simp)
qed

theorem parked_fiber_not_taken_witness:
  "\<exists>l' mm' sem'. wait (demo_tls\<lparr>t_scheduler := Some 9\<rparr>) demo_mem (FiberSemaphore 0) = Inr (l', mm', sem') \<and>
     m_waiters sem' = [(9, 1)] \<and> state_of mm' 1 = EXEC"
  using parked_fiber_not_taken [of "demo_tls\<lparr>t_scheduler := Some 9\<rparr>" 9 "FiberSemaphore 0" 1 demo_mem 0 7]
  by (auto simp: demo_tls_def demo_mem_def demo_fiber_def FiberSemaphore_def)

end
