(* ===== verification/Thread.thy ===== *)
theory Thread
  imports Sync
begin

text \<open>
  \<^verbatim>\<open>sylar/thread.h\<close> and \<^verbatim>\<open>sylar/thread.cpp\<close>: a thread object and the handshake by which its constructor waits until the new thread has
  taken over. The constructor is cut at \<^verbatim>\<open>m_semaphore.wait()\<close>, because the function \<^verbatim>\<open>run\<close> of the new thread is executed meanwhile. What
  \<^verbatim>\<open>pthread_create\<close>, \<^verbatim>\<open>pthread_join\<close> and \<^verbatim>\<open>gettid\<close> return are arguments. The lifetime of an object is part of the
  state, so that an access to an object that is gone is an error.
\<close>

section \<open>Data\<close>

type_synonym thread_ptr = nat

record 'c thread =
  th_id :: int
  m_thread :: u64
  th_cb :: "'c option"
  th_name :: string
  th_semaphore :: u32

datatype life = Constructing | Alive | Gone

text \<open>
  All threads: the objects, their lifetimes, which of the created threads have begun \<^verbatim>\<open>run\<close>, and the thread-local variables of
  each kernel thread.
\<close>

record 'c threads =
  th_objs :: "thread_ptr \<Rightarrow> 'c thread"
  next_thread :: nat
  life :: "thread_ptr \<Rightarrow> life"
  begun :: "thread_ptr \<Rightarrow> bool"
  t_thread :: "int \<Rightarrow> thread_ptr option"
  t_thread_name :: "int \<Rightarrow> string"

definition no_threads :: "'c threads" where
  "no_threads = \<lparr>th_objs = (\<lambda>_. \<lparr>th_id = - 1, m_thread = 0, th_cb = None, th_name = [], th_semaphore = 0\<rparr>), next_thread = 0,
     life = (\<lambda>_. Gone), begun = (\<lambda>_. False), t_thread = (\<lambda>_. None), t_thread_name = (\<lambda>_. ''UNKNOW'')\<rparr>"

definition set_thread :: "thread_ptr \<Rightarrow> ('c thread \<Rightarrow> 'c thread) \<Rightarrow> 'c threads \<Rightarrow> 'c threads" where
  "set_thread p g s = s\<lparr>th_objs := (th_objs s)(p := g (th_objs s p))\<rparr>"

section \<open>Operations\<close>

definition Thread_GetThis :: "int \<Rightarrow> 'c threads \<Rightarrow> thread_ptr option" where
  "Thread_GetThis tid s = t_thread s tid"

definition Thread_GetName :: "int \<Rightarrow> 'c threads \<Rightarrow> string" where
  "Thread_GetName tid s = t_thread_name s tid"

definition Thread_SetName :: "int \<Rightarrow> string \<Rightarrow> 'c threads \<Rightarrow> 'c threads res" where
  "Thread_SetName tid name s =
     bindE (case t_thread s tid of
              None \<Rightarrow> Inr s
            | Some p \<Rightarrow>
                if life s p = Gone then Inl (NullDeref ''t_thread'') else Inr (set_thread p (\<lambda>t. t\<lparr>th_name := name\<rparr>) s)) (\<lambda>s1.
     Inr (s1\<lparr>t_thread_name := (t_thread_name s1)(tid := name)\<rparr>))"

text \<open>The constructor up to the wait: \<open>rt\<close> and \<open>handle\<close> are what \<^verbatim>\<open>pthread_create\<close> gives back.\<close>

definition new_Thread :: "int \<Rightarrow> u64 \<Rightarrow> 'c option \<Rightarrow> string \<Rightarrow> 'c threads \<Rightarrow> (thread_ptr \<times> 'c threads) res" where
  "new_Thread rt handle cb name s =
     (let p = next_thread s;
          t = \<lparr>th_id = - 1, m_thread = handle, th_cb = cb, th_name = (if name = [] then ''UNKNOW'' else name), th_semaphore = 0\<rparr>
      in if rt \<noteq> 0 then Inl (Thrown ''pthread_create error'')
         else Inr (p, s\<lparr>th_objs := (th_objs s)(p := t), next_thread := Suc p, life := (life s)(p := Constructing), begun := (begun s)(p := False)\<rparr>))"

text \<open>
  The wait: \<open>None\<close> while the semaphore is 0. An exception leaves the constructor and ends the object.
\<close>

definition new_Thread_wait :: "bool \<Rightarrow> thread_ptr \<Rightarrow> 'c threads \<Rightarrow> 'c threads option" where
  "new_Thread_wait interrupted p s =
     (case Semaphore_wait interrupted (th_semaphore (th_objs s p)) of
        Inl e \<Rightarrow> Some (s\<lparr>life := (life s)(p := Gone)\<rparr>)
      | Inr None \<Rightarrow> None
      | Inr (Some v) \<Rightarrow> Some ((set_thread p (\<lambda>t. t\<lparr>th_semaphore := v\<rparr>) s)\<lparr>life := (life s)(p := Alive)\<rparr>))"

text \<open>\<^verbatim>\<open>Thread::run\<close> up to the call of the callback, which is returned; \<open>tid\<close> is the kernel's identifier of the new thread.\<close>

definition Thread_run :: "int \<Rightarrow> thread_ptr \<Rightarrow> 'c threads \<Rightarrow> ('c option \<times> 'c threads) res" where
  "Thread_run tid p s =
     (if life s p = Gone then Inl (NullDeref ''thread'')
      else
        let s1 = s\<lparr>t_thread := (t_thread s)(tid \<mapsto> p), t_thread_name := (t_thread_name s)(tid := th_name (th_objs s p))\<rparr>;
            cb = th_cb (th_objs s p);
            s2 = set_thread p (\<lambda>t. t\<lparr>th_id := tid, th_cb := None\<rparr>) s1
        in bindE (Semaphore_notify (th_semaphore (th_objs s2 p))) (\<lambda>v.
           Inr (cb, (set_thread p (\<lambda>t. t\<lparr>th_semaphore := v\<rparr>) s2)\<lparr>begun := (begun s2)(p := True)\<rparr>)))"

definition Thread_join :: "int \<Rightarrow> thread_ptr \<Rightarrow> 'c threads \<Rightarrow> 'c threads res" where
  "Thread_join rt p s =
     (if m_thread (th_objs s p) \<noteq> 0 then
        if rt \<noteq> 0 then Inl (Thrown ''pthread_join error'') else Inr (set_thread p (\<lambda>t. t\<lparr>m_thread := 0\<rparr>) s)
      else Inr s)"

text \<open>The destructor, with whether it detaches the thread.\<close>

definition delete_Thread :: "thread_ptr \<Rightarrow> 'c threads \<Rightarrow> bool \<times> 'c threads" where
  "delete_Thread p s = (m_thread (th_objs s p) \<noteq> 0, s\<lparr>life := (life s)(p := Gone)\<rparr>)"

section \<open>Executions\<close>

text \<open>
  Threads run in any order. The kernel gives a new thread an identifier that no other has. Only live objects are used by the program: a
  failure in a step is the end of it.
\<close>

inductive thread_step :: "'c threads \<Rightarrow> 'c threads \<Rightarrow> bool" where
  t_new: "new_Thread rt handle (Some cb) name s = Inr (p, s') \<Longrightarrow> thread_step s s'"
| t_run: "p < next_thread s \<Longrightarrow> \<not> begun s p \<Longrightarrow> t_thread s tid = None \<Longrightarrow> Thread_run tid p s = Inr (cb, s') \<Longrightarrow> thread_step s s'"
| t_wait: "p < next_thread s \<Longrightarrow> life s p = Constructing \<Longrightarrow> new_Thread_wait interrupted p s = Some s' \<Longrightarrow> thread_step s s'"
| t_join: "p < next_thread s \<Longrightarrow> life s p = Alive \<Longrightarrow> Thread_join rt p s = Inr s' \<Longrightarrow> thread_step s s'"
| t_delete: "p < next_thread s \<Longrightarrow> life s p = Alive \<Longrightarrow> thread_step s (snd (delete_Thread p s))"
| t_name: "Thread_SetName tid name s = Inr s' \<Longrightarrow> thread_step s s'"

text \<open>An object whose thread has not begun still has its callback; one whose thread has begun belongs to that thread.\<close>

definition thread_ok :: "'c threads \<Rightarrow> thread_ptr \<Rightarrow> bool" where
  "thread_ok s p \<longleftrightarrow>
     (life s p = Constructing \<longrightarrow> th_semaphore (th_objs s p) = (if begun s p then 1 else 0)) \<and>
     (life s p = Alive \<longrightarrow> begun s p) \<and>
     (life s p \<noteq> Gone \<and> \<not> begun s p \<longrightarrow> th_cb (th_objs s p) \<noteq> None \<and> th_id (th_objs s p) = - 1) \<and>
     (life s p \<noteq> Gone \<and> begun s p \<longrightarrow> th_cb (th_objs s p) = None \<and>
        t_thread s (th_id (th_objs s p)) = Some p \<and> t_thread_name s (th_id (th_objs s p)) = th_name (th_objs s p))"

definition threads_inv :: "'c threads \<Rightarrow> bool" where
  "threads_inv s \<longleftrightarrow> (\<forall>p < next_thread s. thread_ok s p) \<and>
     (\<forall>tid p. t_thread s tid = Some p \<longrightarrow> p < next_thread s \<and> begun s p \<and> (life s p \<noteq> Gone \<longrightarrow> th_id (th_objs s p) = tid))"

lemma thread_ok_same:
  assumes "th_objs s' p = th_objs s p" "life s' p = life s p" "begun s' p = begun s p"
    and "begun s p \<and> life s p \<noteq> Gone \<longrightarrow> t_thread s' (th_id (th_objs s p)) = t_thread s (th_id (th_objs s p)) \<and>
      t_thread_name s' (th_id (th_objs s p)) = t_thread_name s (th_id (th_objs s p))"
  shows "thread_ok s' p = thread_ok s p"
  using assms by (auto simp: thread_ok_def)

lemma threads_inv_run:
  assumes "threads_inv s" and "p < next_thread s" and "\<not> begun s p" and "t_thread s tid = None" and "Thread_run tid p s = Inr (cb, s')"
  shows "threads_inv s' \<and> cb = th_cb (th_objs s p) \<and> life s' p = Constructing"
proof -
  have ok: "thread_ok s p" using assms(1,2) by (simp add: threads_inv_def)
  have live: "life s p = Constructing" "th_semaphore (th_objs s p) = 0"
    using assms(3,5) ok by (cases "life s p"; simp add: thread_ok_def Thread_run_def)+
  have s': "th_objs s' = (th_objs s)(p := (th_objs s p)\<lparr>th_id := tid, th_cb := None, th_semaphore := 1\<rparr>)" "life s' = life s"
    "begun s' = (begun s)(p := True)" "t_thread s' = (t_thread s)(tid \<mapsto> p)" "next_thread s' = next_thread s"
    "t_thread_name s' = (t_thread_name s)(tid := th_name (th_objs s p))" "cb = th_cb (th_objs s p)"
    using assms(5) live by (auto simp: Thread_run_def set_thread_def Semaphore_notify_def SEM_VALUE_MAX_def bindE_eq_Inr Let_def)
  have "thread_ok s' p" using live by (simp add: thread_ok_def s')
  moreover have "thread_ok s' q" if "q \<noteq> p" "q < next_thread s" for q
  proof -
    have "thread_ok s q" using assms(1) that(2) by (simp add: threads_inv_def)
    moreover have "thread_ok s' q = thread_ok s q"
      using that(1) calculation assms(4) by (intro thread_ok_same) (auto simp: s' thread_ok_def)
    ultimately show ?thesis by simp
  qed
  ultimately have "\<forall>q < next_thread s'. thread_ok s' q" using s'(5) by metis
  moreover have "q < next_thread s' \<and> begun s' q \<and> (life s' q \<noteq> Gone \<longrightarrow> th_id (th_objs s' q) = t)" if "t_thread s' t = Some q" for t q
    using that assms(1-3) by (auto simp: s' threads_inv_def split: if_splits)
  ultimately show ?thesis using live(1) by (simp add: threads_inv_def s'(2,7))
qed

lemma threads_inv_name:
  assumes "threads_inv s" and "Thread_SetName tid name s = Inr s'"
  shows "threads_inv s'"
proof -
  let ?objs = "case t_thread s tid of None \<Rightarrow> th_objs s | Some p \<Rightarrow> (th_objs s)(p := (th_objs s p)\<lparr>th_name := name\<rparr>)"
  have s': "th_objs s' = ?objs" "life s' = life s" "begun s' = begun s" "t_thread s' = t_thread s" "next_thread s' = next_thread s"
    "t_thread_name s' = (t_thread_name s)(tid := name)"
    using assms(2) by (auto simp: Thread_SetName_def set_thread_def bindE_eq_Inr split: option.splits if_splits)
  have id: "th_id (th_objs s' q) = th_id (th_objs s q)" for q by (auto simp: s'(1) split: option.splits)
  have "thread_ok s' q" if "q < next_thread s" for q
  proof (cases "t_thread s tid = Some q")
    case True
    with assms(1) that have "thread_ok s q" "life s q \<noteq> Gone \<longrightarrow> th_id (th_objs s q) = tid" by (auto simp: threads_inv_def)
    with True show ?thesis by (auto simp: thread_ok_def s')
  next
    case False
    with assms(1) that have "thread_ok s q" by (simp add: threads_inv_def)
    moreover have "thread_ok s' q = thread_ok s q"
      using False calculation by (intro thread_ok_same) (auto simp: s' thread_ok_def split: option.splits)
    ultimately show ?thesis by simp
  qed
  then show ?thesis using assms(1) by (auto simp: threads_inv_def s'(2-5) id)
qed

lemma threads_inv_update:
  assumes "threads_inv s" and "p < next_thread s" and "thread_ok s' p" and "\<forall>q. q \<noteq> p \<longrightarrow> th_objs s' q = th_objs s q \<and> life s' q = life s q"
    and "th_id (th_objs s' p) = th_id (th_objs s p)" and "life s' p \<noteq> Gone \<longrightarrow> life s p \<noteq> Gone"
    and "begun s' = begun s" "t_thread s' = t_thread s" "t_thread_name s' = t_thread_name s" "next_thread s' = next_thread s"
  shows "threads_inv s'"
proof -
  have "thread_ok s' q" if "q < next_thread s" for q
  proof (cases "q = p")
    case False
    with assms that have "thread_ok s' q = thread_ok s q" by (intro thread_ok_same) simp_all
    with assms(1) that show ?thesis by (simp add: threads_inv_def)
  qed (simp add: assms(3))
  moreover have "th_id (th_objs s' q) = th_id (th_objs s q)" for q using assms(4,5) by (cases "q = p") simp_all
  moreover have "life s' q \<noteq> Gone \<longrightarrow> life s q \<noteq> Gone" for q using assms(4,6) by (cases "q = p") simp_all
  ultimately show ?thesis using assms(1,7-10) by (simp add: threads_inv_def)
qed

lemma threads_inv_new:
  assumes "threads_inv s" and "new_Thread rt handle (Some cb) name s = Inr (p, s')"
  shows "threads_inv s'"
proof -
  have s': "p = next_thread s" "next_thread s' = Suc p" "life s' = (life s)(p := Constructing)" "begun s' = (begun s)(p := False)"
    "t_thread s' = t_thread s" "t_thread_name s' = t_thread_name s" "\<forall>q. q \<noteq> p \<longrightarrow> th_objs s' q = th_objs s q"
    "th_id (th_objs s' p) = - 1" "th_cb (th_objs s' p) = Some cb" "th_semaphore (th_objs s' p) = 0"
    using assms(2) by (auto simp: new_Thread_def Let_def split: if_splits)
  have "thread_ok s' q" if "q < next_thread s'" for q
  proof (cases "q = p")
    case False
    then have "thread_ok s' q = thread_ok s q" by (intro thread_ok_same) (simp_all add: s')
    moreover have "q < next_thread s" using that False s'(1,2) by simp
    ultimately show ?thesis using assms(1) by (simp add: threads_inv_def)
  qed (use s' in \<open>simp add: thread_ok_def\<close>)
  moreover have "q < next_thread s' \<and> begun s' q \<and> (life s' q \<noteq> Gone \<longrightarrow> th_id (th_objs s' q) = t)" if "t_thread s' t = Some q" for t q
    using that assms(1) by (auto simp: s' threads_inv_def intro: less_SucI)
  ultimately show ?thesis by (simp add: threads_inv_def)
qed

lemma threads_inv_step: "thread_step s s' \<Longrightarrow> threads_inv s \<Longrightarrow> threads_inv s'"
proof (induction rule: thread_step.induct)
  case (t_wait p s interrupted s')
  then have "thread_ok s p" by (simp add: threads_inv_def)
  with t_wait show ?case
    by (intro threads_inv_update [OF t_wait(4,1)])
      (auto simp: new_Thread_wait_def Semaphore_wait_def set_thread_def thread_ok_def split: if_splits)
next
  case (t_join p s rt s')
  then have "thread_ok s p" by (simp add: threads_inv_def)
  with t_join show ?case
    by (intro threads_inv_update [OF t_join(4,1)]) (auto simp: Thread_join_def set_thread_def thread_ok_def split: if_splits)
next
  case (t_delete p s)
  then show ?case by (intro threads_inv_update [OF t_delete(3,1)]) (auto simp: delete_Thread_def thread_ok_def)
qed (auto dest: threads_inv_new threads_inv_run threads_inv_name)

lemma threads_inv_init: "threads_inv no_threads"
  by (simp add: threads_inv_def no_threads_def)

interpretation thr: inductive_invariant "\<lambda>s. s = no_threads" thread_step threads_inv
  by unfold_locales (auto intro: threads_inv_init threads_inv_step)

section \<open>Properties\<close>



text \<open>
  Two ways to reach an object that is gone. When a signal interrupts the wait, the constructor throws although the thread was created, and
  that thread then works on the destroyed object. When an object is destroyed without a join, its thread is detached but keeps its
  pointer, and \<open>SetName\<close> of that thread writes to the destroyed object.
\<close>

theorem thread_object_gone:
  assumes "reachable (\<lambda>s. s = no_threads) thread_step s" and "p < next_thread s"
  shows "(life s p = Constructing \<and> \<not> begun s p \<longrightarrow>
      (\<exists>s'. new_Thread_wait True p s = Some s' \<and> Thread_run tid p s' = Inl (NullDeref ''thread''))) \<and>
    (life s p = Alive \<longrightarrow> Thread_SetName (th_id (th_objs s p)) name (snd (delete_Thread p s)) = Inl (NullDeref ''t_thread''))"
proof -
  have "thread_ok s p" using thr.reachable_inv [OF assms(1)] assms(2) by (simp add: threads_inv_def)
  then show ?thesis
    by (auto simp: thread_ok_def new_Thread_wait_def Semaphore_wait_def Thread_run_def Thread_SetName_def delete_Thread_def)
qed

end
