(* ===== verification/Pool.thy ===== *)
theory Pool
  imports Thread
begin

text \<open>
  \<^verbatim>\<open>Scheduler::start\<close> and \<^verbatim>\<open>Scheduler::stop\<close> down to the \<^verbatim>\<open>Thread\<close> objects. The theory of the scheduler keeps the vector
  \<^verbatim>\<open>m_threads\<close> as the list of the identifiers of its threads; here it is the vector of (shared) pointers the code has, the
  objects are those of the theory of threads, and every constructor call can fail. The outcome of an operation is given with the
  state it leaves, because an exception leaves the half-filled vector behind.
\<close>

section \<open>The constructor of a thread\<close>

text \<open>
  What the kernel does for one constructor call: the result of \<^verbatim>\<open>pthread_create\<close>, the handle, the identifier of the new thread, and
  whether a signal interrupts the wait before the new thread has begun.
\<close>

record spawn =
  sp_rt :: int
  sp_handle :: u64
  sp_tid :: int
  sp_interrupted :: bool

definition waited :: "bool \<Rightarrow> thread_ptr \<Rightarrow> 'c threads \<Rightarrow> 'c threads" where
  "waited interrupted p t = (case new_Thread_wait interrupted p t of Some t' \<Rightarrow> t' | None \<Rightarrow> t)"

text \<open>The whole constructor, with \<^verbatim>\<open>Thread::run\<close> of the new thread up to its \<^verbatim>\<open>notify\<close>.\<close>

definition construct_Thread :: "spawn \<Rightarrow> 'c option \<Rightarrow> string \<Rightarrow> 'c threads \<Rightarrow> thread_ptr res \<times> 'c threads" where
  "construct_Thread e cb name t =
     (case new_Thread (sp_rt e) (sp_handle e) cb name t of
        Inl err \<Rightarrow> (Inl err, t)
      | Inr (p, t1) \<Rightarrow>
          if sp_interrupted e then (Inl (Thrown ''sem_wait error''), waited True p t1)
          else (case Thread_run (sp_tid e) p t1 of
                  Inl err \<Rightarrow> (Inl err, t1)
                | Inr (c, t2) \<Rightarrow> (Inr p, waited False p t2)))"

section \<open>The scheduler with its threads\<close>

record 'c pool = "'c sched" +
  thrs :: "thread_ptr option list"
  world :: "'c threads"

text \<open>The constructor on a thread with identifier \<open>tid\<close>: it also names that thread when it becomes a thread of the scheduler.\<close>

definition new_Pool ::
  "u32 \<Rightarrow> nat \<Rightarrow> bool \<Rightarrow> string \<Rightarrow> sched_ptr \<Rightarrow> 'c \<Rightarrow> thread_id \<Rightarrow> tls \<Rightarrow> 'c fiber_mem \<Rightarrow> 'c threads \<Rightarrow> (tls \<times> 'c pool) res" where
  "new_Pool fiber_stack_size threads use_caller name this run tid l m t =
     bindE (new_Scheduler fiber_stack_size threads use_caller name this run tid l m) (\<lambda>(l1, s).
     bindE (if use_caller then Thread_SetName tid (m_name s) t else Inr t) (\<lambda>t1.
     Inr (l1, sched.extend s (pool.fields [] t1))))"

text \<open>The loop of \<open>start\<close> over the indices; \<open>run\<close> is \<^verbatim>\<open>std::bind(&Scheduler::run, this)\<close>.\<close>

fun start_loop :: "(nat \<Rightarrow> spawn) \<Rightarrow> 'c \<Rightarrow> nat list \<Rightarrow> 'c pool \<Rightarrow> unit res \<times> 'c pool" where
  "start_loop env run [] s = (Inr (), s)"
| "start_loop env run (i # is) s =
     (case construct_Thread (env i) (Some run) (m_name s @ ''_'' @ show_nat i) (world s) of
        (Inl e, t) \<Rightarrow> (Inl e, s\<lparr>world := t\<rparr>)
      | (Inr p, t) \<Rightarrow>
          start_loop env run is
            (s\<lparr>world := t, thrs := (thrs s)[i := Some p], m_threadIds := m_threadIds s @ [th_id (th_objs t p)]\<rparr>))"

definition Pool_start :: "(nat \<Rightarrow> spawn) \<Rightarrow> 'c \<Rightarrow> 'c pool \<Rightarrow> unit res \<times> 'c pool" where
  "Pool_start env run s =
     (if \<not> m_stopping s then (Inr (), s)
      else
        let s1 = s\<lparr>m_stopping := False\<rparr>
        in if thrs s1 \<noteq> [] then (Inl (AssertFail ''m_threads.empty()''), s1)
           else start_loop env run [0..<m_threadCount s1] (s1\<lparr>thrs := replicate (m_threadCount s1) None\<rparr>))"

text \<open>The loop that joins the threads: \<open>rt\<close> are the results of \<^verbatim>\<open>pthread_join\<close>.\<close>

fun join_all :: "(thread_ptr \<Rightarrow> int) \<Rightarrow> thread_ptr option list \<Rightarrow> 'c threads \<Rightarrow> 'c threads res" where
  "join_all rt [] t = Inr t"
| "join_all rt (p # ps) t = bindE (deref p ''i->join()'') (\<lambda>q. bindE (Thread_join (rt q) q t) (join_all rt ps))"

text \<open>The local vector goes out of scope: its objects are destroyed; the value says which threads that detaches.\<close>

fun drop_all :: "thread_ptr option list \<Rightarrow> 'c threads \<Rightarrow> bool list \<times> 'c threads" where
  "drop_all [] t = ([], t)"
| "drop_all (None # ps) t = drop_all ps t"
| "drop_all (Some p # ps) t =
     (let (detached, t1) = delete_Thread p t; (ds, t2) = drop_all ps t1 in (detached # ds, t2))"

definition Pool_stop ::
  "(thread_ptr \<Rightarrow> int) \<Rightarrow> ('c pool \<Rightarrow> 'c pool) \<Rightarrow> ('c pool \<Rightarrow> bool \<times> 'c pool) \<Rightarrow> ('c pool \<Rightarrow> 'c pool res) \<Rightarrow> sched_ptr \<Rightarrow> tls \<Rightarrow>
   'c pool \<Rightarrow> (bool list \<times> 'c pool) res" where
  "Pool_stop rt tickle stopping call_root this l s =
     bindE (stop_begin tickle stopping call_root this l s) (\<lambda>(returned, s1).
     if returned then Inr ([], s1)
     else
       let ts = thrs s1
       in bindE (join_all rt ts (world s1)) (\<lambda>t.
          let (ds, t1) = drop_all ts t in Inr (ds, s1\<lparr>thrs := [], world := t1\<rparr>)))"

section \<open>Lemmas\<close>

text \<open>A call whose system calls succeed and whose thread gets an identifier no thread has.\<close>

definition spawn_ok :: "spawn \<Rightarrow> 'c threads \<Rightarrow> bool" where
  "spawn_ok e t \<longleftrightarrow> sp_rt e = 0 \<and> \<not> sp_interrupted e \<and> t_thread t (sp_tid e) = None"

text \<open>The object at \<open>p\<close> is the running thread \<open>tid\<close>.\<close>

definition runs_as :: "thread_ptr \<Rightarrow> int \<Rightarrow> string \<Rightarrow> 'c threads \<Rightarrow> bool" where
  "runs_as p tid name t \<longleftrightarrow> p < next_thread t \<and> life t p = Alive \<and> begun t p \<and> th_id (th_objs t p) = tid \<and>
     th_name (th_objs t p) = name \<and> th_cb (th_objs t p) = None \<and>
     Thread_GetThis tid t = Some p \<and> Thread_GetName tid t = name"

lemma construct_Thread_ok:
  assumes "spawn_ok e t" and "name \<noteq> []"
  shows "\<exists>t'. construct_Thread e (Some cb) name t = (Inr (next_thread t), t') \<and> runs_as (next_thread t) (sp_tid e) name t' \<and>
    m_thread (th_objs t' (next_thread t)) = sp_handle e \<and> next_thread t' = Suc (next_thread t) \<and>
    t_thread t' = (t_thread t)(sp_tid e \<mapsto> next_thread t) \<and>
    (\<forall>q tid nm. q < next_thread t \<and> tid \<noteq> sp_tid e \<and> runs_as q tid nm t \<longrightarrow> runs_as q tid nm t' \<and> th_objs t' q = th_objs t q)"
  using assms
  by (simp add: construct_Thread_def new_Thread_def Thread_run_def waited_def new_Thread_wait_def set_thread_def
      Semaphore_notify_def Semaphore_wait_def SEM_VALUE_MAX_def spawn_ok_def runs_as_def Thread_GetThis_def Thread_GetName_def Let_def)

abbreviation worker_name :: "'c pool \<Rightarrow> nat \<Rightarrow> string" where
  "worker_name s i \<equiv> m_name s @ ''_'' @ show_nat i"

abbreviation spawn_tids :: "(nat \<Rightarrow> spawn) \<Rightarrow> nat \<Rightarrow> nat \<Rightarrow> int list" where
  "spawn_tids env i j \<equiv> map (\<lambda>i. sp_tid (env i)) [i..<j]"

definition spawns_ok :: "(nat \<Rightarrow> spawn) \<Rightarrow> nat \<Rightarrow> nat \<Rightarrow> 'c threads \<Rightarrow> bool" where
  "spawns_ok env i j t \<longleftrightarrow> distinct (spawn_tids env i j) \<and> (\<forall>x \<in> {i..<j}. spawn_ok (env x) t)"

text \<open>The loop of \<open>start\<close> over the indices from \<open>i\<close> to \<open>j\<close>: the new objects in order, each a running thread with its name.\<close>

definition started :: "(nat \<Rightarrow> spawn) \<Rightarrow> nat \<Rightarrow> nat \<Rightarrow> 'c pool \<Rightarrow> 'c pool \<Rightarrow> bool" where
  "started env i j s s' \<longleftrightarrow>
     sched.truncate s' = sched.truncate (s\<lparr>m_threadIds := m_threadIds s @ spawn_tids env i j\<rparr>) \<and>
     thrs s' = take i (thrs s) @ map Some [next_thread (world s)..<next_thread (world s) + (j - i)] @ drop j (thrs s) \<and>
     next_thread (world s') = next_thread (world s) + (j - i) \<and>
     (\<forall>x < j - i. runs_as (next_thread (world s) + x) (sp_tid (env (i + x))) (worker_name s (i + x)) (world s')) \<and>
     (\<forall>q tid nm. q < next_thread (world s) \<and> tid \<notin> set (spawn_tids env i j) \<and> runs_as q tid nm (world s) \<longrightarrow>
        runs_as q tid nm (world s')) \<and>
     (\<forall>tid. tid \<notin> set (spawn_tids env i j) \<longrightarrow> t_thread (world s') tid = t_thread (world s) tid)"

lemma started_Cons:
  assumes "started env (Suc i) j (s\<lparr>world := t, thrs := (thrs s)[i := Some nt], m_threadIds := m_threadIds s @ [sp_tid (env i)]\<rparr>) s'"
    and nt: "nt = next_thread (world s)" "next_thread t = Suc nt" and "i < j" and "j \<le> length (thrs s)"
    and run: "runs_as nt (sp_tid (env i)) (worker_name s i) t" and "sp_tid (env i) \<notin> set (spawn_tids env (Suc i) j)"
    and old: "\<forall>q tid nm. q < nt \<and> tid \<noteq> sp_tid (env i) \<and> runs_as q tid nm (world s) \<longrightarrow> runs_as q tid nm t"
    and "t_thread t = (t_thread (world s))(sp_tid (env i) \<mapsto> nt)"
  shows "started env i j s s'"
proof -
  note st = assms(1) [unfolded started_def]
  have list: "[nt..<nt + (j - i)] = nt # [Suc nt..<Suc nt + (j - Suc i)]" "spawn_tids env i j = sp_tid (env i) # spawn_tids env (Suc i) j"
    using assms(4) by (simp_all add: upt_conv_Cons Suc_diff_Suc)
  have take: "take (Suc i) ((thrs s)[i := Some nt]) = take i (thrs s) @ [Some nt]"
    using assms(4,5) by (simp add: take_Suc_conv_app_nth)
  have drop: "drop j ((thrs s)[i := Some nt]) = drop j (thrs s)" using assms(4) by simp
  have vec: "thrs s' = take (Suc i) ((thrs s)[i := Some nt]) @ map Some [next_thread t..<next_thread t + (j - Suc i)] @
      drop j ((thrs s)[i := Some nt])" using st by simp
  have "runs_as nt (sp_tid (env i)) (worker_name s i) (world s')"
    using st run assms(7) nt by auto
  moreover have "runs_as (Suc nt + x) (sp_tid (env (Suc i + x))) (worker_name s (Suc i + x)) (world s')" if "x < j - Suc i" for x
    using st nt(2) that by auto
  ultimately have all: "runs_as (nt + x) (sp_tid (env (i + x))) (worker_name s (i + x)) (world s')" if "x < j - i" for x
    using that by (cases x) auto
  have keep: "runs_as q tid nm (world s')" if "q < nt" "tid \<notin> set (spawn_tids env i j)" "runs_as q tid nm (world s)" for q tid nm
  proof -
    have "runs_as q tid nm t" using old that by (simp add: list(2))
    then show ?thesis using st that nt(2) by (auto simp: list(2))
  qed
  have "sched.truncate s' = sched.truncate (s\<lparr>m_threadIds := m_threadIds s @ spawn_tids env i j\<rparr>)"
    using conjunct1 [OF st] by (simp add: list(2) sched.truncate_def)
  moreover have "thrs s' = take i (thrs s) @ map Some [nt..<nt + (j - i)] @ drop j (thrs s)"
    using vec drop unfolding list(1) by (simp only: take nt(2) append_assoc append.simps list.map)
  moreover have "next_thread (world s') = nt + (j - i)" using st nt(2) assms(4) by simp
  moreover have "\<forall>tid. tid \<notin> set (spawn_tids env i j) \<longrightarrow> t_thread (world s') tid = t_thread (world s) tid"
    using st assms(9) by (simp add: list(2))
  ultimately show ?thesis using all keep unfolding started_def nt(1) by (intro conjI) auto
qed

lemma start_loop_ok:
  assumes "i \<le> j" and "j \<le> length (thrs s)" and "spawns_ok env i j (world s)"
  shows "\<exists>s'. start_loop env run [i..<j] s = (Inr (), s') \<and> started env i j s s'"
  using assms
proof (induction "j - i" arbitrary: i s)
  case 0
  then show ?case by (auto simp: started_def)
next
  case (Suc n)
  then have lt: "i < j" and n: "n = j - Suc i" by simp_all
  let ?nt = "next_thread (world s)"
  have "spawn_ok (env i) (world s)" using Suc.prems(3) lt by (simp add: spawns_ok_def)
  then obtain t where t: "construct_Thread (env i) (Some run) (worker_name s i) (world s) = (Inr ?nt, t)"
      "runs_as ?nt (sp_tid (env i)) (worker_name s i) t" "next_thread t = Suc ?nt" "t_thread t = (t_thread (world s))(sp_tid (env i) \<mapsto> ?nt)"
      "\<forall>q tid nm. q < ?nt \<and> tid \<noteq> sp_tid (env i) \<and> runs_as q tid nm (world s) \<longrightarrow> runs_as q tid nm t"
    using construct_Thread_ok [of "env i" "world s" "worker_name s i" run] by auto
  let ?s1 = "s\<lparr>world := t, thrs := (thrs s)[i := Some ?nt], m_threadIds := m_threadIds s @ [sp_tid (env i)]\<rparr>"
  have step: "start_loop env run [i..<j] s = start_loop env run [Suc i..<j] ?s1"
    using t(1,2) lt by (simp add: upt_conv_Cons runs_as_def)
  have ne: "sp_tid (env i) \<notin> set (spawn_tids env (Suc i) j)" "distinct (spawn_tids env (Suc i) j)"
    using Suc.prems(3) lt by (simp_all add: spawns_ok_def upt_conv_Cons)
  have "spawn_ok (env x) t" if "x \<in> {Suc i..<j}" for x
  proof -
    have "spawn_ok (env x) (world s)" using Suc.prems(3) that by (simp add: spawns_ok_def)
    moreover have "sp_tid (env x) \<noteq> sp_tid (env i)" using ne(1) that by (metis image_eqI set_map set_upt)
    ultimately show ?thesis by (simp add: spawn_ok_def t(4))
  qed
  with ne(2) have "spawns_ok env (Suc i) j (world ?s1)" by (simp add: spawns_ok_def)
  then obtain s' where s': "start_loop env run [Suc i..<j] ?s1 = (Inr (), s')" "started env (Suc i) j ?s1 s'"
    using Suc.hyps(1) [of "Suc i" ?s1] n Suc.prems lt by auto
  have "started env i j s s'"
    by (rule started_Cons [OF s'(2) _ _ lt]) (use t ne(1) Suc.prems(2) lt in auto)
  with step s'(1) show ?case by auto
qed

lemma start_loop_append:
  "start_loop env run (xs @ ys) s =
    (case start_loop env run xs s of (Inl e, s') \<Rightarrow> (Inl e, s') | (Inr u, s') \<Rightarrow> start_loop env run ys s')"
  by (induction env run xs s rule: start_loop.induct) (simp_all split: prod.split sum.split)

lemma join_all_ok:
  assumes "\<forall>p. rt p = 0"
  shows "\<exists>t'. join_all rt (map Some ps) t = Inr t' \<and> life t' = life t \<and> next_thread t' = next_thread t \<and>
    (\<forall>p. m_thread (th_objs t' p) = (if p \<in> set ps then 0 else m_thread (th_objs t p)))"
proof (induction ps arbitrary: t)
  case (Cons p ps)
  let ?t1 = "if m_thread (th_objs t p) \<noteq> 0 then set_thread p (\<lambda>t. t\<lparr>m_thread := 0\<rparr>) t else t"
  have "Thread_join (rt p) p t = Inr ?t1" using assms by (simp add: Thread_join_def)
  with Cons [of ?t1] show ?case by (auto simp: set_thread_def)
qed simp

lemma join_all_null:
  assumes "\<forall>p. rt p = 0"
  shows "join_all rt (map Some ps @ None # qs) t = Inl (NullDeref ''i->join()'')"
  using assms by (induction ps arbitrary: t) (simp_all add: Thread_join_def)

lemma drop_all_joined:
  assumes "\<forall>p \<in> set ps. m_thread (th_objs t p) = 0"
  shows "drop_all (map Some ps) t = (replicate (length ps) False, t\<lparr>life := (\<lambda>p. if p \<in> set ps then Gone else life t p)\<rparr>)"
  using assms
proof (induction ps arbitrary: t)
  case (Cons p ps)
  let ?t1 = "t\<lparr>life := (life t)(p := Gone)\<rparr>"
  have "drop_all (map Some ps) ?t1 = (replicate (length ps) False, ?t1\<lparr>life := (\<lambda>q. if q \<in> set ps then Gone else life ?t1 q)\<rparr>)"
    using Cons.prems by (intro Cons.IH) simp
  moreover have "(\<lambda>q. if q \<in> set ps then Gone else life ?t1 q) = (\<lambda>q. if q \<in> set (p # ps) then Gone else life t q)" by auto
  moreover have "delete_Thread p t = (False, ?t1)" using Cons.prems by (simp add: delete_Thread_def)
  ultimately show ?case by simp
qed (simp add: fun_eq_iff)

text \<open>A new object is ready for \<open>start\<close>; the thread of the caller, when used, counts as one and has the name of the scheduler.\<close>

lemma new_Pool_ready:
  assumes "new_Pool dflt threads use_caller name this run tid l m t = Inr (l1, s)"
  shows "m_stopping s \<and> thrs s = [] \<and> m_name s = name \<and> m_threadCount s + of_bool use_caller = threads \<and>
    (use_caller \<longrightarrow> m_rootThread s = tid \<and> Thread_GetName tid (world s) = name \<and> t_scheduler l1 = Some this)"
  using assms
  by (auto simp: new_Pool_def new_Scheduler_def sched.extend_def pool.fields_def Thread_SetName_def Thread_GetName_def
      bindE_eq_Inr Let_def split: if_splits prod.splits)

section \<open>Properties\<close>

text \<open>The scheduler as the theory of the scheduler has it: the identifiers for the pointers.\<close>

definition pool_abs :: "'c pool \<Rightarrow> 'c sched" where
  "pool_abs s = (sched.truncate s)\<lparr>m_threads := map (\<lambda>p. th_id (th_objs (world s) (the p))) (thrs s)\<rparr>"

lemma Pool_start_ok:
  assumes "m_stopping s" and "thrs s = []" and "spawns_ok env 0 (m_threadCount s) (world s)"
  shows "\<exists>s'. Pool_start env run s = (Inr (), s') \<and> \<not> m_stopping s' \<and>
    started env 0 (m_threadCount s) (s\<lparr>m_stopping := False, thrs := replicate (m_threadCount s) None\<rparr>) s'"
proof -
  let ?s1 = "s\<lparr>m_stopping := False, thrs := replicate (m_threadCount s) None\<rparr>"
  obtain s' where s': "start_loop env run [0..<m_threadCount s] ?s1 = (Inr (), s')" "started env 0 (m_threadCount s) ?s1 s'"
    using start_loop_ok [of 0 "m_threadCount s" ?s1 env run] assms(3) by auto
  then have "\<not> m_stopping s'"
    using truncate_eqD(5) [of s' "?s1\<lparr>m_threadIds := m_threadIds ?s1 @ spawn_tids env 0 (m_threadCount s)\<rparr>"] by (simp add: started_def)
  then show ?thesis using s' assms(1,2) by (simp add: Pool_start_def)
qed

lemma Pool_stop_joined:
  assumes "\<forall>p. rt p = 0" and "stop_begin tickle stopping call_root this l s1 = Inr (False, s2)" and "thrs s2 = map Some ps"
  shows "\<exists>s3. Pool_stop rt tickle stopping call_root this l s1 = Inr (replicate (length ps) False, s3) \<and> thrs s3 = [] \<and>
    (\<forall>p \<in> set ps. m_thread (th_objs (world s3) p) = 0 \<and> life (world s3) p = Gone)"
proof -
  obtain t where t: "join_all rt (map Some ps) (world s2) = Inr t" "\<forall>p \<in> set ps. m_thread (th_objs t p) = 0"
    using join_all_ok [OF assms(1), of ps "world s2"] by auto
  then show ?thesis using assms(2,3) drop_all_joined [OF t(2)] by (simp add: Pool_stop_def)
qed

text \<open>
  C22. The threads of a scheduler from \<open>start\<close> to \<open>stop\<close>: when the system calls succeed and the kernel gives each thread a new
  identifier, \<open>start\<close> on \<^verbatim>\<open>Thread\<close> objects implements \<open>start\<close> on identifiers (on every path, the assertion included): it creates \<open>m_threadCount\<close>
  threads, the \<open>i\<close>-th entry of the vector is the object of a running thread with the \<open>i\<close>-th identifier and the name of the scheduler with
  the suffix \<open>_i\<close>, and when it returns each of them has taken over its callback. A \<open>stop\<close> that reaches the end joins every one of them
  before the objects are destroyed, so that no thread is detached.
\<close>

theorem pool_lifecycle:
  assumes "spawns_ok env 0 (m_threadCount s) (world s)"
  shows "(case Pool_start env run s of (Inl e, s') \<Rightarrow> Inl e | (Inr u, s') \<Rightarrow> Inr (pool_abs s')) = start (\<lambda>i. sp_tid (env i)) (pool_abs s) \<and>
    (m_stopping s \<and> thrs s = [] \<longrightarrow> (\<exists>s'. Pool_start env run s = (Inr (), s') \<and> length (thrs s') = m_threadCount s \<and>
      (\<forall>i < m_threadCount s. \<exists>p. thrs s' ! i = Some p \<and> runs_as p (sp_tid (env i)) (m_name s @ ''_'' @ show_nat i) (world s')) \<and>
      (\<forall>rt tickle stopping call_root this l s1 s2. (\<forall>p. rt p = 0) \<and>
        stop_begin tickle stopping call_root this l s1 = Inr (False, s2) \<and> thrs s2 = thrs s' \<longrightarrow>
        (\<exists>s3. Pool_stop rt tickle stopping call_root this l s1 = Inr (replicate (m_threadCount s) False, s3) \<and> thrs s3 = [] \<and>
          (\<forall>i < m_threadCount s. life (world s3) (the (thrs s' ! i)) = Gone)))))"
proof (cases "m_stopping s \<and> thrs s = []")
  case False
  then show ?thesis by (auto simp: Pool_start_def start_def pool_abs_def sched.truncate_def Let_def)
next
  case True
  let ?n = "m_threadCount s" and ?p = "next_thread (world s)"
  obtain s' where s': "Pool_start env run s = (Inr (), s')"
    and st: "started env 0 ?n (s\<lparr>m_stopping := False, thrs := replicate ?n None\<rparr>) s'"
    using Pool_start_ok [OF _ _ assms] True by blast
  have vec: "thrs s' = map Some [?p..<?p + ?n]" and runs: "\<And>i. i < ?n \<Longrightarrow> runs_as (?p + i) (sp_tid (env i)) (worker_name s i) (world s')"
    and tr: "sched.truncate s' = sched.truncate (s\<lparr>m_stopping := False, m_threadIds := m_threadIds s @ spawn_tids env 0 ?n\<rparr>)"
    using st by (simp_all add: started_def sched.truncate_def)
  have "th_id (th_objs (world s') (?p + i)) = sp_tid (env i)" if "i < ?n" for i using runs [OF that] by (simp add: runs_as_def)
  then have ids: "map (\<lambda>p. th_id (th_objs (world s') (the p))) (thrs s') = spawn_tids env 0 ?n"
    by (simp add: vec list_eq_iff_nth_eq)
  have "start (\<lambda>i. sp_tid (env i)) (pool_abs s) = Inr (pool_abs s')"
    using True tr ids by (simp add: start_def pool_abs_def sched.truncate_def Let_def)
  moreover have "\<exists>s3. Pool_stop rt tickle stopping call_root this l s1 = Inr (replicate ?n False, s3) \<and> thrs s3 = [] \<and>
      (\<forall>i < ?n. life (world s3) (the (thrs s' ! i)) = Gone)"
    if "\<forall>p. rt p = 0" "stop_begin tickle stopping call_root this l s1 = Inr (False, s2)" "thrs s2 = thrs s'"
    for rt tickle stopping call_root this l s1 s2
    using Pool_stop_joined [OF that(1,2), of "[?p..<?p + ?n]"] that(3) by (auto simp: vec)
  ultimately show ?thesis using s' runs by (auto simp: vec)
qed

text \<open>
  C31. A failed \<^verbatim>\<open>pthread_create\<close> in \<open>start\<close>: the exception leaves \<open>m_stopping\<close> false and null pointers in the vector. The threads started
  before keep running, a second \<open>start\<close> returns without an error and creates nothing, the destructor aborts, and
  \<open>stop\<close> calls \<open>join\<close> through the null pointer.
\<close>

theorem start_failure:
  assumes "m_stopping s" and "thrs s = []" and "k < m_threadCount s" and "spawns_ok env 0 k (world s)" and "sp_rt (env k) \<noteq> 0"
  shows "\<exists>s'. Pool_start env run s = (Inl (Thrown ''pthread_create error''), s') \<and>
    (\<forall>i < k. \<exists>p. thrs s' ! i = Some p \<and> runs_as p (sp_tid (env i)) (m_name s @ ''_'' @ show_nat i) (world s')) \<and>
    Pool_start env' run s' = (Inr (), s') \<and> delete_Scheduler this l s' = Inl (AssertFail ''m_stopping'') \<and>
    (\<forall>rt tickle stopping call_root this l s1 s2. (\<forall>p. rt p = 0) \<and>
      stop_begin tickle stopping call_root this l s1 = Inr (False, s2) \<and> thrs s2 = thrs s' \<longrightarrow>
      Pool_stop rt tickle stopping call_root this l s1 = Inl (NullDeref ''i->join()''))"
proof -
  let ?s1 = "s\<lparr>m_stopping := False, thrs := replicate (m_threadCount s) None\<rparr>" and ?p = "next_thread (world s)"
  obtain s' where s': "start_loop env run [0..<k] ?s1 = (Inr (), s')" "started env 0 k ?s1 s'"
    using start_loop_ok [of 0 k ?s1 env run] assms(3,4) by auto
  have ns: "\<not> m_stopping s'"
    using s'(2) truncate_eqD(5) [of s' "?s1\<lparr>m_threadIds := m_threadIds ?s1 @ spawn_tids env 0 k\<rparr>"] by (simp add: started_def)
  have vec: "thrs s' = map Some [?p..<?p + k] @ None # replicate (m_threadCount s - Suc k) None"
    and runs: "\<And>i. i < k \<Longrightarrow> runs_as (?p + i) (sp_tid (env i)) (worker_name s i) (world s')"
    using s'(2) assms(3) by (simp_all add: started_def Suc_diff_Suc flip: replicate_Suc)
  have "start_loop env run [k..<m_threadCount s] s' = (Inl (Thrown ''pthread_create error''), s')"
    using assms(3,5) by (simp add: upt_conv_Cons construct_Thread_def new_Thread_def Let_def)
  moreover have "[0..<m_threadCount s] = [0..<k] @ [k..<m_threadCount s]" using assms(3) upt_add_eq_append [of 0 k "m_threadCount s - k"] by simp
  ultimately have "start_loop env run [0..<m_threadCount s] ?s1 = (Inl (Thrown ''pthread_create error''), s')"
    using s'(1) by (simp add: start_loop_append)
  then have "Pool_start env run s = (Inl (Thrown ''pthread_create error''), s')" using assms(1,2) by (simp add: Pool_start_def)
  moreover have "Pool_stop rt tickle stopping call_root this l s1 = Inl (NullDeref ''i->join()'')"
    if "\<forall>p. rt p = 0" "stop_begin tickle stopping call_root this l s1 = Inr (False, s2)" "thrs s2 = thrs s'"
    for rt tickle stopping call_root this l s1 s2
  proof -
    have "join_all rt (thrs s2) (world s2) = Inl (NullDeref ''i->join()'')"
      unfolding that(3) vec by (rule join_all_null [OF that(1)])
    then show ?thesis using that(2) by (simp add: Pool_stop_def)
  qed
  ultimately show ?thesis
    using ns runs by (intro exI [of _ s'] conjI) (auto simp: Pool_start_def delete_Scheduler_def vec nth_append)
qed

definition demo_pool :: "string pool" where
  "demo_pool = \<lparr>mem = \<lparr>fibers = \<lambda>_. \<lparr>m_id = 0, m_stacksize = 0, m_state = EXEC, m_ctx = Captured, m_stack = False, m_fiber_cb = None\<rparr>,
       next_fiber = 0, s_fiber_id = 0, s_fiber_count = 0\<rparr>,
     m_threads = [], m_fibers = [], m_rootFiber = None, m_name = ''io'', m_threadIds = [], m_threadCount = 2, m_activeThreadCount = 0,
     m_idleThreadCount = 0, m_stopping = True, m_autoStop = False, m_rootThread = - 1, thrs = [], world = no_threads\<rparr>"

theorem pool_lifecycle_witness:
  "\<exists>s' p. Pool_start (\<lambda>i. \<lparr>sp_rt = 0, sp_handle = 7, sp_tid = 100 + int i, sp_interrupted = False\<rparr>) ''run'' demo_pool = (Inr (), s') \<and>
     thrs s' ! 1 = Some p \<and> runs_as p 101 ''io_1'' (world s')"
proof -
  let ?env = "\<lambda>i. \<lparr>sp_rt = 0, sp_handle = 7, sp_tid = 100 + int i, sp_interrupted = False\<rparr>"
  have ok: "spawns_ok ?env 0 (m_threadCount demo_pool) (world demo_pool)"
    by (simp add: spawns_ok_def spawn_ok_def demo_pool_def no_threads_def distinct_map inj_on_def)
  have "m_stopping demo_pool \<and> thrs demo_pool = []" "m_threadCount demo_pool = 2" "m_name demo_pool = ''io''"
    by (simp_all add: demo_pool_def)
  moreover have "show_nat 1 = ''1''" by code_simp
  ultimately show ?thesis using pool_lifecycle [OF ok, of "''run''", THEN conjunct2] by (auto dest: spec [of _ 1])
qed

theorem start_failure_witness:
  "\<exists>s'. Pool_start (\<lambda>i. \<lparr>sp_rt = (if i = 1 then 11 else 0), sp_handle = 7, sp_tid = 100 + int i, sp_interrupted = False\<rparr>) ''run'' demo_pool =
       (Inl (Thrown ''pthread_create error''), s') \<and> delete_Scheduler 9 new_tls s' = Inl (AssertFail ''m_stopping'')"
proof -
  let ?env = "\<lambda>i. \<lparr>sp_rt = (if i = 1 then 11 else 0), sp_handle = 7, sp_tid = 100 + int i, sp_interrupted = False\<rparr>"
  have "spawns_ok ?env 0 1 (world demo_pool)"
    by (simp add: spawns_ok_def spawn_ok_def demo_pool_def no_threads_def)
  from start_failure [OF _ _ _ this, of "''run''" ?env 9 new_tls] show ?thesis by (auto simp: demo_pool_def)
qed

end
