(* ===== verification/Util.thy ===== *)
theory Util
  imports Fiber "HOL-Library.Signed_Division"
begin

text \<open>
  \<^verbatim>\<open>sylar/util.h\<close> and \<^verbatim>\<open>sylar/util.cpp\<close>: the clock in milliseconds and microseconds and the text of a backtrace. What \<^verbatim>\<open>gettimeofday\<close> and
  \<^verbatim>\<open>backtrace_symbols\<close> return are arguments.
\<close>

section \<open>Clock\<close>

record timeval =
  tv_sec :: int
  tv_usec :: int

text \<open>The first is computed in \<^verbatim>\<open>long long\<close>, the second in \<^verbatim>\<open>unsigned long\<close>; both are returned as \<^verbatim>\<open>uint64_t\<close>.\<close>

definition GetCurrentMS :: "timeval \<Rightarrow> u64" where
  "GetCurrentMS tv = word_of_int (tv_sec tv * 1000 + tv_usec tv sdiv 1000)"

definition GetCurrentUS :: "timeval \<Rightarrow> u64" where
  "GetCurrentUS tv = word_of_int (tv_sec tv * 1000) * 1000 + word_of_int (tv_usec tv)"

text \<open>What \<^verbatim>\<open>gettimeofday\<close> gives until the microseconds no longer fit.\<close>

definition clock_ok :: "timeval \<Rightarrow> bool" where
  "clock_ok tv \<longleftrightarrow> 0 \<le> tv_sec tv \<and> tv_sec tv < 2 ^ 44 \<and> 0 \<le> tv_usec tv \<and> tv_usec tv < 1000000"

section \<open>Identifiers\<close>

text \<open>\<^verbatim>\<open>GetFiberId\<close> returns the 64-bit identifier of the fiber as a \<^verbatim>\<open>uint32_t\<close>.\<close>

definition Util_GetFiberId :: "tls \<Rightarrow> 'c fiber_mem \<Rightarrow> u32" where
  "Util_GetFiberId l m = ucast (GetFiberId l m)"

section \<open>Backtraces\<close>

text \<open>\<open>None\<close>: \<^verbatim>\<open>backtrace_symbols\<close> failed. The loop starts at \<^verbatim>\<open>skip\<close> converted to \<^verbatim>\<open>size_t\<close>.\<close>

definition Backtrace :: "string list option \<Rightarrow> int \<Rightarrow> string list \<Rightarrow> string list" where
  "Backtrace strings skip bt =
     (case strings of None \<Rightarrow> bt | Some ss \<Rightarrow> bt @ drop (unat (word_of_int skip :: u64)) ss)"

definition BacktraceToString :: "string list option \<Rightarrow> int \<Rightarrow> string \<Rightarrow> string" where
  "BacktraceToString strings skip prefix = concat (map (\<lambda>l. l @ [CHR 0x0A]) (Backtrace strings skip []))"

section \<open>Properties\<close>

text \<open>
  The two clocks agree: in the range of \<^verbatim>\<open>gettimeofday\<close>, the milliseconds are the microseconds divided by 1000, and neither wraps.
\<close>

theorem clocks_agree:
  assumes "clock_ok tv"
  shows "GetCurrentMS tv = GetCurrentUS tv div 1000 \<and> uint (GetCurrentUS tv) = tv_sec tv * 1000000 + tv_usec tv"
proof -
  have r: "0 \<le> tv_sec tv * 1000000 + tv_usec tv" "tv_sec tv * 1000000 + tv_usec tv < 2 ^ 64"
    using assms by (auto simp: clock_ok_def)
  have us: "GetCurrentUS tv = word_of_int (tv_sec tv * 1000000 + tv_usec tv)"
    by (simp add: GetCurrentUS_def wi_hom_add [symmetric] wi_hom_mult [symmetric])
  have u: "uint (GetCurrentUS tv) = tv_sec tv * 1000000 + tv_usec tv"
    unfolding us uint_word_of_int_eq using r by (simp add: take_bit_int_eq_self_iff)
  have sdiv: "tv_usec tv sdiv 1000 = tv_usec tv div 1000" using assms by (cases "tv_usec tv = 0") (auto simp: clock_ok_def signed_divide_int_def)
  have "uint (GetCurrentUS tv div 1000) = (tv_sec tv * 1000000 + tv_usec tv) div 1000" unfolding uint_div u by simp
  also have "\<dots> = tv_sec tv * 1000 + tv_usec tv div 1000"
    using div_mult_self1 [of 1000 "tv_usec tv" "tv_sec tv * 1000"] by (simp add: algebra_simps)
  finally have "GetCurrentUS tv div 1000 = GetCurrentMS tv" unfolding GetCurrentMS_def sdiv by (metis word_of_int_uint)
  with u show ?thesis by simp
qed

text \<open>The fiber identifier of a log line is that of the fiber below \<open>2\<^sup>32\<close>, and only its lower half from there on.\<close>

lemma fiber_id_truncated: "unat (Util_GetFiberId l m) = unat (GetFiberId l m) mod 2 ^ 32"
  by (simp add: Util_GetFiberId_def unsigned_ucast_eq take_bit_eq_mod)

text \<open>The prefix for each line is not used, and a negative \<^verbatim>\<open>skip\<close> skips everything.\<close>

theorem backtrace_prefix_ignored: "BacktraceToString strings skip prefix = BacktraceToString strings skip []"
  by (simp add: BacktraceToString_def)

theorem backtrace_skips:
  assumes "0 \<le> skip" and "skip < 2 ^ 31"
  shows "Backtrace (Some ss) skip bt = bt @ drop (nat skip) ss"
proof -
  have "uint (word_of_int skip :: u64) = skip" using assms by (simp add: uint_word_of_int_eq take_bit_int_eq_self_iff)
  then show ?thesis by (simp add: Backtrace_def unat_eq_nat_uint)
qed

end
