(* ===== verification/Std_Set.thy ===== *)
theory Std_Set
  imports Sylar_Prelude
begin

text \<open>
  The part of \<^verbatim>\<open>std::set<T, Compare>\<close> the framework uses, over an explicit comparison function:
  the set is the list of its elements in iteration order. \<open>strict_total_order\<close> is what a set asks
  of its comparison; the lemmas about the operations are proved once from it.
\<close>

section \<open>Operations\<close>

fun std_insert :: "('a \<Rightarrow> 'a \<Rightarrow> bool) \<Rightarrow> 'a \<Rightarrow> 'a list \<Rightarrow> 'a list" where
  "std_insert lt x [] = [x]"
| "std_insert lt x (y # ys) =
     (if lt x y then x # y # ys
      else if lt y x then y # std_insert lt x ys
      else y # ys)"

text \<open>The suffix that starts at the iterator \<^verbatim>\<open>find\<close> returns; \<open>[]\<close> is \<^verbatim>\<open>end()\<close>.\<close>

fun std_find :: "('a \<Rightarrow> 'a \<Rightarrow> bool) \<Rightarrow> 'a \<Rightarrow> 'a list \<Rightarrow> 'a list" where
  "std_find lt x [] = []"
| "std_find lt x (y # ys) =
     (if \<not> lt x y \<and> \<not> lt y x then y # ys else std_find lt x ys)"

text \<open>The suffix that starts at \<^verbatim>\<open>lower_bound(x)\<close>: the first element not less than \<open>x\<close>.\<close>

definition std_lower_bound :: "('a \<Rightarrow> 'a \<Rightarrow> bool) \<Rightarrow> 'a \<Rightarrow> 'a list \<Rightarrow> 'a list" where
  "std_lower_bound lt x ys = dropWhile (\<lambda>y. lt y x) ys"

text \<open>
  \<^verbatim>\<open>erase(it)\<close>, with the iterator given as the suffix it points at; erasing \<^verbatim>\<open>end()\<close> is
  undefined.
\<close>

definition std_erase :: "'a list \<Rightarrow> 'a list \<Rightarrow> 'a list res" where
  "std_erase it ys =
     (case it of
        [] \<Rightarrow> Inl (BadIterator ''erase(end())'')
      | _ # rest \<Rightarrow> Inr (take (length ys - length it) ys @ rest))"

text \<open>The elements of the range \<^verbatim>\<open>[begin(), it)\<close>.\<close>

definition std_before :: "'a list \<Rightarrow> 'a list \<Rightarrow> 'a list" where
  "std_before it ys = take (length ys - length it) ys"

section \<open>Laws\<close>

locale strict_total_order =
  fixes lt :: "'a \<Rightarrow> 'a \<Rightarrow> bool"
  assumes irrefl [simp]: "\<not> lt x x"
    and trans: "lt x y \<Longrightarrow> lt y z \<Longrightarrow> lt x z"
    and total: "x \<noteq> y \<Longrightarrow> lt x y \<or> lt y x"
begin

lemma asym: "lt x y \<Longrightarrow> \<not> lt y x"
  using irrefl trans by blast

lemma equiv_iff_eq: "\<not> lt x y \<and> \<not> lt y x \<longleftrightarrow> x = y"
  using total irrefl by blast

lemma sorted_distinct: "sorted_wrt lt xs \<Longrightarrow> distinct xs"
  by (induction xs) auto

lemma set_std_insert: "set (std_insert lt x xs) = insert x (set xs)"
proof (induction xs)
  case (Cons y ys)
  then show ?case using total [of x y] by auto
qed simp

lemma sorted_std_insert: "sorted_wrt lt xs \<Longrightarrow> sorted_wrt lt (std_insert lt x xs)"
proof (induction xs)
  case (Cons y ys)
  then show ?case
    using trans by (auto simp: set_std_insert)
qed simp

lemma std_insert_present: "sorted_wrt lt xs \<Longrightarrow> x \<in> set xs \<Longrightarrow> std_insert lt x xs = xs"
proof (induction xs)
  case (Cons y ys)
  then show ?case using asym by auto
qed simp

lemma hd_std_insert:
  "sorted_wrt lt xs \<Longrightarrow>
   (hd (std_insert lt x xs) = x) = (\<forall>y \<in> set xs. y = x \<or> lt x y)"
proof (cases xs)
  case (Cons y ys)
  assume s: "sorted_wrt lt xs"
  show ?thesis
  proof (cases "lt x y")
    case True
    with s Cons show ?thesis using trans by auto
  next
    case False
    with s Cons show ?thesis using total [of x y] asym by auto
  qed
qed simp

lemma std_find_nil_iff: "std_find lt x xs = [] \<longleftrightarrow> x \<notin> set xs"
  by (induction xs) (auto simp: equiv_iff_eq)

lemma std_find_cons:
  "x \<in> set xs \<Longrightarrow> \<exists>pre rest. xs = pre @ x # rest \<and> std_find lt x xs = x # rest \<and> x \<notin> set pre"
proof (induction xs)
  case (Cons y ys)
  show ?case
  proof (cases "x = y")
    case True
    then show ?thesis by (intro exI [of _ "[]"] exI [of _ ys]) auto
  next
    case False
    with Cons obtain pre rest
      where "ys = pre @ x # rest" "std_find lt x ys = x # rest" "x \<notin> set pre" by auto
    with False show ?thesis
      using equiv_iff_eq [of x y] by (intro exI [of _ "y # pre"] exI [of _ rest]) auto
  qed
qed simp

lemma std_erase_find:
  assumes "x \<in> set xs" and "distinct xs"
  shows "std_erase (std_find lt x xs) xs = Inr (remove1 x xs)"
proof -
  obtain pre rest where xs: "xs = pre @ x # rest" "std_find lt x xs = x # rest" "x \<notin> set pre"
    using std_find_cons [OF assms(1)] by blast
  then show ?thesis by (simp add: std_erase_def remove1_append)
qed

lemma sorted_remove1: "sorted_wrt lt xs \<Longrightarrow> sorted_wrt lt (remove1 x xs)"
  by (induction xs) (auto dest: notin_set_remove1)

lemma lower_bound_split:
  "xs = takeWhile (\<lambda>y. lt y x) xs @ std_lower_bound lt x xs"
  by (simp add: std_lower_bound_def)

end

text \<open>Two comparisons that agree on the elements give the same set.\<close>

lemma sorted_wrt_cong_on:
  "(\<And>x y. x \<in> set xs \<Longrightarrow> y \<in> set xs \<Longrightarrow> lt x y = lt' x y) \<Longrightarrow> sorted_wrt lt xs = sorted_wrt lt' xs"
  by (induction xs) auto

lemma std_before_append [simp]: "std_before ys (xs @ ys) = xs"
  by (simp add: std_before_def)

end
