(* ===== verification/Timer.thy ===== *)
theory Timer
  imports Std_Set
begin

text \<open>
  \<^verbatim>\<open>sylar/timer.h\<close> and \<^verbatim>\<open>sylar/timer.cpp\<close>: timers and the timer manager. Timer objects live in a heap
  indexed by their address; the manager keeps the addresses in a \<^verbatim>\<open>std::set\<close> ordered by
  \<open>Comparator\<close>. The clock (\<^verbatim>\<open>sylar::GetCurrentMS\<close>) is read once per operation and is an argument
  \<open>now\<close>; the address a \<^verbatim>\<open>new Timer\<close> returns is an argument as well. \<open>onTimerInsertedAtFront\<close> is
  virtual: an operation that may call it returns whether it did. Each operation that holds
  \<^verbatim>\<open>m_mutex\<close> throughout is one function; \<open>listExpiredCb\<close> releases it in between and is also given
  as its two critical sections.
\<close>

section \<open>Data\<close>

type_synonym timer_ptr = nat
type_synonym weak_ptr = nat

text \<open>
  A \<^verbatim>\<open>std::function<void()>\<close> is \<open>None\<close> when empty. \<open>BindOnTimer\<close> is
  \<^verbatim>\<open>std::bind(&OnTimer, weak_cond, cb)\<close>.
\<close>

datatype 'c callback = Callback 'c | BindOnTimer weak_ptr "'c callback option"

record 'c timer =
  m_recurring :: bool
  m_ms :: u64
  m_next :: u64
  m_timer_cb :: "'c callback option"

record 'c timer_manager =
  timer_heap :: "timer_ptr \<Rightarrow> 'c timer"
  m_timers :: "timer_ptr list"
  m_tickled :: bool
  m_previouseTime :: u64

section \<open>Operations\<close>

definition Comparator :: "(timer_ptr \<Rightarrow> 'c timer) \<Rightarrow> timer_ptr option \<Rightarrow> timer_ptr option \<Rightarrow> bool" where
  "Comparator h lhs rhs =
     (case lhs of
        None \<Rightarrow> (case rhs of None \<Rightarrow> False | Some r \<Rightarrow> True)
      | Some l \<Rightarrow>
         (case rhs of
            None \<Rightarrow> False
          | Some r \<Rightarrow>
              if m_next (h l) < m_next (h r) then True
              else if m_next (h r) < m_next (h l) then False
              else l < r))"

abbreviation timer_lt :: "(timer_ptr \<Rightarrow> 'c timer) \<Rightarrow> timer_ptr \<Rightarrow> timer_ptr \<Rightarrow> bool" where
  "timer_lt h l r \<equiv> Comparator h (Some l) (Some r)"

text \<open>The two constructors of \<^verbatim>\<open>Timer\<close>.\<close>

definition new_Timer :: "u64 \<Rightarrow> 'c callback option \<Rightarrow> bool \<Rightarrow> u64 \<Rightarrow> 'c timer" where
  "new_Timer ms cb recurring now =
     \<lparr>m_recurring = recurring, m_ms = ms, m_next = now + ms, m_timer_cb = cb\<rparr>"

definition new_Timer_at :: "u64 \<Rightarrow> 'c timer" where
  "new_Timer_at next = \<lparr>m_recurring = False, m_ms = 0, m_next = next, m_timer_cb = None\<rparr>"

definition new_TimerManager :: "u64 \<Rightarrow> 'c timer_manager" where
  "new_TimerManager now =
     \<lparr>timer_heap = (\<lambda>_. new_Timer_at 0), m_timers = [], m_tickled = False, m_previouseTime = now\<rparr>"

definition set_timer :: "timer_ptr \<Rightarrow> 'c timer \<Rightarrow> 'c timer_manager \<Rightarrow> 'c timer_manager" where
  "set_timer p t tm = tm\<lparr>timer_heap := (timer_heap tm)(p := t)\<rparr>"

text \<open>\<^verbatim>\<open>TimerManager::addTimer(Timer::ptr val, WriteLock& lock)\<close>: the result says whether
  \<open>onTimerInsertedAtFront\<close> is called.\<close>

definition addTimer_locked :: "timer_ptr \<Rightarrow> 'c timer_manager \<Rightarrow> bool \<times> 'c timer_manager" where
  "addTimer_locked val tm =
     (let timers = std_insert (timer_lt (timer_heap tm)) val (m_timers tm);
          at_front = (take 1 timers = [val] \<and> \<not> m_tickled tm)
      in (at_front,
          tm\<lparr>m_timers := timers, m_tickled := (if at_front then True else m_tickled tm)\<rparr>))"

definition addTimer ::
  "u64 \<Rightarrow> 'c callback option \<Rightarrow> bool \<Rightarrow> u64 \<Rightarrow> timer_ptr \<Rightarrow> 'c timer_manager \<Rightarrow> bool \<times> 'c timer_manager" where
  "addTimer ms cb recurring now p tm =
     addTimer_locked p (set_timer p (new_Timer ms cb recurring now) tm)"

text \<open>
  \<^verbatim>\<open>OnTimer\<close>: what running a callback does, given which weak pointers can still be locked and
  what the user's functions do to the world. Calling an empty function throws.
\<close>

fun run_callback ::
  "('w \<Rightarrow> weak_ptr \<Rightarrow> bool) \<Rightarrow> ('c \<Rightarrow> 'w \<Rightarrow> 'w res) \<Rightarrow> 'c callback \<Rightarrow> 'w \<Rightarrow> 'w res" where
  "run_callback alive user (Callback c) w = user c w"
| "run_callback alive user (BindOnTimer weak_cond cb) w =
     (if alive w weak_cond
      then (case cb of None \<Rightarrow> Inl (Thrown ''bad_function_call'') | Some f \<Rightarrow> run_callback alive user f w)
      else Inr w)"

definition addConditionTimer ::
  "u64 \<Rightarrow> 'c callback option \<Rightarrow> weak_ptr \<Rightarrow> bool \<Rightarrow> u64 \<Rightarrow> timer_ptr \<Rightarrow> 'c timer_manager \<Rightarrow>
   bool \<times> 'c timer_manager" where
  "addConditionTimer ms cb weak_cond recurring now p tm =
     addTimer ms (Some (BindOnTimer weak_cond cb)) recurring now p tm"

definition cancel :: "timer_ptr \<Rightarrow> 'c timer_manager \<Rightarrow> (bool \<times> 'c timer_manager) res" where
  "cancel self tm =
     (if m_timer_cb (timer_heap tm self) \<noteq> None then
        let tm1 = set_timer self ((timer_heap tm self)\<lparr>m_timer_cb := None\<rparr>) tm;
            it = std_find (timer_lt (timer_heap tm1)) self (m_timers tm1)
        in bindE (std_erase it (m_timers tm1)) (\<lambda>ts. Inr (True, tm1\<lparr>m_timers := ts\<rparr>))
      else Inr (False, tm))"

definition refresh :: "u64 \<Rightarrow> timer_ptr \<Rightarrow> 'c timer_manager \<Rightarrow> (bool \<times> 'c timer_manager) res" where
  "refresh now self tm =
     (if m_timer_cb (timer_heap tm self) = None then Inr (False, tm)
      else
        let it = std_find (timer_lt (timer_heap tm)) self (m_timers tm)
        in if it = [] then Inr (False, tm)
           else bindE (std_erase it (m_timers tm)) (\<lambda>ts.
             let t = timer_heap tm self;
                 tm1 = set_timer self (t\<lparr>m_next := now + m_ms t\<rparr>) (tm\<lparr>m_timers := ts\<rparr>)
             in Inr (True, tm1\<lparr>m_timers := std_insert (timer_lt (timer_heap tm1)) self (m_timers tm1)\<rparr>)))"

text \<open>\<^verbatim>\<open>Timer::reset\<close>: the result of the call, whether \<open>onTimerInsertedAtFront\<close> is called, the state.\<close>

definition reset ::
  "u64 \<Rightarrow> bool \<Rightarrow> u64 \<Rightarrow> timer_ptr \<Rightarrow> 'c timer_manager \<Rightarrow> (bool \<times> bool \<times> 'c timer_manager) res" where
  "reset ms from_now now self tm =
     (if ms = m_ms (timer_heap tm self) \<and> \<not> from_now then Inr (True, False, tm)
      else if m_timer_cb (timer_heap tm self) = None then Inr (False, False, tm)
      else
        let it = std_find (timer_lt (timer_heap tm)) self (m_timers tm)
        in if it = [] then Inr (False, False, tm)
           else bindE (std_erase it (m_timers tm)) (\<lambda>ts.
             let t = timer_heap tm self;
                 start = (if from_now then now else m_next t - m_ms t);
                 tm1 = set_timer self (t\<lparr>m_ms := ms, m_next := start + ms\<rparr>) (tm\<lparr>m_timers := ts\<rparr>);
                 (at_front, tm2) = addTimer_locked self tm1
             in Inr (True, at_front, tm2)))"

definition getNextTimer :: "u64 \<Rightarrow> 'c timer_manager \<Rightarrow> u64 \<times> 'c timer_manager" where
  "getNextTimer now_ms tm =
     (let tm1 = tm\<lparr>m_tickled := False\<rparr>
      in case m_timers tm of
           [] \<Rightarrow> (- 1, tm1)
         | next # _ \<Rightarrow>
             if m_next (timer_heap tm next) \<le> now_ms then (0, tm1)
             else (m_next (timer_heap tm next) - now_ms, tm1))"

definition detectClockRollover :: "u64 \<Rightarrow> 'c timer_manager \<Rightarrow> bool \<times> 'c timer_manager" where
  "detectClockRollover now_ms tm =
     (now_ms < m_previouseTime tm \<and> now_ms < m_previouseTime tm - 60 * 60 * 1000,
      tm\<lparr>m_previouseTime := now_ms\<rparr>)"

definition hasTimer :: "'c timer_manager \<Rightarrow> bool" where
  "hasTimer tm = (m_timers tm \<noteq> [])"

text \<open>The iterator \<open>it\<close> of \<open>listExpiredCb\<close> after its loop, as the suffix it points at; \<open>q\<close> is the
  address of \<open>now_timer\<close>.\<close>

definition expired_end :: "bool \<Rightarrow> u64 \<Rightarrow> timer_ptr \<Rightarrow> (timer_ptr \<Rightarrow> 'c timer) \<Rightarrow> timer_ptr list \<Rightarrow> timer_ptr list" where
  "expired_end rollover now_ms q h ts =
     dropWhile (\<lambda>p. m_next (h p) = now_ms)
       (if rollover then [] else std_lower_bound (timer_lt (h(q := new_Timer_at now_ms))) q ts)"

text \<open>The loop over \<open>expired\<close> at the end of \<open>listExpiredCb\<close>: what it does to one timer, and the loop.\<close>

definition fire_one :: "u64 \<Rightarrow> timer_ptr \<Rightarrow> 'c timer_manager \<Rightarrow> 'c timer_manager" where
  "fire_one now_ms p tm =
     (let t = timer_heap tm p
      in if m_recurring t then
           let tm1 = set_timer p (t\<lparr>m_next := now_ms + m_ms t\<rparr>) tm
           in tm1\<lparr>m_timers := std_insert (timer_lt (timer_heap tm1)) p (m_timers tm1)\<rparr>
         else set_timer p (t\<lparr>m_timer_cb := None\<rparr>) tm)"

fun fire_expired ::
  "u64 \<Rightarrow> timer_ptr list \<Rightarrow> 'c callback option list \<Rightarrow> 'c timer_manager \<Rightarrow>
   'c callback option list \<times> 'c timer_manager" where
  "fire_expired now_ms [] cbs tm = (cbs, tm)"
| "fire_expired now_ms (p # ps) cbs tm =
     fire_expired now_ms ps (cbs @ [m_timer_cb (timer_heap tm p)]) (fire_one now_ms p tm)"

text \<open>The two critical sections of \<open>listExpiredCb\<close>: the test under the read lock and the rest
  under the write lock.\<close>

definition listExpired_check :: "'c timer_manager \<Rightarrow> bool" where
  "listExpired_check tm = (m_timers tm \<noteq> [])"

definition listExpired_locked ::
  "u64 \<Rightarrow> timer_ptr \<Rightarrow> 'c callback option list \<Rightarrow> 'c timer_manager \<Rightarrow>
   ('c callback option list \<times> 'c timer_manager) res" where
  "listExpired_locked now_ms q cbs tm =
     (let (rollover, tm1) = detectClockRollover now_ms tm
      in if \<not> rollover \<and> m_timers tm1 = [] then Inl (BadIterator ''*m_timers.begin()'')
         else if \<not> rollover \<and> now_ms < m_next (timer_heap tm1 (hd (m_timers tm1))) then Inr (cbs, tm1)
         else
           let it = expired_end rollover now_ms q (timer_heap tm1) (m_timers tm1);
               expired = std_before it (m_timers tm1)
           in Inr (fire_expired now_ms expired cbs (tm1\<lparr>m_timers := it\<rparr>)))"

definition listExpiredCb ::
  "u64 \<Rightarrow> timer_ptr \<Rightarrow> 'c callback option list \<Rightarrow> 'c timer_manager \<Rightarrow>
   ('c callback option list \<times> 'c timer_manager) res" where
  "listExpiredCb now_ms q cbs tm =
     (if listExpired_check tm then listExpired_locked now_ms q cbs tm else Inr (cbs, tm))"

section \<open>The order of timers\<close>

lemma Comparator_null [simp]:
  "Comparator h None None = False"
  "Comparator h None (Some r) = True"
  "Comparator h (Some l) None = False"
  by (simp_all add: Comparator_def)

lemma timer_lt_iff:
  "timer_lt h l r \<longleftrightarrow> m_next (h l) < m_next (h r) \<or> (m_next (h l) = m_next (h r) \<and> l < r)"
  by (auto simp: Comparator_def)

interpretation cmp: strict_total_order "timer_lt h" for h :: "timer_ptr \<Rightarrow> 'c timer"
  by unfold_locales (auto simp: timer_lt_iff)

text \<open>The comparison is one on all shared pointers, null ones included.\<close>

interpretation nullable: strict_total_order "Comparator h" for h :: "timer_ptr \<Rightarrow> 'c timer"
proof unfold_locales
  fix x y z :: "timer_ptr option"
  show "\<not> Comparator h x x"
    by (cases x) simp_all
  show "Comparator h x z" if "Comparator h x y" "Comparator h y z"
    using that cmp.trans by (cases x; cases y; cases z) auto
  show "Comparator h x y \<or> Comparator h y x" if "x \<noteq> y"
    using that cmp.total by (cases x; cases y) auto
qed

lemma timer_lt_update_same_next [simp]:
  "m_next t = m_next (h p) \<Longrightarrow> timer_lt (h(p := t)) = timer_lt h"
  by (intro ext) (auto simp: timer_lt_iff)

lemma sorted_update_fresh:
  "p \<notin> set ts \<Longrightarrow> sorted_wrt (timer_lt (h(p := t))) ts = sorted_wrt (timer_lt h) ts"
  by (rule sorted_wrt_cong_on) (auto simp: timer_lt_iff)

lemma sorted_head_le:
  "sorted_wrt (timer_lt h) (t # ts) \<Longrightarrow> p \<in> set (t # ts) \<Longrightarrow> m_next (h t) \<le> m_next (h p)"
  by (auto simp: timer_lt_iff)

section \<open>Invariant\<close>

text \<open>
  The set is ordered (hence duplicate free), and a timer that still has its callback is in it.
  \<open>cancel\<close> relies on the latter: it erases what \<open>find\<close> returned without a test.
\<close>

definition tm_inv :: "'c timer_manager \<Rightarrow> bool" where
  "tm_inv tm \<longleftrightarrow>
     sorted_wrt (timer_lt (timer_heap tm)) (m_timers tm) \<and>
     (\<forall>p. m_timer_cb (timer_heap tm p) \<noteq> None \<longrightarrow> p \<in> set (m_timers tm))"

lemma tm_invD:
  assumes "tm_inv tm"
  shows "sorted_wrt (timer_lt (timer_heap tm)) (m_timers tm)"
    and "distinct (m_timers tm)"
    and "m_timer_cb (timer_heap tm p) \<noteq> None \<Longrightarrow> p \<in> set (m_timers tm)"
  using assms cmp.sorted_distinct by (auto simp: tm_inv_def)

lemma tm_inv_new: "tm_inv (new_TimerManager now)"
  by (simp add: tm_inv_def new_TimerManager_def new_Timer_at_def)

lemma tm_inv_addTimer_locked:
  assumes "sorted_wrt (timer_lt (timer_heap tm)) (m_timers tm)"
    and "\<And>p. m_timer_cb (timer_heap tm p) \<noteq> None \<Longrightarrow> p = val \<or> p \<in> set (m_timers tm)"
    and "addTimer_locked val tm = (front, tm')"
  shows "tm_inv tm'"
  using assms
  by (auto simp: tm_inv_def addTimer_locked_def Let_def cmp.sorted_std_insert cmp.set_std_insert)

lemma tm_inv_addTimer:
  assumes "tm_inv tm" and "p \<notin> set (m_timers tm)" and "addTimer ms cb rec now p tm = (front, tm')"
  shows "tm_inv tm'"
  using assms(3) unfolding addTimer_def
  by (rule tm_inv_addTimer_locked [rotated 2])
     (use assms in \<open>auto simp: set_timer_def sorted_update_fresh tm_inv_def split: if_splits\<close>)

lemma cancel_eq:
  assumes "tm_inv tm"
  shows "cancel self tm =
    (if m_timer_cb (timer_heap tm self) \<noteq> None
     then Inr (True, (set_timer self ((timer_heap tm self)\<lparr>m_timer_cb := None\<rparr>) tm)
                       \<lparr>m_timers := remove1 self (m_timers tm)\<rparr>)
     else Inr (False, tm))"
  using tm_invD [OF assms]
  by (auto simp: cancel_def set_timer_def Let_def cmp.std_erase_find)

lemma tm_inv_cancel:
  assumes "tm_inv tm" and "cancel self tm = Inr (b, tm')"
  shows "tm_inv tm'"
  using assms tm_invD [OF assms(1)]
  by (auto simp: cancel_eq set_timer_def tm_inv_def cmp.sorted_remove1 split: if_splits)

lemma refresh_eq:
  assumes "tm_inv tm"
  shows "refresh now self tm =
    (if m_timer_cb (timer_heap tm self) = None then Inr (False, tm)
     else let t = timer_heap tm self;
              h = (timer_heap tm)(self := t\<lparr>m_next := now + m_ms t\<rparr>)
          in Inr (True, tm\<lparr>timer_heap := h,
               m_timers := std_insert (timer_lt h) self (remove1 self (m_timers tm))\<rparr>))"
proof -
  have "std_find (timer_lt (timer_heap tm)) self (m_timers tm) \<noteq> []"
    if "m_timer_cb (timer_heap tm self) \<noteq> None"
    using tm_invD(3) [OF assms that] by (simp add: cmp.std_find_nil_iff)
  then show ?thesis
    using tm_invD [OF assms]
    by (auto simp: refresh_def Let_def cmp.std_erase_find set_timer_def)
qed

lemma sorted_remove1_update:
  assumes "sorted_wrt (timer_lt h) ts"
  shows "sorted_wrt (timer_lt (h(p := t))) (remove1 p ts)"
proof -
  have "p \<notin> set (remove1 p ts)"
    using cmp.sorted_distinct [OF assms] by simp
  then show ?thesis
    using assms by (simp add: sorted_update_fresh cmp.sorted_remove1)
qed

lemma tm_inv_refresh:
  assumes "tm_inv tm" and "refresh now self tm = Inr (b, tm')"
  shows "tm_inv tm'"
  using assms tm_invD [OF assms(1)]
  by (auto simp: refresh_eq Let_def tm_inv_def cmp.set_std_insert
      intro!: cmp.sorted_std_insert sorted_remove1_update split: if_splits)

lemma reset_eq:
  assumes "tm_inv tm"
  shows "reset ms from_now now self tm =
    (if ms = m_ms (timer_heap tm self) \<and> \<not> from_now then Inr (True, False, tm)
     else if m_timer_cb (timer_heap tm self) = None then Inr (False, False, tm)
     else let t = timer_heap tm self;
              start = (if from_now then now else m_next t - m_ms t);
              (front, tm') = addTimer_locked self
                (tm\<lparr>m_timers := remove1 self (m_timers tm),
                    timer_heap := (timer_heap tm)(self := t\<lparr>m_ms := ms, m_next := start + ms\<rparr>)\<rparr>)
          in Inr (True, front, tm'))"
proof -
  have "std_find (timer_lt (timer_heap tm)) self (m_timers tm) \<noteq> []"
    if "m_timer_cb (timer_heap tm self) \<noteq> None"
    using tm_invD(3) [OF assms that] by (simp add: cmp.std_find_nil_iff)
  then show ?thesis
    using tm_invD [OF assms]
    by (auto simp: reset_def Let_def cmp.std_erase_find set_timer_def split: prod.splits)
qed

lemma tm_inv_reset:
  assumes "tm_inv tm" and "reset ms from_now now self tm = Inr (b, front, tm')"
  shows "tm_inv tm'"
proof (cases "ms = m_ms (timer_heap tm self) \<and> \<not> from_now \<or> m_timer_cb (timer_heap tm self) = None")
  case True
  then show ?thesis using assms by (auto simp: reset_eq split: if_splits)
next
  case False
  then have "(front, tm') = addTimer_locked self
      (tm\<lparr>m_timers := remove1 self (m_timers tm),
          timer_heap := (timer_heap tm)(self := (timer_heap tm self)\<lparr>m_ms := ms,
           m_next := (if from_now then now else m_next (timer_heap tm self) - m_ms (timer_heap tm self)) + ms\<rparr>)\<rparr>)"
    using assms by (auto simp: reset_eq Let_def split: if_splits prod.splits)
  then show ?thesis
    by (intro tm_inv_addTimer_locked [OF _ _ sym])
       (use tm_invD [OF assms(1)] in \<open>auto simp: sorted_remove1_update\<close>)
qed

section \<open>Expiry\<close>

lemma expired_end_no_rollover:
  assumes "sorted_wrt (timer_lt h) ts" and "q \<notin> set ts"
  shows "expired_end False now q h ts = dropWhile (\<lambda>p. m_next (h p) \<le> now) ts"
  using assms
proof (induction ts)
  case Nil
  then show ?case by (simp add: expired_end_def std_lower_bound_def)
next
  case (Cons y ys)
  have lt: "timer_lt (h(q := new_Timer_at now)) y q \<longleftrightarrow>
      m_next (h y) < now \<or> m_next (h y) = now \<and> y < q"
    using Cons.prems by (auto simp: timer_lt_iff new_Timer_at_def)
  show ?case
  proof (cases "timer_lt (h(q := new_Timer_at now)) y q")
    case True
    then have "m_next (h y) \<le> now" using lt by auto
    with True Cons show ?thesis by (simp add: expired_end_def std_lower_bound_def)
  next
    case False
    show ?thesis
    proof (cases "m_next (h y) = now")
      case True
      have "dropWhile (\<lambda>p. m_next (h p) = now) ys = dropWhile (\<lambda>p. m_next (h p) \<le> now) ys"
        using sorted_head_le [OF Cons.prems(1)] True by (intro dropWhile_cong) force+
      with False True show ?thesis by (simp add: expired_end_def std_lower_bound_def)
    next
      case neq: False
      with False lt have "\<not> m_next (h y) \<le> now" by auto
      with False neq show ?thesis by (simp add: expired_end_def std_lower_bound_def)
    qed
  qed
qed

lemma expired_end_rollover [simp]: "expired_end True now q h ts = []"
  by (simp add: expired_end_def)

lemma sorted_not_due:
  assumes "sorted_wrt (timer_lt h) (y # ys)" and "\<not> m_next (h y) \<le> now"
  shows "filter (\<lambda>p. m_next (h p) \<le> now) ys = []"
    and "filter (\<lambda>p. \<not> m_next (h p) \<le> now) ys = ys"
proof -
  have "\<not> m_next (h p) \<le> now" if "p \<in> set ys" for p
    using sorted_head_le [OF assms(1), of p] assms(2) that by auto
  then show "filter (\<lambda>p. m_next (h p) \<le> now) ys = []"
    and "filter (\<lambda>p. \<not> m_next (h p) \<le> now) ys = ys"
    by (auto simp: filter_empty_conv filter_id_conv)
qed

lemma takeWhile_due:
  "sorted_wrt (timer_lt h) ts \<Longrightarrow>
   takeWhile (\<lambda>p. m_next (h p) \<le> now) ts = filter (\<lambda>p. m_next (h p) \<le> now) ts"
proof (induction ts)
  case (Cons y ys)
  then show ?case using sorted_not_due(1) [OF Cons.prems] by auto
qed simp

lemma dropWhile_due:
  "sorted_wrt (timer_lt h) ts \<Longrightarrow>
   dropWhile (\<lambda>p. m_next (h p) \<le> now) ts = filter (\<lambda>p. \<not> m_next (h p) \<le> now) ts"
proof (induction ts)
  case (Cons y ys)
  then show ?case using sorted_not_due(2) [OF Cons.prems] by auto
qed simp

text \<open>The timers a call of \<open>listExpiredCb\<close> takes out, in firing order, and those it leaves.\<close>

definition due :: "bool \<Rightarrow> u64 \<Rightarrow> 'c timer \<Rightarrow> bool" where
  "due rollover now t \<longleftrightarrow> rollover \<or> m_next t \<le> now"

lemma std_before_dropWhile: "std_before (dropWhile P xs) xs = takeWhile P xs"
  using std_before_append [of "dropWhile P xs" "takeWhile P xs"] by simp

lemma expired_end_left:
  assumes "sorted_wrt (timer_lt h) ts" and "q \<notin> set ts"
  shows "expired_end r now q h ts = filter (\<lambda>p. \<not> due r now (h p)) ts"
  using dropWhile_due [OF assms(1), of now] expired_end_no_rollover [OF assms, of now]
  by (cases r) (simp_all add: due_def)

lemma expired_end_taken:
  assumes "sorted_wrt (timer_lt h) ts" and "q \<notin> set ts"
  shows "std_before (expired_end r now q h ts) ts = filter (\<lambda>p. due r now (h p)) ts"
proof (cases r)
  case True
  then show ?thesis by (simp add: due_def std_before_def)
next
  case False
  then show ?thesis
    using takeWhile_due [OF assms(1), of now] expired_end_no_rollover [OF assms, of now]
    by (simp add: due_def std_before_dropWhile)
qed

text \<open>What firing does to one timer.\<close>

definition fired :: "u64 \<Rightarrow> 'c timer \<Rightarrow> 'c timer" where
  "fired now t = (if m_recurring t then t\<lparr>m_next := now + m_ms t\<rparr> else t\<lparr>m_timer_cb := None\<rparr>)"

lemma fire_one_simps:
  "timer_heap (fire_one now p tm) = (timer_heap tm)(p := fired now (timer_heap tm p))"
  "set (m_timers (fire_one now p tm)) =
     set (m_timers tm) \<union> (if m_recurring (timer_heap tm p) then {p} else {})"
  "m_tickled (fire_one now p tm) = m_tickled tm"
  "m_previouseTime (fire_one now p tm) = m_previouseTime tm"
  by (simp_all add: fire_one_def fired_def set_timer_def Let_def cmp.set_std_insert)

lemma fire_one_sorted:
  assumes "p \<notin> set (m_timers tm)" and "sorted_wrt (timer_lt (timer_heap tm)) (m_timers tm)"
  shows "sorted_wrt (timer_lt (timer_heap (fire_one now p tm))) (m_timers (fire_one now p tm))"
  using assms
  by (simp add: fire_one_def set_timer_def Let_def cmp.sorted_std_insert sorted_update_fresh)

lemma fire_expired_frame:
  assumes "fire_expired now ps cbs tm = (cbs', tm')"
  shows "m_tickled tm' = m_tickled tm" and "m_previouseTime tm' = m_previouseTime tm"
  using assms by (induction ps arbitrary: cbs tm) (auto simp: fire_one_simps)

lemma fire_expired_heap:
  assumes "fire_expired now ps cbs tm = (cbs', tm')" and "distinct ps"
  shows "timer_heap tm' p = (if p \<in> set ps then fired now (timer_heap tm p) else timer_heap tm p)"
  using assms by (induction ps arbitrary: cbs tm) (auto simp: fire_one_simps)

lemma fire_expired_cbs:
  assumes "fire_expired now ps cbs tm = (cbs', tm')" and "distinct ps"
  shows "cbs' = cbs @ map (\<lambda>p. m_timer_cb (timer_heap tm p)) ps"
  using assms
proof (induction ps arbitrary: cbs tm)
  case (Cons p ps)
  have "map (\<lambda>r. m_timer_cb (timer_heap (fire_one now p tm) r)) ps =
        map (\<lambda>r. m_timer_cb (timer_heap tm r)) ps"
    using Cons.prems(2) by (auto simp: fire_one_simps)
  moreover have "cbs' = (cbs @ [m_timer_cb (timer_heap tm p)]) @
      map (\<lambda>r. m_timer_cb (timer_heap (fire_one now p tm) r)) ps"
    using Cons.prems by (intro Cons.IH) auto
  ultimately show ?case by simp
qed simp

lemma fire_expired_set:
  assumes "fire_expired now ps cbs tm = (cbs', tm')" and "distinct ps"
  shows "set (m_timers tm') = set (m_timers tm) \<union> {p \<in> set ps. m_recurring (timer_heap tm p)}"
  using assms
proof (induction ps arbitrary: cbs tm)
  case (Cons p ps)
  then have "set (m_timers tm') = set (m_timers (fire_one now p tm)) \<union>
      {r \<in> set ps. m_recurring (timer_heap (fire_one now p tm) r)}"
    by simp
  with Cons.prems(2) show ?case by (auto simp: fire_one_simps split: if_splits)
qed simp

lemma fire_expired_sorted:
  assumes "fire_expired now ps cbs tm = (cbs', tm')" and "distinct ps"
    and "set ps \<inter> set (m_timers tm) = {}"
    and "sorted_wrt (timer_lt (timer_heap tm)) (m_timers tm)"
  shows "sorted_wrt (timer_lt (timer_heap tm')) (m_timers tm')"
  using assms
proof (induction ps arbitrary: cbs tm)
  case (Cons p ps)
  have "set ps \<inter> set (m_timers (fire_one now p tm)) = {}"
    using Cons.prems(2,3) by (auto simp: fire_one_simps)
  moreover have "sorted_wrt (timer_lt (timer_heap (fire_one now p tm))) (m_timers (fire_one now p tm))"
    using Cons.prems by (intro fire_one_sorted) auto
  ultimately show ?case using Cons.prems by (intro Cons.IH) auto
qed simp

lemmas fire_expired_facts =
  fire_expired_frame fire_expired_heap fire_expired_cbs fire_expired_set fire_expired_sorted

section \<open>Abstract view: the armed timers\<close>

text \<open>
  What a timer manager promises: a finite map from timers to their state, in which a timer is
  armed, disarmed, moved and fired. The operations refine updates of this map.
\<close>

definition armed :: "'c timer_manager \<Rightarrow> timer_ptr \<rightharpoonup> 'c timer" where
  "armed tm = (\<lambda>p. if p \<in> set (m_timers tm) then Some (timer_heap tm p) else None)"

definition expire :: "bool \<Rightarrow> u64 \<Rightarrow> (timer_ptr \<rightharpoonup> 'c timer) \<Rightarrow> (timer_ptr \<rightharpoonup> 'c timer)" where
  "expire rollover now m =
     (\<lambda>p. case m p of
            None \<Rightarrow> None
          | Some t \<Rightarrow>
              if due rollover now t
              then (if m_recurring t then Some (t\<lparr>m_next := now + m_ms t\<rparr>) else None)
              else Some t)"

lemma armed_eq_Some: "armed tm p = Some t \<longleftrightarrow> p \<in> set (m_timers tm) \<and> timer_heap tm p = t"
  by (auto simp: armed_def)

lemma detectClockRollover_simps [simp]:
  "timer_heap (snd (detectClockRollover now tm)) = timer_heap tm"
  "m_timers (snd (detectClockRollover now tm)) = m_timers tm"
  "m_tickled (snd (detectClockRollover now tm)) = m_tickled tm"
  "m_previouseTime (snd (detectClockRollover now tm)) = now"
  by (simp_all add: detectClockRollover_def)

text \<open>Up to the stored clock, the critical section is: take out the due timers and fire them.\<close>

lemma listExpired_locked_eq:
  assumes inv: "tm_inv tm" and q: "q \<notin> set (m_timers tm)" and ne: "m_timers tm \<noteq> []"
    and r: "detectClockRollover now tm = (r, tm1)"
  shows "listExpired_locked now q cbs tm =
    Inr (fire_expired now (filter (\<lambda>p. due r now (timer_heap tm p)) (m_timers tm)) cbs
           (tm1\<lparr>m_timers := filter (\<lambda>p. \<not> due r now (timer_heap tm p)) (m_timers tm)\<rparr>))"
proof -
  have tm1: "tm1 = tm\<lparr>m_previouseTime := now\<rparr>"
    using r by (simp add: detectClockRollover_def)
  note s = tm_invD(1) [OF inv]
  obtain y ys where ts: "m_timers tm = y # ys" using ne by (cases "m_timers tm") auto
  show ?thesis
  proof (cases "\<not> r \<and> now < m_next (timer_heap tm y)")
    case True
    then have "filter (\<lambda>p. due r now (timer_heap tm p)) (m_timers tm) = []"
      and "filter (\<lambda>p. \<not> due r now (timer_heap tm p)) (m_timers tm) = m_timers tm"
      using sorted_not_due [of "timer_heap tm" y ys now] s ts by (auto simp: due_def)
    with True r ts tm1 show ?thesis by (simp add: listExpired_locked_def)
  next
    case False
    with r ts tm1 have "listExpired_locked now q cbs tm =
      Inr (fire_expired now
            (std_before (expired_end r now q (timer_heap tm) (m_timers tm)) (m_timers tm)) cbs
            (tm1\<lparr>m_timers := expired_end r now q (timer_heap tm) (m_timers tm)\<rparr>))"
      by (auto simp: listExpired_locked_def Let_def)
    then show ?thesis
      by (simp only: expired_end_taken [OF s q]) (simp only: expired_end_left [OF s q])
  qed
qed

lemma listExpired_run:
  assumes inv: "tm_inv tm" and q: "q \<notin> set (m_timers tm)"
    and r: "r = fst (detectClockRollover now tm)"
  obtains tm' where
    "listExpiredCb now q cbs tm =
       Inr (cbs @ map (\<lambda>p. m_timer_cb (timer_heap tm p)) (filter (\<lambda>p. due r now (timer_heap tm p)) (m_timers tm)), tm')"
    and "tm_inv tm'" and "armed tm' = expire r now (armed tm)" and "m_tickled tm' = m_tickled tm"
proof (cases "m_timers tm = []")
  case True
  have "armed tm = expire r now (armed tm)"
    using True by (simp add: armed_def expire_def)
  with True inv show thesis
    by (intro that [of tm]) (simp_all add: listExpiredCb_def listExpired_check_def)
next
  case False
  let ?due = "filter (\<lambda>p. due r now (timer_heap tm p)) (m_timers tm)"
  let ?left = "filter (\<lambda>p. \<not> due r now (timer_heap tm p)) (m_timers tm)"
  let ?tm1 = "tm\<lparr>m_previouseTime := now, m_timers := ?left\<rparr>"
  obtain cbs' tm' where f: "fire_expired now ?due cbs ?tm1 = (cbs', tm')"
    by (cases "fire_expired now ?due cbs ?tm1") auto
  have d: "detectClockRollover now tm = (r, tm\<lparr>m_previouseTime := now\<rparr>)"
    using r by (simp add: detectClockRollover_def)
  have run: "listExpiredCb now q cbs tm = Inr (cbs', tm')"
    using listExpired_locked_eq [OF inv q False d] False f
    by (simp add: listExpiredCb_def listExpired_check_def)
  have dist: "distinct ?due"
    using tm_invD(2) [OF inv] by simp
  have heap: "timer_heap tm' p = (if p \<in> set ?due then fired now (timer_heap tm p) else timer_heap tm p)" for p
    using fire_expired_heap [OF f dist, of p] by simp
  have timers: "set (m_timers tm') = set ?left \<union> {p \<in> set ?due. m_recurring (timer_heap tm p)}"
    using fire_expired_set [OF f dist] by simp
  have "sorted_wrt (timer_lt (timer_heap tm')) (m_timers tm')"
    using fire_expired_sorted [OF f dist] tm_invD(1) [OF inv] by (auto simp: sorted_wrt_filter)
  then have "tm_inv tm'"
    using tm_invD(3) [OF inv]
    by (auto simp: tm_inv_def heap timers fired_def split: if_splits)
  moreover have "armed tm' = expire r now (armed tm)"
    by (auto simp: armed_def expire_def heap timers fired_def fun_eq_iff)
  moreover have "m_tickled tm' = m_tickled tm"
    using fire_expired_frame(1) [OF f] by simp
  moreover have "cbs' = cbs @ map (\<lambda>p. m_timer_cb (timer_heap tm p)) ?due"
    using fire_expired_cbs [OF f dist] by simp
  ultimately show thesis
    using run by (intro that [of tm']) auto
qed

lemma tm_inv_listExpired:
  assumes "tm_inv tm" and "q \<notin> set (m_timers tm)" and "listExpiredCb now q cbs tm = Inr (cbs', tm')"
  shows "tm_inv tm'"
  using listExpired_run [OF assms(1,2) refl, where cbs = cbs and now = now] assms(3) by auto

lemma tm_inv_getNextTimer:
  "tm_inv tm \<Longrightarrow> getNextTimer now tm = (d, tm') \<Longrightarrow> tm_inv tm'"
  by (auto simp: getNextTimer_def tm_inv_def Let_def split: list.splits if_splits)

text \<open>While a timer is armed the time to the next one is not the answer for "no timer".\<close>

lemma getNextTimer_armed:
  assumes "m_timers tm \<noteq> []" and "0 < now"
  shows "fst (getNextTimer now tm) \<noteq> - 1"
proof
  assume none: "fst (getNextTimer now tm) = - 1"
  obtain p ps where ps: "m_timers tm = p # ps" using assms(1) by (cases "m_timers tm") auto
  let ?n = "m_next (timer_heap tm p)"
  from none ps have late: "now < ?n" and d: "?n - now = - 1"
    by (auto simp: getNextTimer_def Let_def split: if_splits)
  from d have "?n = now - 1" by (simp add: algebra_simps)
  with late assms(2) show False
    using unat_minus_one [of now] by (simp add: word_less_nat_alt word_gt_0)
qed

section \<open>Executions\<close>

text \<open>
  Any sequence of calls: a new timer gets an address that no timer of the set has, and so does
  the temporary \<open>now_timer\<close>.
\<close>

inductive tm_step :: "'c timer_manager \<Rightarrow> 'c timer_manager \<Rightarrow> bool" where
  step_addTimer: "p \<notin> set (m_timers tm) \<Longrightarrow> addTimer ms cb rec now p tm = (front, tm') \<Longrightarrow> tm_step tm tm'"
| step_addConditionTimer: "p \<notin> set (m_timers tm) \<Longrightarrow>
     addConditionTimer ms cb weak rec now p tm = (front, tm') \<Longrightarrow> tm_step tm tm'"
| step_cancel: "cancel p tm = Inr (b, tm') \<Longrightarrow> tm_step tm tm'"
| step_refresh: "refresh now p tm = Inr (b, tm') \<Longrightarrow> tm_step tm tm'"
| step_reset: "reset ms from_now now p tm = Inr (b, front, tm') \<Longrightarrow> tm_step tm tm'"
| step_getNextTimer: "getNextTimer now tm = (d, tm') \<Longrightarrow> tm_step tm tm'"
| step_listExpiredCb: "q \<notin> set (m_timers tm) \<Longrightarrow>
     listExpiredCb now q cbs tm = Inr (cbs', tm') \<Longrightarrow> tm_step tm tm'"

definition tm_init :: "'c timer_manager \<Rightarrow> bool" where
  "tm_init tm \<longleftrightarrow> (\<exists>now. tm = new_TimerManager now)"

interpretation tm: inductive_invariant tm_init tm_step tm_inv
proof unfold_locales
  fix s t :: "'c timer_manager"
  show "tm_init s \<Longrightarrow> tm_inv s"
    by (auto simp: tm_init_def tm_inv_new)
  show "tm_inv s \<Longrightarrow> tm_step s t \<Longrightarrow> tm_inv t"
    by (erule tm_step.cases)
       (auto simp: addConditionTimer_def intro: tm_inv_addTimer tm_inv_cancel tm_inv_refresh
         tm_inv_reset tm_inv_getNextTimer tm_inv_listExpired)
qed

section \<open>Properties\<close>

text \<open>
  C9. \<open>listExpiredCb\<close> implements the abstract timer map: from any well-formed manager it returns
  normally, hands out exactly the callbacks of the due timers (deadline at most \<open>now\<close>, or all of
  them after a clock rollover) in deadline order behind what the caller's vector held, re-arms
  the recurring ones one period after \<open>now\<close>, disarms the others, leaves every timer that is not
  due as it was, and keeps the invariant.
\<close>

theorem listExpiredCb_refines:
  assumes "tm_inv tm" and "q \<notin> set (m_timers tm)"
    and "r = fst (detectClockRollover now tm)"
  shows "\<exists>ps tm'. listExpiredCb now q cbs tm =
             Inr (cbs @ map (\<lambda>p. m_timer_cb (timer_heap tm p)) ps, tm') \<and>
           set ps = {p. \<exists>t. armed tm p = Some t \<and> due r now t} \<and>
           sorted_wrt (timer_lt (timer_heap tm)) ps \<and>
           armed tm' = expire r now (armed tm) \<and> tm_inv tm'"
proof -
  let ?ps = "filter (\<lambda>p. due r now (timer_heap tm p)) (m_timers tm)"
  have "set ?ps = {p. \<exists>t. armed tm p = Some t \<and> due r now t}"
    by (auto simp: armed_eq_Some)
  moreover have "sorted_wrt (timer_lt (timer_heap tm)) ?ps"
    using tm_invD(1) [OF assms(1)] by (rule sorted_wrt_filter)
  moreover obtain tm' where
    "listExpiredCb now q cbs tm = Inr (cbs @ map (\<lambda>p. m_timer_cb (timer_heap tm p)) ?ps, tm')"
    and "tm_inv tm'" and "armed tm' = expire r now (armed tm)"
    by (rule listExpired_run [OF assms])
  ultimately show ?thesis
    by (intro exI [of _ ?ps] exI [of _ tm'] conjI)
qed

text \<open>A manager with a recurring timer due at 150 and a one-shot timer due at 300, started at
  100.\<close>

definition demo_tm :: "nat timer_manager" where
  "demo_tm = snd (addTimer 200 (Some (Callback 2)) False 100 8
               (snd (addTimer 50 (Some (Callback 1)) True 100 5 (new_TimerManager 100))))"

lemma demo_tm_eq:
  "timer_heap demo_tm = (\<lambda>_. new_Timer_at 0)(5 := new_Timer 50 (Some (Callback 1)) True 100,
     8 := new_Timer 200 (Some (Callback 2)) False 100)"
  "m_timers demo_tm = [5, 8]" "m_tickled demo_tm" "m_previouseTime demo_tm = 100"
  by (simp_all add: demo_tm_def addTimer_def addTimer_locked_def set_timer_def new_TimerManager_def
      new_Timer_def new_Timer_at_def Let_def timer_lt_iff)

lemma demo_tm_inv: "tm_inv demo_tm"
proof -
  have "tm_inv (snd (addTimer 50 (Some (Callback 1)) True 100 5 (new_TimerManager 100 :: nat timer_manager)))"
    by (rule tm_inv_addTimer [OF tm_inv_new _ surjective_pairing]) (simp add: new_TimerManager_def)
  then show ?thesis
    unfolding demo_tm_def
    by (rule tm_inv_addTimer [OF _ _ surjective_pairing])
       (simp add: new_TimerManager_def addTimer_def addTimer_locked_def set_timer_def Let_def)
qed

theorem listExpiredCb_refines_witness:
  "\<exists>ps tm'. listExpiredCb 200 99 [] demo_tm =
      Inr ([] @ map (\<lambda>p. m_timer_cb (timer_heap demo_tm p)) ps, tm') \<and>
    set ps = {p. \<exists>t. armed demo_tm p = Some t \<and> due False 200 t} \<and>
    sorted_wrt (timer_lt (timer_heap demo_tm)) ps \<and>
    armed tm' = expire False 200 (armed demo_tm) \<and> tm_inv tm'"
  by (rule listExpiredCb_refines [OF demo_tm_inv])
     (simp_all add: demo_tm_eq detectClockRollover_def)

text \<open>
  C26. The interval \<open>getNextTimer\<close> reports is exact: with a clock that did not go back, a later
  \<open>listExpiredCb\<close> hands out a callback if and only if that interval has passed, so the I/O manager
  that sleeps for it neither misses the first timer nor wakes with nothing due.
\<close>

theorem getNextTimer_exact:
  assumes "tm_inv tm" and "q \<notin> set (m_timers tm)" and "m_timers tm \<noteq> []"
    and "getNextTimer now tm = (d, tm1)"
    and "now \<le> now'" and "m_previouseTime tm \<le> now'"
    and "listExpiredCb now' q [] tm1 = Inr (cbs, tm2)"
  shows "cbs \<noteq> [] \<longleftrightarrow> unat now + unat d \<le> unat now'"
proof -
  obtain y ys where ts: "m_timers tm = y # ys" using assms(3) by (cases "m_timers tm") auto
  have tm1: "tm1 = tm\<lparr>m_tickled := False\<rparr>" and
    d: "d = (if m_next (timer_heap tm y) \<le> now then 0 else m_next (timer_heap tm y) - now)"
    using assms(4) ts by (auto simp: getNextTimer_def Let_def split: if_splits)
  have inv1: "tm_inv tm1" using tm_inv_getNextTimer [OF assms(1,4)] .
  have r: "fst (detectClockRollover now' tm1) = False"
    using assms(6) tm1 by (auto simp: detectClockRollover_def)
  have "cbs = map (\<lambda>p. m_timer_cb (timer_heap tm p)) (filter (\<lambda>p. due False now' (timer_heap tm p)) (m_timers tm))"
    using listExpired_run [OF inv1 _ r [symmetric], of q "[]"] assms(2,7) tm1 by auto
  then have "cbs \<noteq> [] \<longleftrightarrow> (\<exists>p \<in> set (m_timers tm). m_next (timer_heap tm p) \<le> now')"
    by (auto simp: filter_empty_conv due_def)
  also have "\<dots> \<longleftrightarrow> m_next (timer_heap tm y) \<le> now'"
    using sorted_head_le [of "timer_heap tm" y ys] tm_invD(1) [OF assms(1)] ts
    by (auto intro: order_trans)
  also have "\<dots> \<longleftrightarrow> unat now + unat d \<le> unat now'"
    using assms(5) d by (auto simp: word_le_nat_alt unat_sub)
  finally show ?thesis .
qed

theorem getNextTimer_exact_witness:
  "\<exists>cbs tm2. listExpiredCb 150 99 [] (demo_tm\<lparr>m_tickled := False\<rparr>) = Inr (cbs, tm2) \<and>
     (cbs \<noteq> [] \<longleftrightarrow> unat (100 :: u64) + unat (50 :: u64) \<le> unat (150 :: u64))"
proof -
  let ?tm1 = "demo_tm\<lparr>m_tickled := False\<rparr>"
  have nxt: "getNextTimer 100 demo_tm = (50, ?tm1)"
    by (simp add: getNextTimer_def demo_tm_eq new_Timer_def)
  then have inv: "tm_inv ?tm1"
    using tm_inv_getNextTimer [OF demo_tm_inv] by blast
  have q: "99 \<notin> set (m_timers ?tm1)" and r: "False = fst (detectClockRollover 150 ?tm1)"
    by (simp_all add: demo_tm_eq detectClockRollover_def)
  obtain tm2 where run: "listExpiredCb 150 99 [] ?tm1 =
      Inr ([] @ map (\<lambda>p. m_timer_cb (timer_heap ?tm1 p))
             (filter (\<lambda>p. due False 150 (timer_heap ?tm1 p)) (m_timers ?tm1)), tm2)"
    by (rule listExpired_run [OF inv q r])
  show ?thesis
    using run getNextTimer_exact [OF demo_tm_inv _ _ nxt _ _ run]
    by (intro exI conjI) (auto simp: demo_tm_eq)
qed

text \<open>
  Adding a timer arms exactly that timer, one period from now, and reports an insertion at
  the front (which wakes the I/O manager) precisely when no such report is outstanding and every
  armed timer fires later: the flag \<open>m_tickled\<close> never hides a new earliest timer from a manager
  that has called \<open>getNextTimer\<close> since.
\<close>

theorem addTimer_refines:
  assumes "tm_inv tm" and "p \<notin> set (m_timers tm)" and "addTimer ms cb rec now p tm = (front, tm')"
  shows "armed tm' = (armed tm)(p \<mapsto> new_Timer ms cb rec now) \<and>
         (front \<longleftrightarrow> \<not> m_tickled tm \<and>
            (\<forall>r t. armed tm r = Some t \<longrightarrow>
               now + ms < m_next t \<or> now + ms = m_next t \<and> p < r)) \<and>
         m_tickled tm' = (m_tickled tm \<or> front) \<and> tm_inv tm'"
proof -
  let ?h = "(timer_heap tm)(p := new_Timer ms cb rec now)"
  let ?ts = "std_insert (timer_lt ?h) p (m_timers tm)"
  have s: "sorted_wrt (timer_lt ?h) (m_timers tm)"
    using tm_invD(1) [OF assms(1)] assms(2) by (simp add: sorted_update_fresh)
  have tm': "tm' = tm\<lparr>timer_heap := ?h, m_timers := ?ts, m_tickled := (if front then True else m_tickled tm)\<rparr>"
    and front: "front \<longleftrightarrow> take 1 ?ts = [p] \<and> \<not> m_tickled tm"
    using assms(3) by (auto simp: addTimer_def addTimer_locked_def set_timer_def Let_def)
  have "?ts \<noteq> []" by (cases "m_timers tm") auto
  then have "take 1 ?ts = [p] \<longleftrightarrow> hd ?ts = p" by (cases ?ts) auto
  also have "\<dots> \<longleftrightarrow> (\<forall>r \<in> set (m_timers tm). timer_lt ?h p r)"
    using cmp.hd_std_insert [OF s, of p] assms(2) by auto
  also have "\<dots> \<longleftrightarrow> (\<forall>r t. armed tm r = Some t \<longrightarrow>
      now + ms < m_next t \<or> now + ms = m_next t \<and> p < r)"
    using assms(2) by (auto simp: timer_lt_iff armed_eq_Some new_Timer_def)
  finally have earliest: "take 1 ?ts = [p] \<longleftrightarrow> (\<forall>r t. armed tm r = Some t \<longrightarrow>
      now + ms < m_next t \<or> now + ms = m_next t \<and> p < r)" .
  have "armed tm' = (armed tm)(p \<mapsto> new_Timer ms cb rec now)"
    by (auto simp: armed_def tm' cmp.set_std_insert fun_eq_iff)
  moreover have "m_tickled tm' = (m_tickled tm \<or> front)"
    by (simp add: tm')
  ultimately show ?thesis
    using earliest front tm_inv_addTimer [OF assms] by blast
qed

theorem addTimer_refines_witness:
  "armed (snd (addTimer 10 (Some (Callback 3)) False 100 9 (demo_tm\<lparr>m_tickled := False\<rparr>))) =
     (armed (demo_tm\<lparr>m_tickled := False\<rparr>))(9 \<mapsto> new_Timer 10 (Some (Callback 3)) False 100) \<and>
   fst (addTimer 10 (Some (Callback 3)) False 100 9 (demo_tm\<lparr>m_tickled := False\<rparr>))"
proof -
  have inv: "tm_inv (demo_tm\<lparr>m_tickled := False\<rparr>)"
    using demo_tm_inv by (simp add: tm_inv_def)
  show ?thesis
    using addTimer_refines [OF inv _ surjective_pairing, of 9 10 "Some (Callback 3)" False 100]
    by (auto simp: demo_tm_eq armed_eq_Some new_Timer_def)
qed

text \<open>
  C27. \<open>cancel\<close> never erases the end iterator: in every state the operations can reach it returns,
  reports whether the timer still had its callback, disarms exactly that timer in that case and
  changes nothing otherwise; cancelling again reports \<open>false\<close>.
\<close>

theorem cancel_safe:
  assumes "reachable tm_init tm_step tm"
  shows "\<exists>tm'. cancel p tm = Inr (m_timer_cb (timer_heap tm p) \<noteq> None, tm') \<and>
           armed tm' = (if m_timer_cb (timer_heap tm p) \<noteq> None then (armed tm)(p := None) else armed tm) \<and>
           cancel p tm' = Inr (False, tm')"
proof -
  have inv: "tm_inv tm" using assms by (rule tm.reachable_inv)
  show ?thesis
  proof (cases "m_timer_cb (timer_heap tm p) = None")
    case True
    then show ?thesis by (simp add: cancel_def)
  next
    case False
    let ?tm' = "(set_timer p ((timer_heap tm p)\<lparr>m_timer_cb := None\<rparr>) tm)\<lparr>m_timers := remove1 p (m_timers tm)\<rparr>"
    have "cancel p tm = Inr (True, ?tm')"
      using False by (simp add: cancel_eq [OF inv])
    moreover have "armed ?tm' = (armed tm)(p := None)"
      using tm_invD(2) [OF inv] by (auto simp: armed_def set_timer_def fun_eq_iff)
    moreover have "cancel p ?tm' = Inr (False, ?tm')"
      by (simp add: cancel_def set_timer_def)
    ultimately show ?thesis using False by (intro exI [of _ ?tm']) simp
  qed
qed

lemma demo_tm_reachable: "reachable tm_init tm_step demo_tm"
proof -
  let ?fresh = "new_TimerManager 100 :: nat timer_manager"
  have "reachable tm_init tm_step ?fresh"
    by (rule reachable_init) (auto simp: tm_init_def)
  moreover have "tm_step ?fresh (snd (addTimer 50 (Some (Callback 1)) True 100 5 ?fresh))"
    by (rule step_addTimer [OF _ surjective_pairing]) (simp add: new_TimerManager_def)
  ultimately have "reachable tm_init tm_step (snd (addTimer 50 (Some (Callback 1)) True 100 5 ?fresh))"
    by (rule reachable_step)
  moreover have "tm_step (snd (addTimer 50 (Some (Callback 1)) True 100 5 ?fresh)) demo_tm"
    unfolding demo_tm_def
    by (rule step_addTimer [OF _ surjective_pairing])
       (simp add: new_TimerManager_def addTimer_def addTimer_locked_def set_timer_def Let_def)
  ultimately show ?thesis by (rule reachable_step)
qed

theorem cancel_safe_witness:
  "\<exists>tm'. cancel 8 demo_tm = Inr (True, tm') \<and> armed tm' = (armed demo_tm)(8 := None) \<and>
     cancel 8 tm' = Inr (False, tm')"
  using cancel_safe [OF demo_tm_reachable, of 8] by (simp add: demo_tm_eq new_Timer_def)

text \<open>
  C28. \<open>refresh\<close> and \<open>reset\<close> move an armed timer and no other: the deadline becomes \<open>now\<close> plus the
  (old, respectively new) period, or, for \<open>reset\<close> without \<open>from_now\<close>, the same starting point plus
  the new period; a timer without callback is refused and left alone; the invariant is kept.
\<close>

theorem refresh_reset_refine:
  assumes "tm_inv tm" and "t = timer_heap tm p" and "m_timer_cb t \<noteq> None"
  shows "(\<exists>tm'. refresh now p tm = Inr (True, tm') \<and> tm_inv tm' \<and>
            armed tm' = (armed tm)(p \<mapsto> t\<lparr>m_next := now + m_ms t\<rparr>)) \<and>
         (ms \<noteq> m_ms t \<or> from_now \<longrightarrow>
          (\<exists>front tm'. reset ms from_now now p tm = Inr (True, front, tm') \<and> tm_inv tm' \<and>
            armed tm' = (armed tm)(p \<mapsto> t\<lparr>m_ms := ms,
              m_next := (if from_now then now + ms else m_next t - m_ms t + ms)\<rparr>)))"
proof (intro conjI impI)
  have arm: "armed (tm\<lparr>timer_heap := h(p := u), m_timers := ts\<rparr>) = (armed tm)(p \<mapsto> u)"
    if "h = timer_heap tm" "set ts = insert p (set (remove1 p (m_timers tm)))" for h u ts
    using that tm_invD(2) [OF assms(1)] by (auto simp: armed_def fun_eq_iff)
  obtain tm' where tm': "refresh now p tm = Inr (True, tm')"
    and "armed tm' = (armed tm)(p \<mapsto> t\<lparr>m_next := now + m_ms t\<rparr>)"
    using assms(2,3) by (auto simp: refresh_eq [OF assms(1)] Let_def arm cmp.set_std_insert)
  with tm_inv_refresh [OF assms(1) tm']
  show "\<exists>tm'. refresh now p tm = Inr (True, tm') \<and> tm_inv tm' \<and>
      armed tm' = (armed tm)(p \<mapsto> t\<lparr>m_next := now + m_ms t\<rparr>)" by blast
  assume moved: "ms \<noteq> m_ms t \<or> from_now"
  obtain front tm'' where ins: "addTimer_locked p (tm\<lparr>m_timers := remove1 p (m_timers tm),
           timer_heap := (timer_heap tm)(p := t\<lparr>m_ms := ms,
              m_next := (if from_now then now else m_next t - m_ms t) + ms\<rparr>)\<rparr>) = (front, tm'')"
    by fastforce
  then have tm'': "reset ms from_now now p tm = Inr (True, front, tm'')"
    using assms(2,3) moved by (auto simp: reset_eq [OF assms(1)])
  from ins have "armed tm'' = (armed tm)(p \<mapsto> t\<lparr>m_ms := ms,
      m_next := (if from_now then now else m_next t - m_ms t) + ms\<rparr>)"
    using tm_invD(2) [OF assms(1)]
    by (auto simp: addTimer_locked_def Let_def armed_def cmp.set_std_insert fun_eq_iff)
  with tm'' tm_inv_reset [OF assms(1) tm'']
  show "\<exists>front tm'. reset ms from_now now p tm = Inr (True, front, tm') \<and> tm_inv tm' \<and>
      armed tm' = (armed tm)(p \<mapsto> t\<lparr>m_ms := ms,
        m_next := (if from_now then now + ms else m_next t - m_ms t + ms)\<rparr>)"
    by (cases from_now) auto
qed

theorem refresh_reset_refine_witness:
  "(\<exists>tm'. refresh 120 5 demo_tm = Inr (True, tm') \<and> tm_inv tm' \<and>
      armed tm' = (armed demo_tm)(5 \<mapsto> (timer_heap demo_tm 5)\<lparr>m_next := 120 + m_ms (timer_heap demo_tm 5)\<rparr>)) \<and>
   (\<exists>front tm'. reset 80 False 120 5 demo_tm = Inr (True, front, tm') \<and> tm_inv tm' \<and>
      armed tm' = (armed demo_tm)(5 \<mapsto> (timer_heap demo_tm 5)\<lparr>m_ms := 80,
        m_next := m_next (timer_heap demo_tm 5) - m_ms (timer_heap demo_tm 5) + 80\<rparr>))"
  using refresh_reset_refine [OF demo_tm_inv refl, of 5 120 80 False]
  by (simp add: demo_tm_eq new_Timer_def)

text \<open>
  The two critical sections of \<open>listExpiredCb\<close> are not atomic together: when another thread
  cancels the last timer between the test under the read lock and the section under the write
  lock, and the clock did not roll over, the code dereferences the begin iterator of an empty
  set. (The write-locked section does not repeat the test.)
\<close>

theorem listExpired_race:
  assumes "tm_inv tm" and "m_timers tm = [p]" and "m_timer_cb (timer_heap tm p) \<noteq> None"
    and "m_previouseTime tm \<le> now"
  shows "listExpired_check tm \<and>
         (\<exists>tm'. cancel p tm = Inr (True, tm') \<and>
            listExpired_locked now q cbs tm' = Inl (BadIterator ''*m_timers.begin()''))"
  using assms
  by (auto simp: listExpired_check_def cancel_eq listExpired_locked_def set_timer_def
      detectClockRollover_def)

theorem listExpired_race_witness:
  "\<exists>tm tm' :: nat timer_manager. reachable tm_init tm_step tm \<and> listExpired_check tm \<and>
     cancel 5 tm = Inr (True, tm') \<and>
     listExpired_locked 100 9 [] tm' = Inl (BadIterator ''*m_timers.begin()'')"
proof -
  let ?fresh = "new_TimerManager 100 :: nat timer_manager"
  let ?tm = "snd (addTimer 50 (Some (Callback 1)) True 100 5 ?fresh)"
  have step: "tm_step ?fresh ?tm"
    by (rule step_addTimer [OF _ surjective_pairing]) (simp add: new_TimerManager_def)
  have "reachable tm_init tm_step ?fresh"
    by (rule reachable_init) (auto simp: tm_init_def)
  then have r: "reachable tm_init tm_step ?tm"
    using step by (rule reachable_step)
  have "m_timers ?tm = [5]" "m_timer_cb (timer_heap ?tm 5) \<noteq> None" "m_previouseTime ?tm \<le> 100"
    by (simp_all add: addTimer_def addTimer_locked_def set_timer_def new_TimerManager_def
        new_Timer_def Let_def)
  from listExpired_race [OF tm.reachable_inv [OF r] this, of 9 "[]"] r
  show ?thesis by blast
qed

text \<open>
  \<open>detectClockRollover\<close> on 64-bit milliseconds: when the stored time is at least one hour,
  a rollover is reported exactly if the clock went back by more than one hour; below one hour the
  subtraction wraps and any step back is reported.
\<close>

theorem detectClockRollover_iff:
  "fst (detectClockRollover now tm) \<longleftrightarrow>
     (if unat (m_previouseTime tm) < 3600000 then unat now < unat (m_previouseTime tm)
      else unat now + 3600000 < unat (m_previouseTime tm))"
proof (cases "unat (m_previouseTime tm) < 3600000")
  case True
  have "2 ^ 64 - 3600000 \<le> unat (m_previouseTime tm - 3600000)"
    using True by (simp add: unat_sub_if')
  then have "now < m_previouseTime tm \<Longrightarrow> now < m_previouseTime tm - 3600000"
    using True by (simp add: word_less_nat_alt)
  with True show ?thesis
    by (auto simp: detectClockRollover_def word_less_nat_alt)
next
  case False
  then have "unat (m_previouseTime tm - 3600000) = unat (m_previouseTime tm) - 3600000"
    by (simp add: unat_sub_if')
  with False show ?thesis
    by (auto simp: detectClockRollover_def word_less_nat_alt)
qed

end
