(* ===== verification/IOManager.thy ===== *)
theory IOManager
  imports Scheduler Timer
begin

unbundle bit_operations_syntax

text \<open>
  \<^verbatim>\<open>sylar/iomanager.h\<close> and \<^verbatim>\<open>sylar/iomanager.cpp\<close>: the scheduler with epoll events and timers. The object
  extends the record of the scheduler, as the class derives from \<^verbatim>\<open>Scheduler\<close> and \<^verbatim>\<open>TimerManager\<close>.
  \<^verbatim>\<open>FdContext\<close> objects live in a heap, the vector \<^verbatim>\<open>m_fdContexts\<close> holds their addresses. The kernel is a
  parameter: \<open>epoll_ctl\<close> is a function from its arguments to its result, what \<^verbatim>\<open>epoll_wait\<close> returns is
  an argument of the idle loop. \<open>schedule\<close> on another scheduler object (the one of the thread that
  registered an event) is recorded in \<open>foreign\<close>.
\<close>

section \<open>Data\<close>

definition NONE :: u32 where "NONE = 0"
definition READ :: u32 where "READ = 1"
definition WRITE :: u32 where "WRITE = 4"

definition EPOLLIN :: u32 where "EPOLLIN = 1"
definition EPOLLOUT :: u32 where "EPOLLOUT = 4"
definition EPOLLERR :: u32 where "EPOLLERR = 8"
definition EPOLLHUP :: u32 where "EPOLLHUP = 16"
definition EPOLLET :: u32 where "EPOLLET = 0x80000000"

lemmas event_defs = NONE_def READ_def WRITE_def EPOLLIN_def EPOLLOUT_def EPOLLERR_def EPOLLHUP_def

type_synonym ctx_ptr = nat

record 'c event_context =
  ec_scheduler :: "sched_ptr option"
  ec_fiber :: "fiber_ptr option"
  ec_cb :: "'c callback option"

record 'c fd_context =
  fc_read :: "'c event_context"
  fc_write :: "'c event_context"
  fc_fd :: fd
  fc_events :: u32

record 'c iom = "'c callback sched" +
  timers :: "'c timer_manager"
  m_epfd :: fd
  m_tickleFds :: "fd \<times> fd"
  tickle_pipe :: nat
  m_pendingEventCount :: u64
  ctx_heap :: "ctx_ptr \<Rightarrow> 'c fd_context"
  next_ctx :: ctx_ptr
  m_fdContexts :: "ctx_ptr option list"
  self_ptr :: sched_ptr
  foreign :: "(sched_ptr \<times> 'c callback task) list"

datatype ctl_op = EPOLL_CTL_ADD | EPOLL_CTL_MOD | EPOLL_CTL_DEL

type_synonym epoll_ctl = "ctl_op \<Rightarrow> fd \<Rightarrow> u32 \<Rightarrow> ctx_ptr \<Rightarrow> int"

text \<open>An event from \<^verbatim>\<open>epoll_wait\<close>; the union \<^verbatim>\<open>data\<close> holds what was registered: the descriptor of the
  pipe or the address of a context.\<close>

datatype epoll_data = DataFd fd | DataPtr ctx_ptr

record epoll_event =
  ev_data :: epoll_data
  ev_events :: u32

section \<open>Contexts\<close>

definition empty_context :: "'c event_context" where
  "empty_context = \<lparr>ec_scheduler = None, ec_fiber = None, ec_cb = None\<rparr>"

definition new_FdContext :: "fd \<Rightarrow> 'c fd_context" where
  "new_FdContext fd' = \<lparr>fc_read = empty_context, fc_write = empty_context, fc_fd = fd', fc_events = NONE\<rparr>"

definition getContext :: "u32 \<Rightarrow> 'c fd_context \<Rightarrow> 'c event_context res" where
  "getContext event fc =
     (if event = READ then Inr (fc_read fc)
      else if event = WRITE then Inr (fc_write fc)
      else Inl (AssertFail ''getContext''))"

text \<open>Writing through the reference that \<open>getContext\<close> returned.\<close>

definition putContext :: "u32 \<Rightarrow> 'c event_context \<Rightarrow> 'c fd_context \<Rightarrow> 'c fd_context" where
  "putContext event ctx fc = (if event = READ then fc\<lparr>fc_read := ctx\<rparr> else fc\<lparr>fc_write := ctx\<rparr>)"

definition resetContext :: "'c event_context \<Rightarrow> 'c event_context" where
  "resetContext ctx = ctx\<lparr>ec_scheduler := None, ec_fiber := None, ec_cb := None\<rparr>"

definition set_ctx :: "ctx_ptr \<Rightarrow> 'c fd_context \<Rightarrow> 'c iom \<Rightarrow> 'c iom" where
  "set_ctx p fc s = s\<lparr>ctx_heap := (ctx_heap s)(p := fc)\<rparr>"

definition IOManager_tickle :: "'c iom \<Rightarrow> 'c iom" where
  "IOManager_tickle s = (if \<not> hasIdleThreads s then s else s\<lparr>tickle_pipe := Suc (tickle_pipe s)\<rparr>)"

definition schedule_at :: "sched_ptr \<Rightarrow> 'c callback task \<Rightarrow> 'c iom \<Rightarrow> 'c iom" where
  "schedule_at sch ft s =
     (if sch = self_ptr s then schedule IOManager_tickle ft s
      else s\<lparr>foreign := foreign s @ [(sch, ft)]\<rparr>)"

text \<open>\<^verbatim>\<open>triggerEvent\<close>: scheduling through a pointer leaves the callback or fiber of the context empty.\<close>

definition triggerEvent :: "u32 \<Rightarrow> ctx_ptr \<Rightarrow> 'c iom \<Rightarrow> 'c iom res" where
  "triggerEvent event p s =
     (let fc = ctx_heap s p
      in bindE (SYLAR_ASSERT (fc_events fc AND event \<noteq> 0) ''events & event'') (\<lambda>_.
         let fc1 = fc\<lparr>fc_events := fc_events fc AND NOT event\<rparr>
         in bindE (getContext event fc1) (\<lambda>ctx.
            bindE (deref (ec_scheduler ctx) ''ctx.scheduler'') (\<lambda>sch.
            let (ft, ctx1) = (if ec_cb ctx \<noteq> None then (FT_cb (ec_cb ctx) (- 1), ctx\<lparr>ec_cb := None\<rparr>)
                              else (FT_fiber (ec_fiber ctx) (- 1), ctx\<lparr>ec_fiber := None\<rparr>))
            in Inr (schedule_at sch ft (set_ctx p (putContext event (ctx1\<lparr>ec_scheduler := None\<rparr>) fc1) s))))))"

section \<open>The vector of contexts\<close>

fun fill_contexts :: "nat \<Rightarrow> ctx_ptr option list \<Rightarrow> 'c iom \<Rightarrow> ctx_ptr option list \<times> 'c iom" where
  "fill_contexts i [] s = ([], s)"
| "fill_contexts i (Some p # v) s = (let (v', s') = fill_contexts (Suc i) v s in (Some p # v', s'))"
| "fill_contexts i (None # v) s =
     (let p = next_ctx s;
          s1 = set_ctx p (new_FdContext (int i)) (s\<lparr>next_ctx := Suc p\<rparr>);
          (v', s') = fill_contexts (Suc i) v s1
      in (Some p # v', s'))"

definition contextResize :: "nat \<Rightarrow> 'c iom \<Rightarrow> 'c iom" where
  "contextResize n s =
     (let v = take n (m_fdContexts s) @ replicate (n - length (m_fdContexts s)) None;
          (v', s') = fill_contexts 0 v s
      in s'\<lparr>m_fdContexts := v'\<rparr>)"

text \<open>\<^verbatim>\<open>(int)m_fdContexts.size()\<close> and \<^verbatim>\<open>m_fdContexts[fd]\<close>.\<close>

definition int_size :: "'c iom \<Rightarrow> int" where
  "int_size s = sint (word_of_nat (length (m_fdContexts s)) :: u32)"

definition context_at :: "fd \<Rightarrow> 'c iom \<Rightarrow> ctx_ptr res" where
  "context_at fd' s =
     (if 0 \<le> fd' \<and> nat fd' < length (m_fdContexts s)
      then deref (m_fdContexts s ! nat fd') ''m_fdContexts[fd]''
      else Inl (OutOfRange ''m_fdContexts[fd]''))"

section \<open>Events\<close>

text \<open>
  \<open>addEvent\<close>: the lookup under the read lock (\<open>None\<close>: the vector is too short), the resize under the
  write lock, and the registration under the lock of the context.
\<close>

definition addEvent_find :: "fd \<Rightarrow> 'c iom \<Rightarrow> ctx_ptr option res" where
  "addEvent_find fd' s =
     (if int_size s > fd' then bindE (context_at fd' s) (\<lambda>p. Inr (Some p)) else Inr None)"

definition addEvent_grow :: "fd \<Rightarrow> 'c iom \<Rightarrow> (ctx_ptr \<times> 'c iom) res" where
  "addEvent_grow fd' s =
     (let s1 = contextResize (nat (fd' * 3 div 2)) s
      in bindE (context_at fd' s1) (\<lambda>p. Inr (p, s1)))"

definition addEvent_locked ::
  "epoll_ctl \<Rightarrow> fd \<Rightarrow> u32 \<Rightarrow> 'c callback option \<Rightarrow> ctx_ptr \<Rightarrow> tls \<Rightarrow> 'c iom \<Rightarrow> (int \<times> tls \<times> 'c iom) res" where
  "addEvent_locked ctl fd' event cb p l s =
     (let fc = ctx_heap s p
      in bindE (SYLAR_ASSERT (fc_events fc AND event = 0) ''!(fd_ctx->events & event)'') (\<lambda>_.
         let op = (if fc_events fc \<noteq> 0 then EPOLL_CTL_MOD else EPOLL_CTL_ADD)
         in if ctl op fd' (EPOLLET OR fc_events fc OR event) p \<noteq> 0 then Inr (- 1, l, s)
            else
              let s1 = s\<lparr>m_pendingEventCount := m_pendingEventCount s + 1\<rparr>;
                  fc1 = fc\<lparr>fc_events := fc_events fc OR event\<rparr>
              in bindE (getContext event fc1) (\<lambda>ctx.
                 bindE (SYLAR_ASSERT (ec_scheduler ctx = None \<and> ec_fiber ctx = None \<and> ec_cb ctx = None)
                          ''!event_ctx.scheduler && !event_ctx.fiber && !event_ctx.cb'') (\<lambda>_.
                 let ctx1 = ctx\<lparr>ec_scheduler := t_scheduler l\<rparr>
                 in if cb \<noteq> None then
                      Inr (0, l, set_ctx p (putContext event (ctx1\<lparr>ec_cb := cb\<rparr>) fc1) s1)
                    else
                      let (f, l1, m1) = GetThis l (mem s1)
                      in bindE (SYLAR_ASSERT (state_of m1 f = EXEC) ''event_ctx.fiber->getState() == Fiber::EXEC'') (\<lambda>_.
                         Inr (0, l1, set_ctx p (putContext event (ctx1\<lparr>ec_fiber := Some f\<rparr>) fc1) (s1\<lparr>mem := m1\<rparr>)))))))"

definition addEvent ::
  "epoll_ctl \<Rightarrow> fd \<Rightarrow> u32 \<Rightarrow> 'c callback option \<Rightarrow> tls \<Rightarrow> 'c iom \<Rightarrow> (int \<times> tls \<times> 'c iom) res" where
  "addEvent ctl fd' event cb l s =
     bindE (addEvent_find fd' s) (\<lambda>found.
     bindE (case found of Some p \<Rightarrow> Inr (p, s) | None \<Rightarrow> addEvent_grow fd' s) (\<lambda>(p, s1).
     addEvent_locked ctl fd' event cb p l s1))"

definition delEvent :: "epoll_ctl \<Rightarrow> fd \<Rightarrow> u32 \<Rightarrow> 'c iom \<Rightarrow> (bool \<times> 'c iom) res" where
  "delEvent ctl fd' event s =
     (if int_size s \<le> fd' then Inr (False, s)
      else
        bindE (context_at fd' s) (\<lambda>p.
        let fc = ctx_heap s p
        in if fc_events fc AND event = 0 then Inr (False, s)
           else
             let new_events = fc_events fc AND NOT event;
                 op = (if new_events \<noteq> 0 then EPOLL_CTL_MOD else EPOLL_CTL_DEL)
             in if ctl op fd' (EPOLLET OR new_events) p \<noteq> 0 then Inr (False, s)
                else
                  let s1 = s\<lparr>m_pendingEventCount := m_pendingEventCount s - 1\<rparr>;
                      fc1 = fc\<lparr>fc_events := new_events\<rparr>
                  in bindE (getContext event fc1) (\<lambda>ctx.
                     Inr (True, set_ctx p (putContext event (resetContext ctx) fc1) s1))))"

definition cancelEvent :: "epoll_ctl \<Rightarrow> fd \<Rightarrow> u32 \<Rightarrow> 'c iom \<Rightarrow> (bool \<times> 'c iom) res" where
  "cancelEvent ctl fd' event s =
     (if int_size s \<le> fd' then Inr (False, s)
      else
        bindE (context_at fd' s) (\<lambda>p.
        let fc = ctx_heap s p
        in if fc_events fc AND event = 0 then Inr (False, s)
           else
             let new_events = fc_events fc AND NOT event;
                 op = (if new_events \<noteq> 0 then EPOLL_CTL_MOD else EPOLL_CTL_DEL)
             in if ctl op fd' (EPOLLET OR new_events) p \<noteq> 0 then Inr (False, s)
                else
                  bindE (triggerEvent event p s) (\<lambda>s1.
                  Inr (True, s1\<lparr>m_pendingEventCount := m_pendingEventCount s1 - 1\<rparr>))))"

text \<open>\<^verbatim>\<open>if(flag) { fd_ctx->triggerEvent(event); --m_pendingEventCount; }\<close>, as in \<open>cancelAll\<close> and \<open>idle\<close>.\<close>

definition trigger_if :: "bool \<Rightarrow> u32 \<Rightarrow> ctx_ptr \<Rightarrow> 'c iom \<Rightarrow> 'c iom res" where
  "trigger_if flag event p s =
     (if flag then bindE (triggerEvent event p s) (\<lambda>s1.
        Inr (s1\<lparr>m_pendingEventCount := m_pendingEventCount s1 - 1\<rparr>))
      else Inr s)"

definition cancelAll :: "epoll_ctl \<Rightarrow> fd \<Rightarrow> 'c iom \<Rightarrow> (bool \<times> 'c iom) res" where
  "cancelAll ctl fd' s =
     (if int_size s \<le> fd' then Inr (False, s)
      else
        bindE (context_at fd' s) (\<lambda>p.
        if fc_events (ctx_heap s p) = 0 then Inr (False, s)
        else if ctl EPOLL_CTL_DEL fd' 0 p \<noteq> 0 then Inr (False, s)
        else
          bindE (trigger_if (fc_events (ctx_heap s p) AND READ \<noteq> 0) READ p s) (\<lambda>s1.
          bindE (trigger_if (fc_events (ctx_heap s1 p) AND WRITE \<noteq> 0) WRITE p s1) (\<lambda>s2.
          bindE (SYLAR_ASSERT (fc_events (ctx_heap s2 p) = 0) ''fd_ctx->events == 0'') (\<lambda>_.
          Inr (True, s2))))))"

section \<open>Stopping, timers and the idle loop\<close>

definition stopping_timeout :: "u64 \<Rightarrow> 'c iom \<Rightarrow> bool \<times> u64 \<times> 'c iom" where
  "stopping_timeout now s =
     (let (timeout, tm) = getNextTimer now (timers s)
      in (timeout = - 1 \<and> m_pendingEventCount s = 0 \<and> Scheduler_stopping s, timeout, s\<lparr>timers := tm\<rparr>))"

definition IOManager_stopping :: "u64 \<Rightarrow> 'c iom \<Rightarrow> bool \<times> 'c iom" where
  "IOManager_stopping now s = (let (b, timeout, s1) = stopping_timeout now s in (b, s1))"

definition onTimerInsertedAtFront :: "'c iom \<Rightarrow> 'c iom" where
  "onTimerInsertedAtFront s = IOManager_tickle s"

text \<open>\<^verbatim>\<open>addTimer\<close> and \<^verbatim>\<open>addConditionTimer\<close> of the base class \<^verbatim>\<open>TimerManager\<close> on this object.\<close>

definition IOManager_addTimer ::
  "u64 \<Rightarrow> 'c callback option \<Rightarrow> bool \<Rightarrow> u64 \<Rightarrow> timer_ptr \<Rightarrow> 'c iom \<Rightarrow> 'c iom" where
  "IOManager_addTimer ms cb recurring now p s =
     (let (at_front, tm) = addTimer ms cb recurring now p (timers s);
          s1 = s\<lparr>timers := tm\<rparr>
      in if at_front then onTimerInsertedAtFront s1 else s1)"

definition IOManager_addConditionTimer ::
  "u64 \<Rightarrow> 'c callback option \<Rightarrow> weak_ptr \<Rightarrow> bool \<Rightarrow> u64 \<Rightarrow> timer_ptr \<Rightarrow> 'c iom \<Rightarrow> 'c iom" where
  "IOManager_addConditionTimer ms cb weak_cond recurring now p s =
     IOManager_addTimer ms (Some (BindOnTimer weak_cond cb)) recurring now p s"

definition MAX_TIMEOUT :: int where "MAX_TIMEOUT = 3000"

text \<open>\<^verbatim>\<open>(int)x\<close> for a \<^verbatim>\<open>uint64_t\<close>.\<close>

definition to_int :: "u64 \<Rightarrow> int" where
  "to_int x = sint (ucast x :: u32)"

definition clamp_timeout :: "u64 \<Rightarrow> u64" where
  "clamp_timeout next_timeout =
     (if next_timeout \<noteq> - 1
      then (if to_int next_timeout > MAX_TIMEOUT then word_of_int MAX_TIMEOUT else next_timeout)
      else word_of_int MAX_TIMEOUT)"

text \<open>
  The loop around \<^verbatim>\<open>epoll_wait\<close>: \<open>results\<close> are the results of its calls, \<open>None\<close> a call interrupted by
  a signal. The value is the timeout of the last call with the events it returned (none when it
  failed), \<open>None\<close> while every call was interrupted.
\<close>

fun epoll_wait_loop :: "u64 \<Rightarrow> epoll_event list option list \<Rightarrow> (int \<times> epoll_event list) option" where
  "epoll_wait_loop next_timeout [] = None"
| "epoll_wait_loop next_timeout (None # results) = epoll_wait_loop (clamp_timeout next_timeout) results"
| "epoll_wait_loop next_timeout (Some events # results) = Some (to_int (clamp_timeout next_timeout), events)"

text \<open>The body of the loop over the events.\<close>

definition handle_event :: "epoll_ctl \<Rightarrow> epoll_event \<Rightarrow> 'c iom \<Rightarrow> 'c iom res" where
  "handle_event ctl event s =
     (case ev_data event of
        DataFd fd' \<Rightarrow>
          if fd' = fst (m_tickleFds s) then Inr (s\<lparr>tickle_pipe := 0\<rparr>) else Inl (NullDeref ''event.data.ptr'')
      | DataPtr p \<Rightarrow>
          let fc = ctx_heap s p;
              events = (if ev_events event AND (EPOLLERR OR EPOLLHUP) \<noteq> 0
                        then ev_events event OR ((EPOLLIN OR EPOLLOUT) AND fc_events fc)
                        else ev_events event);
              real_events = (if events AND EPOLLIN \<noteq> 0 then READ else NONE)
                         OR (if events AND EPOLLOUT \<noteq> 0 then WRITE else NONE)
          in if fc_events fc AND real_events = NONE then Inr s
             else
               let left_events = fc_events fc AND NOT real_events;
                   op = (if left_events \<noteq> 0 then EPOLL_CTL_MOD else EPOLL_CTL_DEL)
               in if ctl op (fc_fd fc) (EPOLLET OR left_events) p \<noteq> 0 then Inr s
                  else
                    bindE (trigger_if (real_events AND READ \<noteq> 0) READ p s) (\<lambda>s1.
                    trigger_if (real_events AND WRITE \<noteq> 0) WRITE p s1))"

fun handle_events :: "epoll_ctl \<Rightarrow> epoll_event list \<Rightarrow> 'c iom \<Rightarrow> 'c iom res" where
  "handle_events ctl [] s = Inr s"
| "handle_events ctl (event # events) s = bindE (handle_event ctl event s) (handle_events ctl events)"

text \<open>
  One turn of \<^verbatim>\<open>IOManager::idle\<close> on the idle fiber of a worker: \<open>now1\<close> and \<open>now2\<close> are the times at which
  the timers are looked at, \<open>q\<close> the address of the temporary timer, \<open>results\<close> what \<^verbatim>\<open>epoll_wait\<close> returns.
  \<open>None\<close>: the thread is still inside \<^verbatim>\<open>epoll_wait\<close>.
\<close>

definition IOManager_idle ::
  "epoll_ctl \<Rightarrow> u64 \<Rightarrow> u64 \<Rightarrow> timer_ptr \<Rightarrow> epoll_event list option list \<Rightarrow> 'c callback worker \<Rightarrow> 'c iom \<Rightarrow>
   ('c callback worker \<times> 'c iom) option res" where
  "IOManager_idle ctl now1 now2 q results w s =
     (let (b, next_timeout, s1) = stopping_timeout now1 s
      in if b then
           bindE (MainFunc (w_idle_fiber w) Returned (w_tls w) (mem s1)) (\<lambda>(l, m).
           Inr (Some (w\<lparr>w_tls := l\<rparr>, s1\<lparr>mem := m\<rparr>)))
         else
           (case epoll_wait_loop next_timeout results of
              None \<Rightarrow> Inr None
            | Some (timeout, events) \<Rightarrow>
                bindE (listExpiredCb now2 q [] (timers s1)) (\<lambda>(cbs, tm).
                let s2 = s1\<lparr>timers := tm\<rparr>;
                    s3 = (if cbs \<noteq> [] then schedule_range IOManager_tickle (map (\<lambda>cb. FT_cb cb (- 1)) cbs) s2 else s2)
                in bindE (handle_events ctl events s3) (\<lambda>s4.
                   let (cur, l1, m1) = GetThis (w_tls w) (mem s4)
                   in bindE (swapOut cur l1 m1) (\<lambda>(l2, m2).
                      Inr (Some (w\<lparr>w_tls := l2\<rparr>, s4\<lparr>mem := m2\<rparr>)))))))"

text \<open>
  The constructor, on top of that of the scheduler: \<open>epfd\<close> and \<open>fds\<close> are the new descriptors; each
  system call has its result (\<open>0\<close> is success). It ends by starting the threads.
\<close>

definition new_IOManager ::
  "u32 \<Rightarrow> nat \<Rightarrow> bool \<Rightarrow> string \<Rightarrow> sched_ptr \<Rightarrow> 'c callback \<Rightarrow> thread_id \<Rightarrow> (nat \<Rightarrow> thread_id) \<Rightarrow> u64 \<Rightarrow>
   fd \<Rightarrow> int \<Rightarrow> fd \<times> fd \<Rightarrow> int \<Rightarrow> int \<Rightarrow> tls \<Rightarrow> 'c callback fiber_mem \<Rightarrow> (tls \<times> 'c iom) res" where
  "new_IOManager dflt threads use_caller name this run tid ids now epfd pipe_rt fds fcntl_rt ctl_rt l m =
     bindE (new_Scheduler dflt threads use_caller name this run tid l m) (\<lambda>(l1, s).
     bindE (SYLAR_ASSERT (epfd > 0) ''m_epfd > 0'') (\<lambda>_.
     bindE (SYLAR_ASSERT (pipe_rt = 0) ''!rt'') (\<lambda>_.
     bindE (SYLAR_ASSERT (fcntl_rt = 0) ''!rt'') (\<lambda>_.
     bindE (SYLAR_ASSERT (ctl_rt = 0) ''!rt'') (\<lambda>_.
     let s1 = sched.extend s (iom.fields (new_TimerManager now) epfd fds 0 0
                (\<lambda>_. new_FdContext 0) 0 [] this [])
     in bindE (start ids (contextResize 32 s1)) (\<lambda>s2. Inr (l1, s2)))))))"

text \<open>The destructor: \<open>stop\<close>, then the contexts of the vector are deleted.\<close>

definition delete_IOManager ::
  "u64 \<Rightarrow> ('c iom \<Rightarrow> 'c iom res) \<Rightarrow> sched_ptr \<Rightarrow> tls \<Rightarrow> 'c iom \<Rightarrow> 'c iom res" where
  "delete_IOManager now call_root this l s =
     bindE (stop IOManager_tickle (IOManager_stopping now) call_root this l s) (\<lambda>s1.
     Inr (s1\<lparr>m_fdContexts := []\<rparr>))"

section \<open>Invariant\<close>

text \<open>
  A bit of \<open>events\<close> is set exactly when the context of that event is occupied (by a callback or by a
  fiber), and \<open>m_pendingEventCount\<close> is the number of registered events over all contexts ever made,
  also those no longer in the vector.
\<close>

definition ev_ok :: "u32 \<Rightarrow> bool" where
  "ev_ok e \<longleftrightarrow> e = NONE \<or> e = READ \<or> e = WRITE \<or> e = READ OR WRITE"

definition ev_count :: "u32 \<Rightarrow> nat" where
  "ev_count e = of_bool (e AND READ \<noteq> 0) + of_bool (e AND WRITE \<noteq> 0)"

definition ec_ok :: "bool \<Rightarrow> 'c event_context \<Rightarrow> bool" where
  "ec_ok registered ctx \<longleftrightarrow>
     (if registered then (ec_cb ctx = None) \<noteq> (ec_fiber ctx = None) else ctx = empty_context)"

definition ctx_ok :: "'c fd_context \<Rightarrow> bool" where
  "ctx_ok fc \<longleftrightarrow> ev_ok (fc_events fc) \<and>
     ec_ok (fc_events fc AND READ \<noteq> 0) (fc_read fc) \<and> ec_ok (fc_events fc AND WRITE \<noteq> 0) (fc_write fc)"

definition registered :: "'c iom \<Rightarrow> nat" where
  "registered s = (\<Sum>p < next_ctx s. ev_count (fc_events (ctx_heap s p)))"

definition iom_inv :: "'c iom \<Rightarrow> bool" where
  "iom_inv s \<longleftrightarrow>
     (\<forall>p < next_ctx s. ctx_ok (ctx_heap s p)) \<and>
     m_pendingEventCount s = of_nat (registered s) \<and>
     (\<forall>i < length (m_fdContexts s). \<exists>p < next_ctx s. m_fdContexts s ! i = Some p \<and> fc_fd (ctx_heap s p) = int i)"

abbreviation is_event :: "u32 \<Rightarrow> bool" where
  "is_event e \<equiv> e = READ \<or> e = WRITE"

lemma event_bits [simp]:
  "READ AND READ = READ" "WRITE AND WRITE = WRITE" "READ AND WRITE = 0" "WRITE AND READ = 0"
  "READ \<noteq> 0" "WRITE \<noteq> 0" "READ \<noteq> WRITE" "WRITE \<noteq> READ"
  "READ AND NOT READ = 0" "WRITE AND NOT WRITE = 0" "READ AND NOT WRITE = READ" "WRITE AND NOT READ = WRITE"
  "(READ OR WRITE) AND READ = READ" "(READ OR WRITE) AND WRITE = WRITE"
  "(READ OR WRITE) AND NOT READ = WRITE" "(READ OR WRITE) AND NOT WRITE = READ"
  "WRITE OR READ = READ OR WRITE" "READ OR WRITE \<noteq> 0"
  "READ OR READ = READ" "WRITE OR WRITE = WRITE" "READ OR (READ OR WRITE) = READ OR WRITE"
  by (simp_all add: READ_def WRITE_def)

lemma NONE_zero [simp]: "NONE = 0" by (simp add: NONE_def)

lemma ev_ok_set:
  assumes "ev_ok e" and "is_event event" and "e AND event = 0"
  shows "ev_ok (e OR event)" "ev_count (e OR event) = Suc (ev_count e)"
    "(e OR event) AND READ \<noteq> 0 \<longleftrightarrow> e AND READ \<noteq> 0 \<or> event = READ"
    "(e OR event) AND WRITE \<noteq> 0 \<longleftrightarrow> e AND WRITE \<noteq> 0 \<or> event = WRITE"
  using assms by (auto simp: ev_ok_def ev_count_def)

lemma ev_ok_clear:
  assumes "ev_ok e" and "is_event event" and "e AND event \<noteq> 0"
  shows "ev_ok (e AND NOT event)" "Suc (ev_count (e AND NOT event)) = ev_count e"
    "(e AND NOT event) AND READ \<noteq> 0 \<longleftrightarrow> e AND READ \<noteq> 0 \<and> event \<noteq> READ"
    "(e AND NOT event) AND WRITE \<noteq> 0 \<longleftrightarrow> e AND WRITE \<noteq> 0 \<and> event \<noteq> WRITE"
  using assms by (auto simp: ev_ok_def ev_count_def)

text \<open>The virtual functions meet the contract of the base class.\<close>

interpretation io: scheduler_virtuals IOManager_tickle "IOManager_stopping now" for now
  by unfold_locales
     (simp_all add: IOManager_tickle_def IOManager_stopping_def stopping_timeout_def sched.truncate_def split: prod.splits)

lemma schedule_frame [simp]:
  "ctx_heap (schedule IOManager_tickle ft s) = ctx_heap s"
  "next_ctx (schedule IOManager_tickle ft s) = next_ctx s"
  "m_fdContexts (schedule IOManager_tickle ft s) = m_fdContexts s"
  "m_pendingEventCount (schedule IOManager_tickle ft s) = m_pendingEventCount s"
  "timers (schedule IOManager_tickle ft s) = timers s"
  "self_ptr (schedule IOManager_tickle ft s) = self_ptr s"
  "foreign (schedule IOManager_tickle ft s) = foreign s"
  by (simp_all add: schedule_def schedulerNoLock_def IOManager_tickle_def Let_def)

lemma schedule_at_frame [simp]:
  "ctx_heap (schedule_at sch ft s) = ctx_heap s"
  "next_ctx (schedule_at sch ft s) = next_ctx s"
  "m_fdContexts (schedule_at sch ft s) = m_fdContexts s"
  "m_pendingEventCount (schedule_at sch ft s) = m_pendingEventCount s"
  "timers (schedule_at sch ft s) = timers s"
  "self_ptr (schedule_at sch ft s) = self_ptr s"
  "mem (schedule_at sch ft s) = mem s"
  "m_activeThreadCount (schedule_at sch ft s) = m_activeThreadCount s"
  "m_idleThreadCount (schedule_at sch ft s) = m_idleThreadCount s"
  by (simp_all add: schedule_at_def io.schedule_fields)

lemma set_ctx_simps [simp]:
  "ctx_heap (set_ctx p fc s) = (ctx_heap s)(p := fc)" "next_ctx (set_ctx p fc s) = next_ctx s"
  "m_fdContexts (set_ctx p fc s) = m_fdContexts s" "m_pendingEventCount (set_ctx p fc s) = m_pendingEventCount s"
  "timers (set_ctx p fc s) = timers s" "self_ptr (set_ctx p fc s) = self_ptr s" "mem (set_ctx p fc s) = mem s"
  "m_fibers (set_ctx p fc s) = m_fibers s" "foreign (set_ctx p fc s) = foreign s"
  "m_activeThreadCount (set_ctx p fc s) = m_activeThreadCount s"
  "m_idleThreadCount (set_ctx p fc s) = m_idleThreadCount s"
  by (simp_all add: set_ctx_def)

lemma putContext_simps [simp]:
  "fc_events (putContext e ctx fc) = fc_events fc" "fc_fd (putContext e ctx fc) = fc_fd fc"
  "fc_read (putContext READ ctx fc) = ctx" "fc_write (putContext READ ctx fc) = fc_write fc"
  "fc_read (putContext WRITE ctx fc) = fc_read fc" "fc_write (putContext WRITE ctx fc) = ctx"
  by (simp_all add: putContext_def)

lemma getContext_simps [simp]:
  "getContext READ fc = Inr (fc_read fc)" "getContext WRITE fc = Inr (fc_write fc)"
  by (simp_all add: getContext_def)

text \<open>Replacing one context keeps the invariant when the counter follows.\<close>

lemma registered_update:
  assumes "p < next_ctx s" and "ctx_heap s' = (ctx_heap s)(p := fc)" and "next_ctx s' = next_ctx s"
  shows "registered s' + ev_count (fc_events (ctx_heap s p)) = registered s + ev_count (fc_events fc)"
proof -
  have "(\<Sum>x \<in> {..<next_ctx s} - {p}. ev_count (fc_events (((ctx_heap s)(p := fc)) x))) =
      (\<Sum>x \<in> {..<next_ctx s} - {p}. ev_count (fc_events (ctx_heap s x)))"
    by (rule sum.cong) auto
  then show ?thesis
    using assms by (simp add: registered_def sum.remove [of "{..<next_ctx s}" p])
qed

lemma iom_inv_update:
  assumes "iom_inv s" and "p < next_ctx s" and "ctx_ok fc" and "fc_fd fc = fc_fd (ctx_heap s p)"
    and "ctx_heap s' = (ctx_heap s)(p := fc)" and "next_ctx s' = next_ctx s" and "m_fdContexts s' = m_fdContexts s"
    and "m_pendingEventCount s' + of_nat (ev_count (fc_events (ctx_heap s p))) =
         m_pendingEventCount s + of_nat (ev_count (fc_events fc))"
  shows "iom_inv s'"
proof -
  have "of_nat (registered s') + of_nat (ev_count (fc_events (ctx_heap s p))) =
      (of_nat (registered s) + of_nat (ev_count (fc_events fc)) :: u64)"
    using registered_update [OF assms(2,5,6)] by (metis of_nat_add)
  then have "m_pendingEventCount s' = of_nat (registered s')"
    using assms(1,8) unfolding iom_inv_def by (metis add_right_cancel)
  moreover have "\<exists>q < next_ctx s'. m_fdContexts s' ! i = Some q \<and> fc_fd (ctx_heap s' q) = int i"
    if "i < length (m_fdContexts s')" for i
    using assms that unfolding iom_inv_def by (metis fun_upd_apply)
  ultimately show ?thesis using assms(1,3,5,6) by (simp add: iom_inv_def)
qed

section \<open>The operations keep the invariant\<close>

lemma ctx_ok_new [simp]: "ctx_ok (new_FdContext i)" "fc_events (new_FdContext i) = 0" "fc_fd (new_FdContext i) = i"
  by (simp_all add: ctx_ok_def new_FdContext_def ev_ok_def ec_ok_def)

lemma ev_count_0 [simp]: "ev_count 0 = 0"
  by (simp add: ev_count_def)

lemma fill_contexts_spec:
  assumes "fill_contexts i v s = (v', s')"
  shows "length v' = length v \<and> next_ctx s \<le> next_ctx s' \<and>
    (\<forall>p < next_ctx s. ctx_heap s' p = ctx_heap s p) \<and>
    (\<forall>p < next_ctx s'. next_ctx s \<le> p \<longrightarrow> (\<exists>j. ctx_heap s' p = new_FdContext j)) \<and>
    (\<forall>j < length v. case v ! j of
         Some p \<Rightarrow> v' ! j = Some p
       | None \<Rightarrow> \<exists>p < next_ctx s'. v' ! j = Some p \<and> next_ctx s \<le> p \<and> ctx_heap s' p = new_FdContext (int (i + j)))"
  using assms
proof (induction i v s arbitrary: v' s' rule: fill_contexts.induct)
  case (1 i s)
  then show ?case by simp
next
  case (2 i p v s)
  obtain v1 s1 where r: "fill_contexts (Suc i) v s = (v1, s1)" by fastforce
  with 2(2) have e: "v' = Some p # v1" "s' = s1" by simp_all
  note ih = 2(1) [OF r]
  have "case (Some p # v) ! j of Some p \<Rightarrow> v' ! j = Some p
       | None \<Rightarrow> \<exists>p < next_ctx s'. v' ! j = Some p \<and> next_ctx s \<le> p \<and> ctx_heap s' p = new_FdContext (int (i + j))"
    if "j < length (Some p # v)" for j
  proof (cases j)
    case 0
    then show ?thesis by (simp add: e)
  next
    case (Suc k)
    then show ?thesis using ih that by (auto simp: e split: option.splits dest!: spec [of _ k])
  qed
  with ih show ?case by (auto simp: e)
next
  case (3 i v s)
  let ?s1 = "set_ctx (next_ctx s) (new_FdContext (int i)) (s\<lparr>next_ctx := Suc (next_ctx s)\<rparr>)"
  obtain v1 s1 where r: "fill_contexts (Suc i) v ?s1 = (v1, s1)" by fastforce
  with 3(2) have e: "v' = Some (next_ctx s) # v1" "s' = s1" by (simp_all add: Let_def)
  have ih: "length v1 = length v" "Suc (next_ctx s) \<le> next_ctx s1"
    "\<forall>p < Suc (next_ctx s). ctx_heap s1 p = ((ctx_heap s)(next_ctx s := new_FdContext (int i))) p"
    "\<forall>p < next_ctx s1. Suc (next_ctx s) \<le> p \<longrightarrow> (\<exists>j. ctx_heap s1 p = new_FdContext j)"
    "\<forall>j < length v. case v ! j of Some p \<Rightarrow> v1 ! j = Some p
       | None \<Rightarrow> \<exists>p < next_ctx s1. v1 ! j = Some p \<and> Suc (next_ctx s) \<le> p \<and> ctx_heap s1 p = new_FdContext (int (Suc i + j))"
    using 3(1) [OF refl refl r] by (simp_all add: Let_def cong: option.case_cong)
  have "\<exists>j. ctx_heap s1 p = new_FdContext j" if "p < next_ctx s1" "next_ctx s \<le> p" for p
    using ih(3,4) that by (cases "p = next_ctx s") (auto simp: less_Suc_eq)
  moreover have "case (None # v) ! j of Some p \<Rightarrow> v' ! j = Some p
       | None \<Rightarrow> \<exists>p < next_ctx s'. v' ! j = Some p \<and> next_ctx s \<le> p \<and> ctx_heap s' p = new_FdContext (int (i + j))"
    if "j < length (None # v)" for j
  proof (cases j)
    case 0
    then show ?thesis using ih(2,3) by (auto simp: e)
  next
    case (Suc k)
    then show ?thesis using ih(5) that by (auto simp: e split: option.splits dest!: spec [of _ k])
  qed
  ultimately show ?case using ih(1,2,3) by (auto simp: e)
qed

lemma fill_contexts_frame:
  "fill_contexts i v s = (v', s') \<Longrightarrow> \<exists>h n. s' = s\<lparr>ctx_heap := h, next_ctx := n\<rparr>"
proof (induction i v s arbitrary: v' s' rule: fill_contexts.induct)
  case (1 i s)
  then have "s' = s\<lparr>ctx_heap := ctx_heap s, next_ctx := next_ctx s\<rparr>" by simp
  then show ?case by blast
next
  case (2 i p v s)
  then show ?case by (auto split: prod.splits)
next
  case (3 i v s)
  obtain v1 s1 where r: "fill_contexts (Suc i) v (set_ctx (next_ctx s) (new_FdContext (int i)) (s\<lparr>next_ctx := Suc (next_ctx s)\<rparr>)) = (v1, s1)"
    by fastforce
  obtain h n where "s1 = (set_ctx (next_ctx s) (new_FdContext (int i)) (s\<lparr>next_ctx := Suc (next_ctx s)\<rparr>))\<lparr>ctx_heap := h, next_ctx := n\<rparr>"
    using 3(1) [OF refl refl r] by blast
  then have "s' = s\<lparr>ctx_heap := h, next_ctx := n\<rparr>" using 3(2) r by (simp add: Let_def set_ctx_def)
  then show ?case by blast
qed

lemma contextResize_frame: "\<exists>h n v. contextResize k s = s\<lparr>ctx_heap := h, next_ctx := n, m_fdContexts := v\<rparr>"
proof -
  obtain v' s' where r: "fill_contexts 0 (take k (m_fdContexts s) @ replicate (k - length (m_fdContexts s)) None) s = (v', s')"
    by fastforce
  with fill_contexts_frame [OF r] show ?thesis by (auto simp: contextResize_def Let_def)
qed

lemma contextResize_spec:
  assumes "iom_inv s"
  shows "iom_inv (contextResize k s) \<and> length (m_fdContexts (contextResize k s)) = k \<and>
    next_ctx s \<le> next_ctx (contextResize k s) \<and> registered (contextResize k s) = registered s \<and>
    (\<forall>p < next_ctx s. ctx_heap (contextResize k s) p = ctx_heap s p) \<and>
    (\<forall>i < min k (length (m_fdContexts s)). m_fdContexts (contextResize k s) ! i = m_fdContexts s ! i)"
proof -
  let ?v = "take k (m_fdContexts s) @ replicate (k - length (m_fdContexts s)) None"
  obtain v' s' where r: "fill_contexts 0 ?v s = (v', s')" by fastforce
  have c: "contextResize k s = s'\<lparr>m_fdContexts := v'\<rparr>" using r by (simp add: contextResize_def)
  note f = fill_contexts_spec [OF r]
  have len: "length v' = k" using f by simp
  have new: "ev_count (fc_events (ctx_heap s' p)) = 0 \<and> ctx_ok (ctx_heap s' p)"
    if "p < next_ctx s'" "next_ctx s \<le> p" for p
    using f that by force
  have "(\<Sum>p < next_ctx s'. ev_count (fc_events (ctx_heap s' p))) =
      (\<Sum>p < next_ctx s. ev_count (fc_events (ctx_heap s' p)))"
    using f new by (intro sum.mono_neutral_right) auto
  also have "\<dots> = registered s" unfolding registered_def using f by (intro sum.cong) auto
  finally have reg: "registered s' = registered s" by (simp add: registered_def)
  have "m_pendingEventCount s' = m_pendingEventCount s"
    using fill_contexts_frame [OF r] by auto
  then have pending: "m_pendingEventCount s' = of_nat (registered s')"
    using assms reg by (simp add: iom_inv_def)
  have ok: "ctx_ok (ctx_heap s' p)" if "p < next_ctx s'" for p
    using f new [OF that] that assms by (cases "p < next_ctx s") (auto simp: iom_inv_def)
  have old: "v' ! i = m_fdContexts s ! i" if "i < min k (length (m_fdContexts s))" for i
  proof -
    from that assms obtain p where "m_fdContexts s ! i = Some p" by (auto simp: iom_inv_def)
    moreover from this that have "?v ! i = Some p" "i < length ?v" by (auto simp: nth_append)
    ultimately show ?thesis using f by (auto split: option.splits dest!: spec [of _ i])
  qed
  have "\<exists>p < next_ctx s'. v' ! i = Some p \<and> fc_fd (ctx_heap s' p) = int i" if "i < k" for i
  proof (cases "i < length (m_fdContexts s)")
    case True
    with assms obtain p where "p < next_ctx s" "m_fdContexts s ! i = Some p" "fc_fd (ctx_heap s p) = int i"
      by (auto simp: iom_inv_def)
    moreover have "v' ! i = m_fdContexts s ! i" using old True that by simp
    ultimately show ?thesis using f by fastforce
  next
    case False
    with that have "?v ! i = None" "i < length ?v" by (auto simp: nth_append)
    with f show ?thesis by (fastforce split: option.splits dest!: spec [of _ i])
  qed
  with pending ok len have "iom_inv (contextResize k s)"
    by (simp add: c iom_inv_def registered_def)
  with len old f reg show ?thesis by (auto simp: c registered_def)
qed

lemma context_at_inv:
  assumes "iom_inv s" and "context_at fd' s = Inr p"
  shows "p < next_ctx s" "fc_fd (ctx_heap s p) = fd'"
  using assms by (auto simp: context_at_def iom_inv_def deref_eq_Inr split: if_splits)

lemma ctx_ok_at: "iom_inv s \<Longrightarrow> p < next_ctx s \<Longrightarrow> ctx_ok (ctx_heap s p)"
  by (simp add: iom_inv_def)

lemma ctx_ok_cleared:
  assumes "ctx_ok fc" and "is_event event" and "fc_events fc AND event \<noteq> 0"
  shows "ctx_ok (putContext event empty_context (fc\<lparr>fc_events := fc_events fc AND NOT event\<rparr>))"
  using assms ev_ok_clear [of "fc_events fc" event] by (auto simp: ctx_ok_def ec_ok_def)

lemma ctx_ok_occupied:
  assumes "ctx_ok fc" and "is_event event" and "fc_events fc AND event = 0" and "ec_ok True ctx"
  shows "ctx_ok (putContext event ctx (fc\<lparr>fc_events := fc_events fc OR event\<rparr>))"
  using assms ev_ok_set [of "fc_events fc" event] by (auto simp: ctx_ok_def)

text \<open>The context of a registered event, and the task it holds.\<close>

definition event_ctx :: "u32 \<Rightarrow> 'c fd_context \<Rightarrow> 'c event_context" where
  "event_ctx event fc = (if event = READ then fc_read fc else fc_write fc)"

definition task_of_ctx :: "'c event_context \<Rightarrow> 'c callback task" where
  "task_of_ctx ctx = (if ec_cb ctx \<noteq> None then FT_cb (ec_cb ctx) (- 1) else FT_fiber (ec_fiber ctx) (- 1))"

lemma triggerEvent_eq:
  assumes "ctx_ok (ctx_heap s p)" and "is_event event"
  shows "triggerEvent event p s =
    (if fc_events (ctx_heap s p) AND event = 0 then Inl (AssertFail ''events & event'')
     else case ec_scheduler (event_ctx event (ctx_heap s p)) of
            None \<Rightarrow> Inl (NullDeref ''ctx.scheduler'')
          | Some sch \<Rightarrow> Inr (schedule_at sch (task_of_ctx (event_ctx event (ctx_heap s p)))
              (set_ctx p (putContext event empty_context
                 ((ctx_heap s p)\<lparr>fc_events := fc_events (ctx_heap s p) AND NOT event\<rparr>)) s)))"
proof -
  have "getContext event (fc\<lparr>fc_events := e\<rparr>) = Inr (event_ctx event fc)" for e and fc :: "'a fd_context"
    using assms(2) by (auto simp: event_ctx_def)
  moreover have "ec_ok True (event_ctx event (ctx_heap s p))" if "fc_events (ctx_heap s p) AND event \<noteq> 0"
    using assms that by (auto simp: ctx_ok_def event_ctx_def)
  moreover have "ec_fiber x = None \<Longrightarrow> x\<lparr>ec_cb := None, ec_scheduler := None\<rparr> = empty_context"
    "ec_cb x = None \<Longrightarrow> x\<lparr>ec_fiber := None, ec_scheduler := None\<rparr> = empty_context" for x :: "'a event_context"
    by (simp_all add: empty_context_def)
  ultimately show ?thesis
    by (auto simp: triggerEvent_def task_of_ctx_def ec_ok_def Let_def split: option.splits)
qed

lemma task_of_ctx_ok: "ec_ok True ctx \<Longrightarrow> task_ok (task_of_ctx ctx)"
  by (auto simp: task_of_ctx_def task_ok_def ec_ok_def FT_cb_def FT_fiber_def)

text \<open>An operation only appends tasks to the queue and leaves the counters of the scheduler alone.\<close>

definition only_appends :: "('c, 'z) sched_scheme \<Rightarrow> ('c, 'z) sched_scheme \<Rightarrow> bool" where
  "only_appends s s' \<longleftrightarrow> (\<exists>q. m_fibers s' = m_fibers s @ q \<and> (\<forall>ft \<in> set q. task_ok ft)) \<and>
     m_activeThreadCount s' = m_activeThreadCount s \<and> m_idleThreadCount s' = m_idleThreadCount s"

lemma only_appends_refl [simp]: "only_appends s s"
  by (simp add: only_appends_def)

lemma only_appends_trans [trans]: "only_appends s t \<Longrightarrow> only_appends t u \<Longrightarrow> only_appends s u"
  by (auto simp: only_appends_def)

lemma only_appends_schedule_at: "only_appends s (schedule_at sch ft (set_ctx p fc s))"
  by (auto simp: only_appends_def schedule_at_def io.schedule_fields)

lemma trigger_if_inv:
  assumes "iom_inv s" and "p < next_ctx s" and "is_event event" and "trigger_if flag event p s = Inr s'"
  shows "iom_inv s' \<and> only_appends s s' \<and> next_ctx s' = next_ctx s \<and>
    fc_events (ctx_heap s' p) = (if flag then fc_events (ctx_heap s p) AND NOT event else fc_events (ctx_heap s p))"
proof (cases flag)
  case True
  let ?fc = "ctx_heap s p"
  let ?fc' = "putContext event empty_context (?fc\<lparr>fc_events := fc_events ?fc AND NOT event\<rparr>)"
  have ok: "ctx_ok ?fc" using ctx_ok_at assms by blast
  obtain sch where set: "fc_events ?fc AND event \<noteq> 0"
    and s': "s' = (let s1 = schedule_at sch (task_of_ctx (event_ctx event ?fc)) (set_ctx p ?fc' s)
             in s1\<lparr>m_pendingEventCount := m_pendingEventCount s1 - 1\<rparr>)"
    using assms(4) True triggerEvent_eq [OF ok assms(3)]
    by (auto simp: trigger_if_def bindE_eq_Inr split: if_splits option.splits)
  have "iom_inv s'"
  proof (rule iom_inv_update [OF assms(1,2), of ?fc'])
    show "ctx_ok ?fc'" by (rule ctx_ok_cleared [OF ok assms(3) set])
    have "Suc (ev_count (fc_events ?fc AND NOT event)) = ev_count (fc_events ?fc)"
      using ev_ok_clear(2) ok assms(3) set by (auto simp: ctx_ok_def)
    then have "(of_nat (ev_count (fc_events ?fc)) :: u64) = of_nat (ev_count (fc_events ?fc AND NOT event)) + 1"
      by (metis of_nat_Suc add.commute)
    then show "m_pendingEventCount s' + of_nat (ev_count (fc_events ?fc)) =
        m_pendingEventCount s + of_nat (ev_count (fc_events ?fc'))"
      by (simp add: s' Let_def)
  qed (simp_all add: s' Let_def)
  moreover have "only_appends s s'"
    using only_appends_schedule_at [of s sch "task_of_ctx (event_ctx event ?fc)" p ?fc']
    by (simp add: s' Let_def only_appends_def)
  ultimately show ?thesis using True by (simp add: s' Let_def)
next
  case False
  with assms show ?thesis by (simp add: trigger_if_def)
qed

lemma getContext_Inr: "getContext event fc = Inr ctx \<longleftrightarrow> is_event event \<and> ctx = event_ctx event fc"
  by (auto simp: getContext_def event_ctx_def split: if_splits)

lemma triggerEvent_is_event: "triggerEvent event p s = Inr s' \<Longrightarrow> is_event event"
  by (auto simp: triggerEvent_def Let_def bindE_eq_Inr getContext_Inr)

lemma addEvent_locked_inv:
  assumes "iom_inv s" and "p < next_ctx s" and "addEvent_locked ctl fd' event cb p l s = Inr (rt, l', s')"
  shows "iom_inv s' \<and> only_appends s s'"
proof (cases "s' = s")
  case False
  let ?fc = "ctx_heap s p"
  let ?fc1 = "?fc\<lparr>fc_events := fc_events ?fc OR event\<rparr>"
  let ?ctx = "event_ctx event ?fc1"
  obtain f l1 m1 where g: "GetThis l (mem s) = (f, l1, m1)" by (rule prod_cases3)
  let ?ctx' = "if cb \<noteq> None then ?ctx\<lparr>ec_scheduler := t_scheduler l, ec_cb := cb\<rparr>
     else ?ctx\<lparr>ec_scheduler := t_scheduler l, ec_fiber := Some f\<rparr>"
  let ?m = "if cb \<noteq> None then mem s else m1"
  have e: "fc_events ?fc AND event = 0" "is_event event" "ec_ok True ?ctx'"
    and s': "s' = set_ctx p (putContext event ?ctx' ?fc1)
                   (s\<lparr>m_pendingEventCount := m_pendingEventCount s + 1, mem := ?m\<rparr>)"
    using assms(3) False g
    by (auto simp: addEvent_locked_def Let_def bindE_eq_Inr getContext_Inr ec_ok_def split: if_splits)
  have ok: "ctx_ok ?fc" using ctx_ok_at assms by blast
  have "iom_inv s'"
  proof (rule iom_inv_update [OF assms(1,2)])
    show "ctx_ok (putContext event ?ctx' ?fc1)"
      by (rule ctx_ok_occupied [OF ok e(2,1,3)])
    have "ev_count (fc_events ?fc OR event) = Suc (ev_count (fc_events ?fc))"
      using ev_ok_set(2) ok e by (auto simp: ctx_ok_def)
    then show "m_pendingEventCount s' + of_nat (ev_count (fc_events ?fc)) = m_pendingEventCount s +
        of_nat (ev_count (fc_events (putContext event ?ctx' ?fc1)))"
      by (simp add: s')
  qed (simp_all add: s')
  then show ?thesis by (simp add: s' only_appends_def)
qed (use assms in simp)

lemma addEvent_inv:
  assumes "iom_inv s" and "addEvent ctl fd' event cb l s = Inr (rt, l', s')"
  shows "iom_inv s' \<and> only_appends s s'"
proof -
  obtain p s1 where p: "addEvent_locked ctl fd' event cb p l s1 = Inr (rt, l', s')"
    "context_at fd' s1 = Inr p" "s1 = s \<or> (\<exists>k. s1 = contextResize k s)"
    using assms(2)
    by (auto simp: addEvent_def addEvent_find_def addEvent_grow_def Let_def bindE_eq_Inr split: if_splits)
  have "only_appends s s1"
  proof (cases "s1 = s")
    case False
    with p(3) obtain k where "s1 = contextResize k s" by blast
    with contextResize_frame [of k s] show ?thesis by (auto simp: only_appends_def)
  qed simp
  moreover have inv: "iom_inv s1" using p(3) contextResize_spec [OF assms(1)] assms(1) by auto
  ultimately show ?thesis
    using addEvent_locked_inv [OF inv context_at_inv(1) [OF inv p(2)] p(1)] only_appends_trans by blast
qed

lemma delEvent_inv:
  assumes "iom_inv s" and "delEvent ctl fd' event s = Inr (b, s')"
  shows "iom_inv s' \<and> only_appends s s'"
proof (cases b)
  case True
  then obtain p where at: "context_at fd' s = Inr p" and e: "fc_events (ctx_heap s p) AND event \<noteq> 0" "is_event event"
    and s': "s' = set_ctx p (putContext event (resetContext (event_ctx event
          ((ctx_heap s p)\<lparr>fc_events := fc_events (ctx_heap s p) AND NOT event\<rparr>)))
        ((ctx_heap s p)\<lparr>fc_events := fc_events (ctx_heap s p) AND NOT event\<rparr>))
        (s\<lparr>m_pendingEventCount := m_pendingEventCount s - 1\<rparr>)"
    using assms(2) by (force simp: delEvent_def Let_def bindE_eq_Inr getContext_Inr split: if_splits)
  let ?fc = "ctx_heap s p"
  have reset: "resetContext ctx = empty_context" for ctx :: "'a event_context"
    by (simp add: resetContext_def empty_context_def)
  have p: "p < next_ctx s" using context_at_inv(1) [OF assms(1) at] .
  have ok: "ctx_ok ?fc" using ctx_ok_at assms(1) p by blast
  have "iom_inv s'"
  proof (rule iom_inv_update [OF assms(1) p])
    show "ctx_ok (putContext event empty_context (?fc\<lparr>fc_events := fc_events ?fc AND NOT event\<rparr>))"
      by (rule ctx_ok_cleared [OF ok e(2,1)])
    have "Suc (ev_count (fc_events ?fc AND NOT event)) = ev_count (fc_events ?fc)"
      using ev_ok_clear(2) ok e by (auto simp: ctx_ok_def)
    then have "(of_nat (ev_count (fc_events ?fc)) :: u64) = of_nat (ev_count (fc_events ?fc AND NOT event)) + 1"
      by (metis of_nat_Suc add.commute)
    then show "m_pendingEventCount s' + of_nat (ev_count (fc_events ?fc)) = m_pendingEventCount s +
        of_nat (ev_count (fc_events (putContext event empty_context (?fc\<lparr>fc_events := fc_events ?fc AND NOT event\<rparr>))))"
      by (simp add: s')
  qed (simp_all add: s' reset)
  then show ?thesis by (simp add: s' only_appends_def)
next
  case False
  then have "s' = s"
    using assms(2) by (auto simp: delEvent_def Let_def bindE_eq_Inr split: if_splits)
  with assms show ?thesis by simp
qed

lemma cancelEvent_inv:
  assumes "iom_inv s" and "cancelEvent ctl fd' event s = Inr (b, s')"
  shows "iom_inv s' \<and> only_appends s s'"
proof (cases b)
  case True
  then obtain p s1 where at: "context_at fd' s = Inr p" and t: "triggerEvent event p s = Inr s1"
    and s': "s' = s1\<lparr>m_pendingEventCount := m_pendingEventCount s1 - 1\<rparr>"
    using assms(2) by (auto simp: cancelEvent_def Let_def bindE_eq_Inr split: if_splits)
  then have "trigger_if True event p s = Inr s'" by (simp add: trigger_if_def)
  from trigger_if_inv [OF assms(1) context_at_inv(1) [OF assms(1) at] triggerEvent_is_event [OF t] this]
  show ?thesis by blast
next
  case False
  then have "s' = s"
    using assms(2) by (auto simp: cancelEvent_def Let_def bindE_eq_Inr split: if_splits)
  with assms show ?thesis by simp
qed

lemma trigger_both_inv:
  assumes "iom_inv s" and "p < next_ctx s" and "trigger_if b1 READ p s = Inr s1" and "trigger_if b2 WRITE p s1 = Inr s2"
  shows "iom_inv s2 \<and> only_appends s s2"
proof -
  have 1: "iom_inv s1 \<and> only_appends s s1 \<and> next_ctx s1 = next_ctx s"
    using trigger_if_inv [OF assms(1,2) _ assms(3)] by blast
  then have "p < next_ctx s1" using assms(2) by simp
  with 1 trigger_if_inv [of s1 p WRITE b2 s2] assms(4) show ?thesis
    using only_appends_trans by blast
qed

lemma cancelAll_inv:
  assumes "iom_inv s" and "cancelAll ctl fd' s = Inr (b, s')"
  shows "iom_inv s' \<and> only_appends s s'"
proof (cases "s' = s")
  case False
  then obtain p s1 b1 b2 where at: "context_at fd' s = Inr p"
    and t: "trigger_if b1 READ p s = Inr s1" "trigger_if b2 WRITE p s1 = Inr s'"
    using assms(2) by (auto simp: cancelAll_def bindE_eq_Inr split: if_splits)
  from trigger_both_inv [OF assms(1) context_at_inv(1) [OF assms(1) at] t] show ?thesis .
qed (use assms in simp)

text \<open>A context the kernel reports is one that was registered.\<close>

fun known_event :: "'c iom \<Rightarrow> epoll_event \<Rightarrow> bool" where
  "known_event s ev \<longleftrightarrow> (case ev_data ev of DataFd fd' \<Rightarrow> fd' = fst (m_tickleFds s) | DataPtr p \<Rightarrow> p < next_ctx s)"

lemma handle_event_inv:
  assumes "iom_inv s" and "known_event s ev" and "handle_event ctl ev s = Inr s'"
  shows "iom_inv s' \<and> only_appends s s'"
proof (cases "ev_data ev")
  case (DataFd x1)
  with assms show ?thesis
    by (auto simp: handle_event_def iom_inv_def registered_def only_appends_def split: if_splits)
next
  case (DataPtr p)
  show ?thesis
  proof (cases "s' = s")
    case False
    with DataPtr assms(3) obtain s1 b1 b2 where "trigger_if b1 READ p s = Inr s1" "trigger_if b2 WRITE p s1 = Inr s'"
      unfolding handle_event_def Let_def by (auto simp only: epoll_data.case bindE_eq_Inr split: if_split_asm)
    from trigger_both_inv [OF assms(1) _ this] assms(2) DataPtr show ?thesis by simp
  qed (use assms in simp)
qed

text \<open>
  Executions: a new object, then the critical sections of its operations in any order, from any
  number of threads. The sections of \<open>addEvent\<close> are separate steps.
\<close>

definition io_init :: "'c iom \<Rightarrow> bool" where
  "io_init s \<longleftrightarrow> (\<exists>dflt threads uc name this run tid ids now epfd fds l m l'.
     new_IOManager dflt threads uc name this run tid ids now epfd 0 fds 0 0 l m = Inr (l', s))"

inductive io_step :: "'c iom \<Rightarrow> 'c iom \<Rightarrow> bool" where
  i_add: "addEvent ctl fd' event cb l s = Inr (rt, l', s') \<Longrightarrow> io_step s s'"
| i_grow: "addEvent_grow fd' s = Inr (p, s') \<Longrightarrow> io_step s s'"
| i_locked: "p < next_ctx s \<Longrightarrow> addEvent_locked ctl fd' event cb p l s = Inr (rt, l', s') \<Longrightarrow> io_step s s'"
| i_del: "delEvent ctl fd' event s = Inr (b, s') \<Longrightarrow> io_step s s'"
| i_cancel: "cancelEvent ctl fd' event s = Inr (b, s') \<Longrightarrow> io_step s s'"
| i_cancelAll: "cancelAll ctl fd' s = Inr (b, s') \<Longrightarrow> io_step s s'"
| i_event: "known_event s ev \<Longrightarrow> handle_event ctl ev s = Inr s' \<Longrightarrow> io_step s s'"

lemma iom_inv_grow:
  assumes "iom_inv s" and "addEvent_grow fd' s = Inr (p, s')"
  shows "iom_inv s'"
  using assms contextResize_spec by (auto simp: addEvent_grow_def Let_def bindE_eq_Inr)

lemma iom_inv_step: "io_step s s' \<Longrightarrow> iom_inv s \<Longrightarrow> iom_inv s'"
proof (induction rule: io_step.induct)
  case (i_add ctl fd' event cb l s rt l' s')
  then show ?case using addEvent_inv by blast
next
  case (i_grow fd' s p s')
  then show ?case using iom_inv_grow by blast
next
  case (i_locked p s ctl fd' event cb l rt l' s')
  then show ?case using addEvent_locked_inv by blast
next
  case (i_del ctl fd' event s b s')
  then show ?case using delEvent_inv by blast
next
  case (i_cancel ctl fd' event s b s')
  then show ?case using cancelEvent_inv by blast
next
  case (i_cancelAll ctl fd' s b s')
  then show ?case using cancelAll_inv by blast
next
  case (i_event s ev ctl s')
  then show ?case using handle_event_inv by blast
qed

lemma iom_inv_start:
  assumes "iom_inv s" and "start ids s = Inr s'"
  shows "iom_inv s'"
  using assms
  by (auto simp: start_def Let_def bindE_eq_Inr iom_inv_def registered_def split: if_splits)

lemma iom_inv_init:
  assumes "io_init s"
  shows "iom_inv s"
proof -
  obtain s1 :: "'a iom" and ids where s1: "next_ctx s1 = 0" "m_fdContexts s1 = []" "m_pendingEventCount s1 = 0"
    and s: "start ids (contextResize 32 s1) = Inr s"
    using assms
    by (force simp: io_init_def new_IOManager_def bindE_eq_Inr Let_def sched.extend_def iom.fields_def)
  have "iom_inv s1" using s1 by (simp add: iom_inv_def registered_def)
  then show ?thesis using iom_inv_start [OF _ s] contextResize_spec by blast
qed

interpretation events: inductive_invariant io_init io_step iom_inv
  by unfold_locales (blast intro: iom_inv_init iom_inv_step)+

lemma int_size_eq: "length (m_fdContexts s) < 2 ^ 31 \<Longrightarrow> int_size s = int (length (m_fdContexts s))"
  by (simp add: int_size_def signed_of_nat signed_take_bit_int_eq_self)

section \<open>Properties\<close>

text \<open>
  C1. The bookkeeping of events: in every reachable state \<open>m_pendingEventCount\<close> is the number of
  registered events, a context is occupied by exactly one of a callback and a fiber when its
  event is registered and is empty when it is not, and so registering an event that is not
  registered never runs into the assertions of \<open>addEvent\<close> about the context.
\<close>

theorem event_accounting:
  assumes "reachable io_init io_step s"
  shows "m_pendingEventCount s = of_nat (registered s) \<and>
    (\<forall>p < next_ctx s. \<forall>event. is_event event \<longrightarrow>
       (if fc_events (ctx_heap s p) AND event \<noteq> 0
        then (ec_cb (event_ctx event (ctx_heap s p)) = None) \<noteq> (ec_fiber (event_ctx event (ctx_heap s p)) = None)
        else event_ctx event (ctx_heap s p) = empty_context \<and>
          (\<exists>rt s'. addEvent_locked ctl fd' event (Some cb) p l s = Inr (rt, l, s') \<and> (rt = 0 \<or> rt = - 1 \<and> s' = s))))"
proof -
  have inv: "iom_inv s" using assms by (rule events.reachable_inv)
  have "if fc_events (ctx_heap s p) AND event \<noteq> 0
        then (ec_cb (event_ctx event (ctx_heap s p)) = None) \<noteq> (ec_fiber (event_ctx event (ctx_heap s p)) = None)
        else event_ctx event (ctx_heap s p) = empty_context \<and>
          (\<exists>rt s'. addEvent_locked ctl fd' event (Some cb) p l s = Inr (rt, l, s') \<and> (rt = 0 \<or> rt = - 1 \<and> s' = s))"
    if p: "p < next_ctx s" and e: "is_event event" for p event
  proof -
    have ok: "ec_ok (fc_events (ctx_heap s p) AND event \<noteq> 0) (event_ctx event (ctx_heap s p))"
      using ctx_ok_at [OF inv p] e by (auto simp: ctx_ok_def event_ctx_def)
    have get: "getContext event (fc\<lparr>fc_events := x\<rparr>) = Inr (event_ctx event fc)" for x and fc :: "'a fd_context"
      using e by (auto simp: event_ctx_def)
    show ?thesis using ok by (auto simp: ec_ok_def addEvent_locked_def get empty_context_def Let_def)
  qed
  then show ?thesis using inv by (simp add: iom_inv_def)
qed

definition demo_iom :: "nat iom" where
  "demo_iom = the (case new_IOManager 131072 2 False ''io'' 9 (Callback 0) 40 (\<lambda>i. 41 + int i) 1000 3 0 (4, 5) 0 0 new_tls
      (\<lparr>fibers = \<lambda>_. \<lparr>m_id = 0, m_stacksize = 0, m_state = EXEC, m_ctx = Captured, m_stack = False, m_fiber_cb = None\<rparr>,
        next_fiber = 0, s_fiber_id = 0, s_fiber_count = 0\<rparr>) of Inr (l, s) \<Rightarrow> Some s | Inl _ \<Rightarrow> None)"

lemma demo_iom_fields:
  "io_init demo_iom" "self_ptr demo_iom = 9" "m_fibers demo_iom = []" "length (m_fdContexts demo_iom) = 32"
  "m_pendingEventCount demo_iom = 0" "registered demo_iom = 0" "m_idleThreadCount demo_iom = 0"
  "m_activeThreadCount demo_iom = 0"
proof -
  let ?m = "\<lparr>fibers = \<lambda>_. \<lparr>m_id = 0, m_stacksize = 0, m_state = EXEC, m_ctx = Captured, m_stack = False, m_fiber_cb = None\<rparr>,
        next_fiber = 0, s_fiber_id = 0, s_fiber_count = 0\<rparr> :: nat callback fiber_mem"
  let ?new = "new_IOManager 131072 2 False ''io'' 9 (Callback (0 :: nat)) 40 (\<lambda>i. 41 + int i) 1000 3 0 (4, 5) 0 0 new_tls ?m"
  define s1 :: "nat iom" where "s1 = \<lparr>mem = ?m, m_threads = [], m_fibers = [], m_rootFiber = None, m_name = ''io'',
     m_threadIds = [], m_threadCount = 2, m_activeThreadCount = 0, m_idleThreadCount = 0, m_stopping = True,
     m_autoStop = False, m_rootThread = - 1, timers = new_TimerManager 1000, m_epfd = 3, m_tickleFds = (4, 5),
     tickle_pipe = 0, m_pendingEventCount = 0, ctx_heap = \<lambda>_. new_FdContext 0, next_ctx = 0, m_fdContexts = [],
     self_ptr = 9, foreign = []\<rparr>"
  define s2 where "s2 = contextResize 32 s1"
  obtain h n v where s2: "s2 = s1\<lparr>ctx_heap := h, next_ctx := n, m_fdContexts := v\<rparr>"
    using contextResize_frame [of 32 s1] unfolding s2_def by blast
  have inv: "iom_inv s1" by (simp add: s1_def iom_inv_def registered_def)
  have reg: "registered s2 = 0" "length (m_fdContexts s2) = 32"
    using contextResize_spec [OF inv, of 32] by (simp_all add: s2_def s1_def registered_def)
  let ?base = "\<lparr>mem = ?m, m_threads = [], m_fibers = [], m_rootFiber = None, m_name = ''io'',
     m_threadIds = [], m_threadCount = 2, m_activeThreadCount = 0, m_idleThreadCount = 0, m_stopping = True,
     m_autoStop = False, m_rootThread = - 1\<rparr>"
  have sch: "new_Scheduler 131072 2 False ''io'' 9 (Callback (0 :: nat)) 40 new_tls ?m = Inr (new_tls, ?base)"
    by (simp add: new_Scheduler_def)
  have ext: "sched.extend ?base (iom.fields (new_TimerManager 1000) 3 (4, 5) 0 0 (\<lambda>_. new_FdContext 0) 0 [] 9 []) = s1"
    by (simp add: s1_def sched.extend_def iom.fields_def)
  have "m_stopping s2" "m_threads s2 = []" "m_threadIds s2 = []" "m_threadCount s2 = 2"
    by (simp_all add: s2 s1_def)
  then have st: "start (\<lambda>i. 41 + int i) s2 = Inr (s2\<lparr>m_stopping := False, m_threads := [41, 42], m_threadIds := [41, 42]\<rparr>)"
    by (simp add: start_def Let_def upt_rec)
  have new: "?new = Inr (new_tls, s2\<lparr>m_stopping := False, m_threads := [41, 42], m_threadIds := [41, 42]\<rparr>)"
    unfolding new_IOManager_def sch bindE_Inr prod.case ext s2_def [symmetric] Let_def st by simp
  then have d: "demo_iom = s2\<lparr>m_stopping := False, m_threads := [41, 42], m_threadIds := [41, 42]\<rparr>"
    by (simp add: demo_iom_def)
  show "io_init demo_iom" using new unfolding d io_init_def by blast
  show "self_ptr demo_iom = 9" "m_fibers demo_iom = []" "m_pendingEventCount demo_iom = 0" "m_idleThreadCount demo_iom = 0"
    "m_activeThreadCount demo_iom = 0"
    unfolding d s2 by (simp_all add: s1_def)
  show "length (m_fdContexts demo_iom) = 32" "registered demo_iom = 0"
    using reg unfolding d by (simp_all add: registered_def)
qed

theorem event_accounting_witness: "m_pendingEventCount demo_iom = of_nat (registered demo_iom)"
  using event_accounting [OF reachable_init [of io_init demo_iom io_step, OF demo_iom_fields(1)]] by blast

lemma addEvent_locked_ok:
  assumes "iom_inv s" and "p < next_ctx s" and "addEvent_locked ctl fd' event cb p l s = Inr (0, l', s1)"
    and "cb = None \<longrightarrow> t_fiber l = Some f"
  shows "is_event event \<and> l' = l \<and> fc_events (ctx_heap s p) AND event = 0 \<and>
    s1 = set_ctx p (putContext event \<lparr>ec_scheduler = t_scheduler l, ec_fiber = (if cb = None then Some f else None), ec_cb = cb\<rparr>
           ((ctx_heap s p)\<lparr>fc_events := fc_events (ctx_heap s p) OR event\<rparr>))
         (s\<lparr>m_pendingEventCount := m_pendingEventCount s + 1\<rparr>)"
proof -
  let ?fc = "ctx_heap s p"
  let ?ctx = "event_ctx event (?fc\<lparr>fc_events := fc_events ?fc OR event\<rparr>)"
  let ?ctx1 = "if cb = None then ?ctx\<lparr>ec_scheduler := t_scheduler l, ec_fiber := Some f\<rparr>
     else ?ctx\<lparr>ec_scheduler := t_scheduler l, ec_cb := cb\<rparr>"
  have g: "GetThis l m = (f, l, m)" if "cb = None" for m :: "'a callback fiber_mem"
    using assms(4) that by (simp add: GetThis_def)
  have r: "is_event event" "l' = l" "fc_events ?fc AND event = 0"
    "ec_scheduler ?ctx = None" "ec_fiber ?ctx = None" "ec_cb ?ctx = None"
    "s1 = set_ctx p (putContext event ?ctx1
           (?fc\<lparr>fc_events := fc_events ?fc OR event\<rparr>)) (s\<lparr>m_pendingEventCount := m_pendingEventCount s + 1\<rparr>)"
    using assms(3) by (auto simp: addEvent_locked_def Let_def bindE_eq_Inr getContext_Inr g split: if_splits)
  moreover from r(5,6) have "?ctx1 =
      \<lparr>ec_scheduler = t_scheduler l, ec_fiber = (if cb = None then Some f else None), ec_cb = cb\<rparr>" by simp
  ultimately show ?thesis by simp
qed

lemma event_ctx_putContext: "is_event event \<Longrightarrow> event_ctx event (putContext event ctx fc) = ctx"
  by (auto simp: event_ctx_def)

text \<open>The event is registered for the descriptor with the context \<open>ctx\<close>.\<close>

definition waits_for :: "fd \<Rightarrow> u32 \<Rightarrow> 'c event_context \<Rightarrow> 'c iom \<Rightarrow> bool" where
  "waits_for fd' event ctx s \<longleftrightarrow> (\<exists>p. context_at fd' s = Inr p \<and> p < next_ctx s \<and> is_event event \<and> iom_inv s \<and>
     fc_events (ctx_heap s p) AND event \<noteq> 0 \<and> event_ctx event (ctx_heap s p) = ctx)"

lemma addEvent_ok:
  assumes "iom_inv s" and "addEvent ctl fd' event cb l s = Inr (0, l', s1)"
    and "cb = None \<longrightarrow> t_fiber l = Some f"
  shows "waits_for fd' event \<lparr>ec_scheduler = t_scheduler l, ec_fiber = (if cb = None then Some f else None), ec_cb = cb\<rparr> s1 \<and>
    iom_inv s1 \<and> m_fibers s1 = m_fibers s \<and> m_pendingEventCount s1 = m_pendingEventCount s + 1 \<and>
    registered s1 = Suc (registered s) \<and> self_ptr s1 = self_ptr s \<and> l' = l \<and> mem s1 = mem s \<and> timers s1 = timers s \<and>
    sched.truncate s1 = sched.truncate s"
proof -
  obtain p s0 where p: "addEvent_locked ctl fd' event cb p l s0 = Inr (0, l', s1)"
    "context_at fd' s0 = Inr p" "s0 = s \<or> (\<exists>k. s0 = contextResize k s)"
    using assms(2)
    by (auto simp: addEvent_def addEvent_find_def addEvent_grow_def Let_def bindE_eq_Inr split: if_splits)
  have fr: "m_fibers s0 = m_fibers s \<and> m_pendingEventCount s0 = m_pendingEventCount s \<and> self_ptr s0 = self_ptr s \<and>
    mem s0 = mem s \<and> timers s0 = timers s \<and> sched.truncate s0 = sched.truncate s"
  proof (cases "s0 = s")
    case False
    with p(3) obtain k where "s0 = contextResize k s" by blast
    with contextResize_frame [of k s] show ?thesis by (auto simp: sched.truncate_def)
  qed simp
  have inv: "iom_inv s0" "registered s0 = registered s"
    using p(3) contextResize_spec [OF assms(1)] assms(1) by auto
  have lt: "p < next_ctx s0" using context_at_inv(1) [OF inv(1) p(2)] .
  note r = addEvent_locked_ok [OF inv(1) lt p(1) assms(3)]
  have ev: "ev_ok (fc_events (ctx_heap s0 p))" using ctx_ok_at [OF inv(1) lt] by (simp add: ctx_ok_def)
  have bits: "ev_count (fc_events (ctx_heap s0 p) OR event) = Suc (ev_count (fc_events (ctx_heap s0 p)))"
    "(fc_events (ctx_heap s0 p) OR event) AND event \<noteq> 0"
    using ev_ok_set [OF ev, of event] r by auto
  have "registered s1 + ev_count (fc_events (ctx_heap s0 p)) = registered s0 + ev_count (fc_events (ctx_heap s0 p) OR event)"
    using registered_update [OF lt, of s1] r by auto
  then have "registered s1 = Suc (registered s)" using bits(1) inv(2) by simp
  moreover have "m_fdContexts s1 = m_fdContexts s0" using r by simp
  then have "context_at fd' s1 = Inr p" using p(2) by (simp only: context_at_def)
  moreover have "iom_inv s1" using addEvent_locked_inv [OF inv(1) lt p(1)] by blast
  moreover have "fc_events (ctx_heap s1 p) AND event \<noteq> 0" "next_ctx s1 = next_ctx s0"
    "event_ctx event (ctx_heap s1 p) = \<lparr>ec_scheduler = t_scheduler l, ec_fiber = (if cb = None then Some f else None), ec_cb = cb\<rparr>"
    using r bits(2) event_ctx_putContext [of event] by auto
  moreover have "sched.truncate s1 = sched.truncate s0" using r by (simp add: set_ctx_def sched.truncate_def)
  ultimately show ?thesis using r fr lt by (auto simp: waits_for_def)
qed

lemma waits_for_frame [simp]:
  "waits_for fd' event ctx (s\<lparr>mem := m\<rparr>) = waits_for fd' event ctx s"
  "waits_for fd' event ctx (s\<lparr>timers := t\<rparr>) = waits_for fd' event ctx s"
  by (simp_all add: waits_for_def context_at_def iom_inv_def registered_def)

text \<open>Triggering a registered event schedules its task; nothing else of the scheduler changes.\<close>

definition delivered :: "'c callback task \<Rightarrow> 'c iom \<Rightarrow> 'c iom \<Rightarrow> bool" where
  "delivered ft s s2 \<longleftrightarrow> sched.truncate s2 = sched.truncate (s\<lparr>m_fibers := m_fibers s @ [ft]\<rparr>) \<and>
     m_pendingEventCount s2 = m_pendingEventCount s - 1 \<and> Suc (registered s2) = registered s \<and>
     timers s2 = timers s \<and> self_ptr s2 = self_ptr s \<and> iom_inv s2"

lemma deliveredD:
  assumes "delivered ft s s2"
  shows "m_fibers s2 = m_fibers s @ [ft]" "mem s2 = mem s" "m_activeThreadCount s2 = m_activeThreadCount s"
    "m_idleThreadCount s2 = m_idleThreadCount s" "m_pendingEventCount s2 = m_pendingEventCount s - 1"
    "Suc (registered s2) = registered s" "timers s2 = timers s" "self_ptr s2 = self_ptr s" "iom_inv s2"
  using assms truncate_eqD [of s2 "s\<lparr>m_fibers := m_fibers s @ [ft]\<rparr>"] by (simp_all add: delivered_def)

lemma triggerEvent_waiting:
  assumes "waits_for fd' event ctx s" and "ec_scheduler ctx = Some (self_ptr s)" and "context_at fd' s = Inr p"
  shows "\<exists>s2. trigger_if True event p s = Inr s2 \<and> delivered (task_of_ctx ctx) s s2"
proof -
  have p: "p < next_ctx s" "is_event event" "iom_inv s"
    "fc_events (ctx_heap s p) AND event \<noteq> 0" "event_ctx event (ctx_heap s p) = ctx"
    using assms(1,3) by (auto simp: waits_for_def)
  let ?fc = "ctx_heap s p"
  let ?fc' = "putContext event empty_context (?fc\<lparr>fc_events := fc_events ?fc AND NOT event\<rparr>)"
  have ok: "ctx_ok ?fc" using ctx_ok_at [OF p(3,1)] .
  let ?s1 = "schedule IOManager_tickle (task_of_ctx ctx) (set_ctx p ?fc' s)"
  let ?s2 = "?s1\<lparr>m_pendingEventCount := m_pendingEventCount s - 1\<rparr>"
  have "triggerEvent event p s = Inr ?s1"
    using triggerEvent_eq [OF ok p(2)] p(4,5) assms(2) by (simp add: schedule_at_def)
  then have t: "trigger_if True event p s = Inr ?s2" by (simp add: trigger_if_def)
  moreover have "Suc (registered ?s2) = registered s"
    using registered_update [OF p(1), of ?s2 ?fc'] ev_ok_clear(2) [of "fc_events ?fc" event] ok p(2,4) by (simp add: ctx_ok_def)
  moreover have "task_ok (task_of_ctx ctx)"
    using ok p(2,4,5) by (intro task_of_ctx_ok) (auto simp: ctx_ok_def event_ctx_def)
  then have "sched.truncate ?s2 = sched.truncate (s\<lparr>m_fibers := m_fibers s @ [task_of_ctx ctx]\<rparr>)"
    by (simp add: schedule_def schedulerNoLock_def IOManager_tickle_def task_ok_def set_ctx_def sched.truncate_def)
  moreover have "iom_inv ?s2" using trigger_if_inv [OF p(3,1,2) t] by blast
  ultimately show ?thesis by (intro exI [of _ ?s2]) (simp add: delivered_def)
qed

text \<open>Cancelling a registered event.\<close>

lemma cancelEvent_waiting:
  assumes "waits_for fd' event ctx s" and "ec_scheduler ctx = Some (self_ptr s)" and "length (m_fdContexts s) < 2 ^ 31"
    and "\<And>op fd evs p. ctl op fd evs p = 0"
  shows "\<exists>s2. cancelEvent ctl fd' event s = Inr (True, s2) \<and> delivered (task_of_ctx ctx) s s2"
proof -
  obtain p where p: "context_at fd' s = Inr p" "fc_events (ctx_heap s p) AND event \<noteq> 0"
    using assms(1) by (auto simp: waits_for_def)
  have sz: "\<not> int_size s \<le> fd'"
    using p(1) int_size_eq [OF assms(3)] by (auto simp: context_at_def split: if_splits)
  obtain s2 where "trigger_if True event p s = Inr s2" "delivered (task_of_ctx ctx) s s2"
    using triggerEvent_waiting [OF assms(1,2) p(1)] by blast
  then show ?thesis
    using sz p assms(4) by (auto simp: cancelEvent_def Let_def trigger_if_def bindE_eq_Inr)
qed

text \<open>The idle loop on the report of a registered event.\<close>

definition epoll_flag :: "u32 \<Rightarrow> u32" where
  "epoll_flag event = (if event = READ then EPOLLIN else EPOLLOUT)"

lemma handle_event_waiting:
  assumes "waits_for fd' event ctx s" and "ec_scheduler ctx = Some (self_ptr s)" and "context_at fd' s = Inr p"
    and "\<And>op fd evs p. ctl op fd evs p = 0"
  shows "\<exists>s2. handle_event ctl \<lparr>ev_data = DataPtr p, ev_events = epoll_flag event\<rparr> s = Inr s2 \<and>
    delivered (task_of_ctx ctx) s s2"
proof -
  have ev: "is_event event" "fc_events (ctx_heap s p) AND event \<noteq> 0"
    using assms(1,3) by (auto simp: waits_for_def)
  have fl: "epoll_flag event AND (EPOLLERR OR EPOLLHUP) = 0"
    "epoll_flag event AND EPOLLIN \<noteq> 0 \<longleftrightarrow> event = READ" "epoll_flag event AND EPOLLOUT \<noteq> 0 \<longleftrightarrow> event = WRITE"
    using ev(1) by (auto simp: epoll_flag_def event_defs)
  obtain s2 where s2: "trigger_if True event p s = Inr s2" "delivered (task_of_ctx ctx) s s2"
    using triggerEvent_waiting [OF assms(1-3)] by blast
  have no: "trigger_if False e p t = Inr t" for e and t :: "'a iom" by (simp add: trigger_if_def)
  have "handle_event ctl \<lparr>ev_data = DataPtr p, ev_events = epoll_flag event\<rparr> s = Inr s2"
    using ev s2(1) fl assms(4) by (auto simp: handle_event_def Let_def no)
  then show ?thesis using s2(2) by blast
qed

text \<open>
  C14. Registering and taking back: when \<open>addEvent\<close> with a callback returned 0 on a thread of this
  object, and \<^verbatim>\<open>epoll_ctl\<close> succeeds, \<open>cancelEvent\<close> returns true and puts exactly that callback at the
  end of the queue, while \<open>delEvent\<close> returns true and schedules nothing; after either, the numbers
  of pending and of registered events are those before \<open>addEvent\<close>.
\<close>

theorem addEvent_undone:
  assumes "reachable io_init io_step s" and "addEvent ctl fd' event (Some cb) l s = Inr (0, l', s1)"
    and "t_scheduler l = Some (self_ptr s)" and "length (m_fdContexts s1) < 2 ^ 31"
    and "\<And>op fd evs p. ctl' op fd evs p = 0"
  shows "(\<exists>s2. cancelEvent ctl' fd' event s1 = Inr (True, s2) \<and> m_fibers s2 = m_fibers s @ [FT_cb (Some cb) (- 1)] \<and>
      m_pendingEventCount s2 = m_pendingEventCount s \<and> registered s2 = registered s) \<and>
    (\<exists>s3. delEvent ctl' fd' event s1 = Inr (True, s3) \<and> m_fibers s3 = m_fibers s \<and>
      m_pendingEventCount s3 = m_pendingEventCount s \<and> registered s3 = registered s)"
proof -
  have inv: "iom_inv s" using assms(1) by (rule events.reachable_inv)
  let ?ctx = "\<lparr>ec_scheduler = t_scheduler l, ec_fiber = None, ec_cb = Some cb\<rparr>"
  have w: "waits_for fd' event ?ctx s1"
    and s1: "m_fibers s1 = m_fibers s" "m_pendingEventCount s1 = m_pendingEventCount s + 1"
      "registered s1 = Suc (registered s)" "self_ptr s1 = self_ptr s"
    using addEvent_ok [OF inv assms(2), of undefined] by auto
  have "task_of_ctx ?ctx = FT_cb (Some cb) (- 1)" by (simp add: task_of_ctx_def)
  then have can: "\<exists>s2. cancelEvent ctl' fd' event s1 = Inr (True, s2) \<and> m_fibers s2 = m_fibers s @ [FT_cb (Some cb) (- 1)] \<and>
      m_pendingEventCount s2 = m_pendingEventCount s \<and> registered s2 = registered s"
    using cancelEvent_waiting [OF w _ assms(4,5)] assms(3) s1 by (fastforce dest: deliveredD)
  obtain p where p: "context_at fd' s1 = Inr p" "p < next_ctx s1" "is_event event" "iom_inv s1"
    "fc_events (ctx_heap s1 p) AND event \<noteq> 0"
    using w by (auto simp: waits_for_def)
  have sz: "\<not> int_size s1 \<le> fd'"
    using p(1) int_size_eq [OF assms(4)] by (auto simp: context_at_def split: if_splits)
  let ?fc = "ctx_heap s1 p"
  let ?fc' = "putContext event empty_context (?fc\<lparr>fc_events := fc_events ?fc AND NOT event\<rparr>)"
  let ?s3 = "set_ctx p ?fc' (s1\<lparr>m_pendingEventCount := m_pendingEventCount s1 - 1\<rparr>)"
  have "getContext event (?fc\<lparr>fc_events := fc_events ?fc AND NOT event\<rparr>) = Inr (event_ctx event ?fc)"
    using p(3) by (auto simp: event_ctx_def)
  moreover have "resetContext (event_ctx event ?fc) = empty_context"
    by (simp add: resetContext_def empty_context_def)
  ultimately have "delEvent ctl' fd' event s1 = Inr (True, ?s3)"
    using sz p(1,5) assms(5) by (simp add: delEvent_def Let_def)
  moreover have "registered ?s3 = registered s"
    using registered_update [OF p(2), of ?s3 ?fc'] ev_ok_clear(2) [of "fc_events ?fc" event] ctx_ok_at [OF p(4,2)] p(3,5) s1(3)
    by (simp add: ctx_ok_def)
  ultimately show ?thesis using can s1(1,2) by simp
qed

lemma demo_addEvent:
  "\<exists>s1. addEvent (\<lambda>_ _ _ _. 0) 7 READ (Some (Callback 1)) (new_tls\<lparr>t_scheduler := Some 9\<rparr>) demo_iom =
     Inr (0, new_tls\<lparr>t_scheduler := Some 9\<rparr>, s1) \<and> length (m_fdContexts s1) = 32"
proof -
  have inv: "iom_inv demo_iom" using demo_iom_fields(1) iom_inv_init by blast
  moreover have "7 < length (m_fdContexts demo_iom)" using demo_iom_fields(4) by simp
  ultimately obtain p where "m_fdContexts demo_iom ! 7 = Some p"
    unfolding iom_inv_def by blast
  then have p: "context_at 7 demo_iom = Inr p"
    using demo_iom_fields(4) by (simp add: context_at_def)
  have lt: "p < next_ctx demo_iom" using context_at_inv(1) [OF inv p] .
  have "ev_count (fc_events (ctx_heap demo_iom p)) = 0"
    using demo_iom_fields(6) lt by (simp add: registered_def)
  then have 0: "fc_events (ctx_heap demo_iom p) = 0"
    using ctx_ok_at [OF inv lt] by (auto simp: ctx_ok_def ev_ok_def ev_count_def split: if_splits)
  then have "fc_read (ctx_heap demo_iom p) = empty_context"
    using ctx_ok_at [OF inv lt] by (simp add: ctx_ok_def ec_ok_def)
  moreover have "int_size demo_iom = 32" using demo_iom_fields(4) int_size_eq [of demo_iom] by simp
  ultimately show ?thesis
    using p 0 demo_iom_fields(4)
    by (simp add: addEvent_def addEvent_find_def addEvent_locked_def Let_def empty_context_def)
qed

theorem addEvent_undone_witness:
  "\<exists>s1 s2. addEvent (\<lambda>_ _ _ _. 0) 7 READ (Some (Callback 1)) (new_tls\<lparr>t_scheduler := Some 9\<rparr>) demo_iom =
      Inr (0, new_tls\<lparr>t_scheduler := Some 9\<rparr>, s1) \<and>
     cancelEvent (\<lambda>_ _ _ _. 0) 7 READ s1 = Inr (True, s2) \<and> m_fibers s2 = [FT_cb (Some (Callback 1)) (- 1)]"
proof -
  obtain s1 where s1: "addEvent (\<lambda>_ _ _ _. 0) 7 READ (Some (Callback 1)) (new_tls\<lparr>t_scheduler := Some 9\<rparr>) demo_iom =
      Inr (0, new_tls\<lparr>t_scheduler := Some 9\<rparr>, s1)" "length (m_fdContexts s1) = 32"
    using demo_addEvent by blast
  from addEvent_undone [OF reachable_init [of io_init demo_iom io_step, OF demo_iom_fields(1)] s1(1), of "\<lambda>_ _ _ _. 0"]
  show ?thesis using s1 demo_iom_fields(2,3) by auto
qed


lemma demo_addEvent_far:
  assumes "iom_inv s" and "length (m_fdContexts s) = 32" and "self_ptr s = 9"
  shows "\<exists>s1. addEvent (\<lambda>_ _ _ _. 0) 100 READ (Some (Callback 1)) (new_tls\<lparr>t_scheduler := Some 9\<rparr>) s =
     Inr (0, new_tls\<lparr>t_scheduler := Some 9\<rparr>, s1)"
proof -
  let ?v = "m_fdContexts s @ replicate 118 None"
  obtain v' s' where r: "fill_contexts 0 ?v s = (v', s')" by fastforce
  note f = fill_contexts_spec [OF r]
  have "?v ! 100 = None" "100 < length ?v" using assms(2) by (simp_all add: nth_append)
  then have "\<exists>p < next_ctx s'. v' ! 100 = Some p \<and> next_ctx s \<le> p \<and> ctx_heap s' p = new_FdContext (int (0 + 100))"
    using f [THEN conjunct2, THEN conjunct2, THEN conjunct2, THEN conjunct2, THEN spec [of _ 100]] by simp
  then obtain p where p: "v' ! 100 = Some p" "ctx_heap s' p = new_FdContext 100" by auto
  have "length v' = 150" using f assms(2) by simp
  moreover have "contextResize 150 s = s'\<lparr>m_fdContexts := v'\<rparr>"
    using r assms(2) by (simp add: contextResize_def)
  moreover have "int_size s = 32" using assms(2) int_size_eq [of s] by simp
  ultimately show ?thesis
    using p by (simp add: addEvent_def addEvent_find_def addEvent_grow_def context_at_def addEvent_locked_def
        Let_def new_FdContext_def empty_context_def)
qed


text \<open>
  An event that epoll reported and another thread took back meanwhile: when \<open>EPOLLIN\<close> and
  \<open>EPOLLOUT\<close> were reported for a context of which, by the time the idle loop gets to it, only the read
  event is still registered, the loop triggers the write event all the same and the assertion of
  \<open>triggerEvent\<close> aborts the process.
\<close>

theorem stale_event_aborts:
  assumes "reachable io_init io_step s" and "p < next_ctx s" and "fc_events (ctx_heap s p) = READ"
    and "ec_scheduler (fc_read (ctx_heap s p)) = Some sch" and "\<And>op fd evs p. ctl op fd evs p = 0"
  shows "handle_event ctl \<lparr>ev_data = DataPtr p, ev_events = EPOLLIN OR EPOLLOUT\<rparr> s =
    Inl (AssertFail ''events & event'')"
proof -
  have inv: "iom_inv s" using assms(1) by (rule events.reachable_inv)
  have flags: "(EPOLLIN OR EPOLLOUT) AND (EPOLLERR OR EPOLLHUP) = 0" "(EPOLLIN OR EPOLLOUT) AND EPOLLIN \<noteq> 0"
    "(EPOLLIN OR EPOLLOUT) AND EPOLLOUT \<noteq> 0" "READ AND (READ OR WRITE) = READ"
    by (simp_all add: event_defs)
  have ok: "ctx_ok (ctx_heap s p)" using ctx_ok_at [OF inv assms(2)] .
  obtain s1 where s1: "trigger_if True READ p s = Inr s1"
    using triggerEvent_eq [OF ok] assms(3,4) by (simp add: trigger_if_def event_ctx_def)
  have "iom_inv s1" "next_ctx s1 = next_ctx s" "fc_events (ctx_heap s1 p) = 0"
    using trigger_if_inv [OF inv assms(2) _ s1] assms(3) by auto
  then have "trigger_if True WRITE p s1 = Inl (AssertFail ''events & event'')"
    using triggerEvent_eq [OF ctx_ok_at, of s1 p WRITE] assms(2) by (simp add: trigger_if_def)
  with s1 show ?thesis
    using assms(3,5) flags by (simp add: handle_event_def Let_def)
qed

theorem stale_event_aborts_witness:
  "\<exists>s1 p. addEvent (\<lambda>_ _ _ _. 0) 7 READ (Some (Callback 1)) (new_tls\<lparr>t_scheduler := Some 9\<rparr>) demo_iom =
      Inr (0, new_tls\<lparr>t_scheduler := Some 9\<rparr>, s1) \<and>
     handle_event (\<lambda>_ _ _ _. 0) \<lparr>ev_data = DataPtr p, ev_events = EPOLLIN OR EPOLLOUT\<rparr> s1 =
       Inl (AssertFail ''events & event'')"
proof -
  obtain s1 where s1: "addEvent (\<lambda>_ _ _ _. 0) 7 READ (Some (Callback 1)) (new_tls\<lparr>t_scheduler := Some 9\<rparr>) demo_iom =
      Inr (0, new_tls\<lparr>t_scheduler := Some 9\<rparr>, s1)" "length (m_fdContexts s1) = 32"
    using demo_addEvent by blast
  have inv: "iom_inv demo_iom" using demo_iom_fields(1) iom_inv_init by blast
  have r: "reachable io_init io_step s1"
    using reachable_step [OF reachable_init [of io_init demo_iom io_step, OF demo_iom_fields(1)] i_add [OF s1(1)]] .
  obtain p where p: "p < next_ctx s1" "fc_events (ctx_heap s1 p) AND READ \<noteq> 0" "iom_inv s1" "registered s1 = 1"
    "event_ctx READ (ctx_heap s1 p) = \<lparr>ec_scheduler = Some 9, ec_fiber = None, ec_cb = Some (Callback 1)\<rparr>"
    using addEvent_ok [OF inv s1(1), of undefined] demo_iom_fields(6) by (auto simp: waits_for_def)
  have "ev_count (fc_events (ctx_heap s1 p)) \<le> registered s1"
    unfolding registered_def using p(1) by (intro member_le_sum) auto
  then have "fc_events (ctx_heap s1 p) = READ"
    using p(2,4) ctx_ok_at [OF p(3,1)] by (auto simp: ctx_ok_def ev_ok_def ev_count_def)
  from stale_event_aborts [OF r p(1) this, of 9 "\<lambda>_ _ _ _. 0"] s1(1) p(5) show ?thesis
    by (auto simp: event_ctx_def)
qed

lemma reported_bits:
  assumes "ev_ok e"
  shows "(fl OR ((EPOLLIN OR EPOLLOUT) AND e)) AND EPOLLIN \<noteq> 0 \<longleftrightarrow> fl AND EPOLLIN \<noteq> 0 \<or> e AND READ \<noteq> 0"
    "(fl OR ((EPOLLIN OR EPOLLOUT) AND e)) AND EPOLLOUT \<noteq> 0 \<longleftrightarrow> fl AND EPOLLOUT \<noteq> 0 \<or> e AND WRITE \<noteq> 0"
  using assms by (auto simp: ev_ok_def event_defs bit.conj_disj_distrib2)

lemma trigger_if_deliver:
  assumes "iom_inv s" and "p < next_ctx s" and "is_event event"
    and "flag \<longrightarrow> fc_events (ctx_heap s p) AND event \<noteq> 0 \<and> ec_scheduler (event_ctx event (ctx_heap s p)) = Some (self_ptr s)"
  shows "\<exists>s'. trigger_if flag event p s = Inr s' \<and> self_ptr s' = self_ptr s \<and>
    m_fibers s' = m_fibers s @ (if flag then [task_of_ctx (event_ctx event (ctx_heap s p))] else []) \<and>
    m_pendingEventCount s' = m_pendingEventCount s - of_bool flag \<and>
    (\<forall>e. is_event e \<longrightarrow> e \<noteq> event \<longrightarrow> event_ctx e (ctx_heap s' p) = event_ctx e (ctx_heap s p))"
proof (cases flag)
  case True
  let ?fc = "ctx_heap s p"
  have ok: "ctx_ok ?fc" using ctx_ok_at [OF assms(1,2)] .
  have "ec_ok True (event_ctx event ?fc)"
    using ok assms(3,4) True by (auto simp: ctx_ok_def event_ctx_def)
  then have "task_ok (task_of_ctx (event_ctx event ?fc))" by (rule task_of_ctx_ok)
  then show ?thesis
    using True assms(3,4) triggerEvent_eq [OF ok assms(3)]
    by (auto simp: trigger_if_def schedule_at_def io.schedule_fields event_ctx_def)
qed (simp add: trigger_if_def)

text \<open>Triggering the read and then the write event of a context.\<close>

lemma trigger_both_deliver:
  fixes s :: "'c iom"
  assumes inv: "iom_inv s" and "p < next_ctx s" and "e = fc_events (ctx_heap s p)"
    and "\<forall>ev. is_event ev \<and> e AND ev \<noteq> 0 \<longrightarrow> ec_scheduler (event_ctx ev (ctx_heap s p)) = Some (self_ptr s)"
    and "r \<longrightarrow> e AND READ \<noteq> 0" and "w \<longrightarrow> e AND WRITE \<noteq> 0"
  shows "\<exists>s1 s2. trigger_if r READ p s = Inr s1 \<and> trigger_if w WRITE p s1 = Inr s2 \<and>
    m_fibers s2 = m_fibers s @ (if r then [task_of_ctx (fc_read (ctx_heap s p))] else [])
                             @ (if w then [task_of_ctx (fc_write (ctx_heap s p))] else []) \<and>
    fc_events (ctx_heap s2 p) = e AND NOT ((if r then READ else 0) OR (if w then WRITE else 0)) \<and>
    m_pendingEventCount s2 = m_pendingEventCount s - of_bool r - of_bool w"
proof -
  have ev: "ev_ok e" using ctx_ok_at [OF inv assms(2)] assms(3) by (simp add: ctx_ok_def)
  have pr: "r \<longrightarrow> fc_events (ctx_heap s p) AND READ \<noteq> 0 \<and> ec_scheduler (event_ctx READ (ctx_heap s p)) = Some (self_ptr s)"
    using assms(3-5) by simp
  obtain s1 where s1: "trigger_if r READ p s = Inr s1" "self_ptr s1 = self_ptr s"
    "m_fibers s1 = m_fibers s @ (if r then [task_of_ctx (fc_read (ctx_heap s p))] else [])"
    "m_pendingEventCount s1 = m_pendingEventCount s - of_bool r"
    "event_ctx WRITE (ctx_heap s1 p) = event_ctx WRITE (ctx_heap s p)"
    using trigger_if_deliver [OF inv assms(2) _ pr] by (auto simp: event_ctx_def)
  have n: "iom_inv s1" "p < next_ctx s1" "fc_events (ctx_heap s1 p) = (if r then e AND NOT READ else e)"
    using trigger_if_inv [OF inv assms(2) _ s1(1)] assms(2,3) by auto
  have "w \<longrightarrow> fc_events (ctx_heap s1 p) AND WRITE \<noteq> 0"
    using n(3) assms(6) ev by (auto simp: ev_ok_def)
  then have pw: "w \<longrightarrow> fc_events (ctx_heap s1 p) AND WRITE \<noteq> 0 \<and>
      ec_scheduler (event_ctx WRITE (ctx_heap s1 p)) = Some (self_ptr s1)"
    using assms(3,4,6) s1(2,5) by simp
  obtain s2 where s2: "trigger_if w WRITE p s1 = Inr s2"
    "m_fibers s2 = m_fibers s1 @ (if w then [task_of_ctx (fc_write (ctx_heap s p))] else [])"
    "m_pendingEventCount s2 = m_pendingEventCount s1 - of_bool w"
    using trigger_if_deliver [OF n(1,2) _ pw] s1(5) by (auto simp: event_ctx_def)
  have e2: "fc_events (ctx_heap s2 p) = e AND NOT ((if r then READ else 0) OR (if w then WRITE else 0))"
    using trigger_if_inv [OF n(1,2) _ s2(1)] n(3) by (auto simp: bit.conj_disj_distribs ac_simps)
  show ?thesis using s1 s2 e2 by auto
qed

text \<open>
  C11. Delivery of events: when epoll reports for a context only events that are still registered
  (besides errors and hang-ups, which stand for all registered ones) and they were registered on
  threads of this object, the idle loop puts their tasks, read before write, at the end of the
  queue, unregisters exactly these events and takes them off the pending count.
\<close>

theorem handle_event_delivers:
  fixes s :: "'c iom"
  assumes "reachable io_init io_step s" and "p < next_ctx s"
    and "e = fc_events (ctx_heap s p)"
    and "fl AND EPOLLIN \<noteq> 0 \<longrightarrow> e AND READ \<noteq> 0" and "fl AND EPOLLOUT \<noteq> 0 \<longrightarrow> e AND WRITE \<noteq> 0"
    and "\<forall>ev. is_event ev \<and> e AND ev \<noteq> 0 \<longrightarrow> ec_scheduler (event_ctx ev (ctx_heap s p)) = Some (self_ptr s)"
    and "\<And>op fd evs p. ctl op fd evs p = 0"
    and "failed = (fl AND (EPOLLERR OR EPOLLHUP) \<noteq> 0)"
    and "r = (e AND READ \<noteq> 0 \<and> (failed \<or> fl AND EPOLLIN \<noteq> 0))"
    and "w = (e AND WRITE \<noteq> 0 \<and> (failed \<or> fl AND EPOLLOUT \<noteq> 0))"
  shows "\<exists>s'. handle_event ctl \<lparr>ev_data = DataPtr p, ev_events = fl\<rparr> s = Inr s' \<and>
    m_fibers s' = m_fibers s @ (if r then [task_of_ctx (fc_read (ctx_heap s p))] else [])
                             @ (if w then [task_of_ctx (fc_write (ctx_heap s p))] else []) \<and>
    fc_events (ctx_heap s' p) = e AND NOT ((if r then READ else 0) OR (if w then WRITE else 0)) \<and>
    m_pendingEventCount s' = m_pendingEventCount s - of_bool r - of_bool w"
proof -
  have inv: "iom_inv s" using assms(1) by (rule events.reachable_inv)
  have ev: "ev_ok e" using ctx_ok_at [OF inv assms(2)] assms(3) by (simp add: ctx_ok_def)
  obtain s1 s2 where s1: "trigger_if r READ p s = Inr s1" and s2: "trigger_if w WRITE p s1 = Inr s2"
    and fin: "m_fibers s2 = m_fibers s @ (if r then [task_of_ctx (fc_read (ctx_heap s p))] else [])
                             @ (if w then [task_of_ctx (fc_write (ctx_heap s p))] else [])"
      "fc_events (ctx_heap s2 p) = e AND NOT ((if r then READ else 0) OR (if w then WRITE else 0))"
      "m_pendingEventCount s2 = m_pendingEventCount s - of_bool r - of_bool w"
    using trigger_both_deliver [OF inv assms(2,3,6), of r w] assms(9,10) by blast
  let ?fl = "if failed then fl OR ((EPOLLIN OR EPOLLOUT) AND e) else fl"
  have bits: "?fl AND EPOLLIN \<noteq> 0 \<longleftrightarrow> r" "?fl AND EPOLLOUT \<noteq> 0 \<longleftrightarrow> w"
    using reported_bits [OF ev, of fl] assms(4,5,9,10) by auto
  let ?real = "(if r then READ else NONE) OR (if w then WRITE else NONE)"
  have real: "?real AND READ \<noteq> 0 \<longleftrightarrow> r" "?real AND WRITE \<noteq> 0 \<longleftrightarrow> w" by auto
  have handle: "handle_event ctl \<lparr>ev_data = DataPtr p, ev_events = fl\<rparr> s =
      (if e AND ?real = NONE then Inr s
       else bindE (trigger_if (?real AND READ \<noteq> 0) READ p s) (\<lambda>s1. trigger_if (?real AND WRITE \<noteq> 0) WRITE p s1))"
    unfolding handle_event_def Let_def epoll_event.select_convs epoll_data.case assms(3) [symmetric]
      assms(8) [symmetric] bits assms(7) by simp
  have "handle_event ctl \<lparr>ev_data = DataPtr p, ev_events = fl\<rparr> s = Inr s2"
  proof (cases "e AND ?real = NONE")
    case True
    then have "\<not> r \<and> \<not> w" using assms(9,10) ev by (auto simp: ev_ok_def split: if_splits)
    then show ?thesis using True handle s1 s2 by (simp add: trigger_if_def)
  next
    case False
    then show ?thesis unfolding handle real using s1 s2 by simp
  qed
  then show ?thesis using fin by blast
qed

text \<open>
  C39. How long the idle loop sleeps: whatever number of calls is interrupted by signals, the
  timeout given to \<^verbatim>\<open>epoll_wait\<close> is the same; it is 3000 without timers and the time to the next timer,
  at most 3000, when that time is below \<open>2\<^sup>31\<close> milliseconds. From \<open>2\<^sup>31\<close> up to \<open>2\<^sup>32\<close> the conversion to \<^verbatim>\<open>int\<close> makes
  it negative, which \<^verbatim>\<open>epoll_wait\<close> takes as no limit.
\<close>

theorem idle_timeout:
  fixes t :: u64
  shows "epoll_wait_loop t (replicate n None @ Some events # results) = Some (to_int (clamp_timeout t), events) \<and>
    (t = - 1 \<longrightarrow> to_int (clamp_timeout t) = 3000) \<and>
    (unat t < 2 ^ 31 \<longrightarrow> to_int (clamp_timeout t) = min (int (unat t)) 3000) \<and>
    (2 ^ 31 \<le> unat t \<and> unat t < 2 ^ 32 \<longrightarrow> to_int (clamp_timeout t) < 0)"
proof -
  have lim: "to_int (word_of_int MAX_TIMEOUT) = 3000" by (simp add: to_int_def MAX_TIMEOUT_def)
  have idem: "clamp_timeout (clamp_timeout t) = clamp_timeout t" for t
    by (simp add: clamp_timeout_def lim MAX_TIMEOUT_def)
  have loop: "epoll_wait_loop t (replicate n None @ Some events # results) = Some (to_int (clamp_timeout t), events)"
    by (induction n arbitrary: t) (simp_all add: idem)
  have u: "int (unat t) = uint t" for t :: u64 by simp
  have low: "to_int t = signed_take_bit 31 (int (unat t))" for t
    unfolding u by (simp add: to_int_def sint_uint unsigned_ucast_eq signed_take_bit_take_bit)
  have "signed_take_bit 31 (int n) = int n" if "n < 2 ^ 31" for n
    using that by (simp add: signed_take_bit_int_eq_self)
  then have small: "to_int t = int (unat t)" if "unat t < 2 ^ 31" for t
    using that low by metis
  have "signed_take_bit 31 (int n) < 0" if "2 ^ 31 \<le> n" "n < 2 ^ 32" for n
  proof -
    have "(int n + 2147483648) mod 4294967296 = (int n - 2147483648) mod 4294967296"
      using mod_add_self2 [of "int n - 2147483648" 4294967296] by (simp add: add.commute)
    also have "\<dots> = int n - 2147483648" using that by (intro mod_pos_pos_trivial) simp_all
    finally show ?thesis using that by (simp add: signed_take_bit_eq_take_bit_shift take_bit_eq_mod)
  qed
  then have big: "to_int t < 0" if "2 ^ 31 \<le> unat t" "unat t < 2 ^ 32" for t
    using that low by metis
  have "unat (- 1 :: u64) = 18446744073709551615"
    by (simp add: unsigned_minus_1_eq_mask mask_eq_exp_minus_1)
  then show ?thesis
    using loop small [of t] big [of t] lim
    by (auto simp: clamp_timeout_def MAX_TIMEOUT_def min_def)
qed

theorem idle_timeout_witness:
  "to_int (clamp_timeout 20) = 20 \<and> to_int (clamp_timeout 4000) = 3000 \<and> to_int (clamp_timeout 2147483648) < 0"
  using idle_timeout [of 20 0 "[]" "[]"] idle_timeout [of 4000 0 "[]" "[]"] idle_timeout [of 2147483648 0 "[]" "[]"]
  by simp

theorem handle_event_delivers_witness:
  "\<exists>s1 p s2. addEvent (\<lambda>_ _ _ _. 0) 7 READ (Some (Callback 1)) (new_tls\<lparr>t_scheduler := Some 9\<rparr>) demo_iom =
      Inr (0, new_tls\<lparr>t_scheduler := Some 9\<rparr>, s1) \<and>
     handle_event (\<lambda>_ _ _ _. 0) \<lparr>ev_data = DataPtr p, ev_events = EPOLLHUP\<rparr> s1 = Inr s2 \<and>
     m_fibers s2 = [FT_cb (Some (Callback 1)) (- 1)]"
proof -
  obtain s1 where s1: "addEvent (\<lambda>_ _ _ _. 0) 7 READ (Some (Callback 1)) (new_tls\<lparr>t_scheduler := Some 9\<rparr>) demo_iom =
      Inr (0, new_tls\<lparr>t_scheduler := Some 9\<rparr>, s1)" "length (m_fdContexts s1) = 32"
    using demo_addEvent by blast
  have inv: "iom_inv demo_iom" using demo_iom_fields(1) iom_inv_init by blast
  have r: "reachable io_init io_step s1"
    using reachable_step [OF reachable_init [of io_init demo_iom io_step, OF demo_iom_fields(1)] i_add [OF s1(1)]] .
  obtain p where p: "p < next_ctx s1" "fc_events (ctx_heap s1 p) AND READ \<noteq> 0" "iom_inv s1" "registered s1 = 1"
    "event_ctx READ (ctx_heap s1 p) = \<lparr>ec_scheduler = Some 9, ec_fiber = None, ec_cb = Some (Callback 1)\<rparr>"
    "m_fibers s1 = []" "self_ptr s1 = 9"
    using addEvent_ok [OF inv s1(1), of undefined] demo_iom_fields(2,3,6) by (auto simp: waits_for_def)
  have "ev_count (fc_events (ctx_heap s1 p)) \<le> registered s1"
    unfolding registered_def using p(1) by (intro member_le_sum) auto
  then have e: "fc_events (ctx_heap s1 p) = READ"
    using p(2,4) ctx_ok_at [OF p(3,1)] by (auto simp: ctx_ok_def ev_ok_def ev_count_def)
  have sch: "\<forall>ev. is_event ev \<and> READ AND ev \<noteq> 0 \<longrightarrow> ec_scheduler (event_ctx ev (ctx_heap s1 p)) = Some (self_ptr s1)"
    using p(5,7) by auto
  have flags: "EPOLLHUP AND EPOLLIN = 0" "EPOLLHUP AND EPOLLOUT = 0" "EPOLLHUP AND (EPOLLERR OR EPOLLHUP) \<noteq> 0"
    by (simp_all add: event_defs)
  obtain s2 where "handle_event (\<lambda>_ _ _ _. 0) \<lparr>ev_data = DataPtr p, ev_events = EPOLLHUP\<rparr> s1 = Inr s2"
    "m_fibers s2 = m_fibers s1 @ [task_of_ctx (fc_read (ctx_heap s1 p))]"
    using handle_event_delivers [OF r p(1) e [symmetric] _ _ sch _ refl refl refl, of EPOLLHUP "\<lambda>_ _ _ _. 0"] flags
    by auto
  then show ?thesis using s1(1) p(5,6) by (auto simp: event_ctx_def task_of_ctx_def)
qed

text \<open>An operation on events is one of the steps of the system of the scheduler and its workers.\<close>

lemma io_step_sys_step:
  assumes "io_step s s'" and "iom_inv s"
  shows "sys_step IOManager_tickle (IOManager_stopping now) (s, ws) (s', ws)"
proof -
  have "only_appends s s'"
    using assms
  proof (induction rule: io_step.induct)
    case (i_add ctl fd' event cb l s rt l' s')
    then show ?case using addEvent_inv by blast
  next
    case (i_grow fd' s p s')
    then show ?case using contextResize_frame [of "nat (fd' * 3 div 2)" s]
      by (auto simp: addEvent_grow_def Let_def bindE_eq_Inr only_appends_def)
  next
    case (i_locked p s ctl fd' event cb l rt l' s')
    then show ?case using addEvent_locked_inv by blast
  next
    case (i_del ctl fd' event s b s')
    then show ?case using delEvent_inv by blast
  next
    case (i_cancel ctl fd' event s b s')
    then show ?case using cancelEvent_inv by blast
  next
    case (i_cancelAll ctl fd' s b s')
    then show ?case using cancelAll_inv by blast
  next
    case (i_event s ev ctl s')
    then show ?case using handle_event_inv by blast
  qed
  then obtain q where "m_fibers s' = m_fibers s @ q" "\<forall>ft \<in> set q. task_ok ft"
    "m_activeThreadCount s' = m_activeThreadCount s" "m_idleThreadCount s' = m_idleThreadCount s"
    by (auto simp: only_appends_def)
  then show ?thesis by (intro y_derived) (auto simp: task_ok_def)
qed



lemma schedule_loop_eq:
  "snd (schedule_loop fts b s) = s\<lparr>m_fibers := m_fibers s @ filter task_ok fts\<rparr>"
proof (induction fts b s rule: schedule_loop.induct)
  case (1 need_tickle s)
  then show ?case by simp
next
  case (2 ft fts need_tickle s)
  let ?s1 = "if task_ok ft then s\<lparr>m_fibers := m_fibers s @ [ft]\<rparr> else s"
  have "schedulerNoLock ft s = (m_fibers s = [], ?s1)" by (simp add: schedulerNoLock_def task_ok_def)
  with 2 have "snd (schedule_loop (ft # fts) need_tickle s) = ?s1\<lparr>m_fibers := m_fibers ?s1 @ filter task_ok fts\<rparr>"
    by simp
  then show ?case by (cases "task_ok ft") simp_all
qed

lemma schedule_range_fields:
  "m_fibers (schedule_range IOManager_tickle fts s) = m_fibers s @ filter task_ok fts"
  "mem (schedule_range IOManager_tickle fts s) = mem s"
  "timers (schedule_range IOManager_tickle fts s) = timers s"
proof -
  obtain b' s' where r: "schedule_loop fts False s = (b', s')" by fastforce
  then have "s' = s\<lparr>m_fibers := m_fibers s @ filter task_ok fts\<rparr>" using schedule_loop_eq [of fts False s] by simp
  then show "m_fibers (schedule_range IOManager_tickle fts s) = m_fibers s @ filter task_ok fts"
    "mem (schedule_range IOManager_tickle fts s) = mem s" "timers (schedule_range IOManager_tickle fts s) = timers s"
    using r by (simp_all add: schedule_range_def IOManager_tickle_def)
qed

lemma idle_turn:
  assumes "stopping_timeout now1 s = (False, t, s1)" and "epoll_wait_loop t results = Some (timeout, events)"
    and "listExpiredCb now2 q [] (timers s1) = Inr (cbs, tm)"
    and "sc = (if cbs \<noteq> [] then schedule_range IOManager_tickle (map (\<lambda>cb. FT_cb cb (- 1)) cbs) (s1\<lparr>timers := tm\<rparr>)
               else s1\<lparr>timers := tm\<rparr>)"
    and "handle_events ctl events sc = Inr se"
    and "t_fiber (w_tls w) = Some i" and "swapOut i (w_tls w) (mem se) = Inr (l2, m2)"
  shows "IOManager_idle ctl now1 now2 q results w s = Inr (Some (w\<lparr>w_tls := l2\<rparr>, se\<lparr>mem := m2\<rparr>))"
  using assms by (simp add: IOManager_idle_def GetThis_def)

text \<open>
  C10. The idle loop hands timers to the workers: a turn of \<open>idle\<close> on a worker's idle fiber, when the object
  is not stopping and no event is reported, appends the callbacks of exactly the timers due at
  that time, in the order of their deadlines, to the queue, re-arms or disarms the timers as
  \<open>listExpiredCb\<close> does, and switches back to the scheduling fiber.
\<close>

theorem idle_runs_timers:
  assumes "\<not> fst (stopping_timeout now1 s)" and "tm_inv (timers s)" and "q \<notin> set (m_timers (timers s))"
    and "r = fst (detectClockRollover now2 (timers s))"
    and "t_fiber (w_tls w) = Some i" and "t_scheduler_fiber (w_tls w) = Some m" and "m_ctx (fibers (mem s) m) \<noteq> AtEnd"
  shows "\<exists>w' s' ps. IOManager_idle ctl now1 now2 q (replicate n None @ [Some []]) w s = Inr (Some (w', s')) \<and>
    set ps = {p. \<exists>t. armed (timers s) p = Some t \<and> due r now2 t} \<and>
    sorted_wrt (timer_lt (timer_heap (timers s))) ps \<and>
    m_fibers s' = m_fibers s @
      filter task_ok (map (\<lambda>p. FT_cb (m_timer_cb (timer_heap (timers s) p)) (- 1)) ps) \<and>
    armed (timers s') = expire r now2 (armed (timers s)) \<and> tm_inv (timers s') \<and>
    t_cpu (w_tls w') = Some m"
proof -
  let ?tm = "(timers s)\<lparr>m_tickled := False\<rparr>"
  obtain b t where st: "stopping_timeout now1 s = (b, t, s\<lparr>timers := ?tm\<rparr>)" "\<not> b"
    using assms(1) by (auto simp: stopping_timeout_def getNextTimer_def Let_def split: list.splits if_splits)
  have inv: "tm_inv ?tm" using assms(2) by (simp add: tm_inv_def)
  have arm: "armed ?tm = armed (timers s)" by (simp add: armed_def fun_eq_iff)
  have q: "q \<notin> set (m_timers ?tm)" and r: "r = fst (detectClockRollover now2 ?tm)"
    using assms(3,4) by (simp_all add: detectClockRollover_def)
  let ?ps = "filter (\<lambda>p. due r now2 (timer_heap (timers s) p)) (m_timers (timers s))"
  obtain tm' where tm': "listExpiredCb now2 q [] ?tm = Inr (map (\<lambda>p. m_timer_cb (timer_heap (timers s) p)) ?ps, tm')"
    "tm_inv tm'" "armed tm' = expire r now2 (armed (timers s))"
    by (rule listExpired_run [OF inv q r, where cbs = "[]"]) (auto simp: arm)
  let ?cbs = "map (\<lambda>p. m_timer_cb (timer_heap (timers s) p)) ?ps"
  define sc where "sc = (if ?cbs \<noteq> [] then schedule_range IOManager_tickle (map (\<lambda>cb. FT_cb cb (- 1)) ?cbs)
      (s\<lparr>timers := ?tm, timers := tm'\<rparr>) else s\<lparr>timers := ?tm, timers := tm'\<rparr>)"
  have f: "m_fibers sc = m_fibers s @ filter task_ok (map (\<lambda>p. FT_cb (m_timer_cb (timer_heap (timers s) p)) (- 1)) ?ps)"
    "mem sc = mem s" "timers sc = tm'"
    by (simp_all add: sc_def schedule_range_fields comp_def)
  have loop: "\<exists>timeout. epoll_wait_loop t (replicate n None @ [Some []]) = Some (timeout, [])" for t
    by (induction n arbitrary: t) simp_all
  then obtain timeout where ep: "epoll_wait_loop t (replicate n None @ [Some []]) = Some (timeout, [])" by blast
  have out: "swapOut i (w_tls w) (mem sc) =
      Inr ((w_tls w)\<lparr>t_fiber := Some m, t_cpu := Some m\<rparr>, set_fiber i (\<lambda>f. f\<lparr>m_ctx := Saved\<rparr>) (mem s))"
    using assms(6,7) by (simp add: swapOut_Inr f(2))
  have run: "IOManager_idle ctl now1 now2 q (replicate n None @ [Some []]) w s =
      Inr (Some (w\<lparr>w_tls := (w_tls w)\<lparr>t_fiber := Some m, t_cpu := Some m\<rparr>\<rparr>,
        sc\<lparr>mem := set_fiber i (\<lambda>f. f\<lparr>m_ctx := Saved\<rparr>) (mem s)\<rparr>))"
    by (rule idle_turn [OF _ ep _ sc_def _ assms(5) out]) (use st tm'(1) in simp_all)
  have "set ?ps = {p. \<exists>t. armed (timers s) p = Some t \<and> due r now2 t}" by (auto simp: armed_eq_Some)
  moreover have "sorted_wrt (timer_lt (timer_heap (timers s))) ?ps"
    using tm_invD(1) [OF assms(2)] by (rule sorted_wrt_filter)
  ultimately show ?thesis
    using run f tm'(2,3) by (intro exI [of _ ?ps] exI conjI) (rule run, simp_all)
qed

theorem idle_runs_timers_witness:
  "\<exists>w' s'. IOManager_idle (\<lambda>_ _ _ _. 0) 200 200 99 [None, Some []]
       (\<lparr>w_tid = 12, w_tls = demo_tls, w_idle_fiber = 1, w_cb_fiber = None, w_ft = FT_reset,
         w_tickle_me = False, w_is_active = False, w_pc = InIdle\<rparr>)
       (demo_iom\<lparr>timers := demo_tm, mem := (mem demo_iom)\<lparr>fibers := \<lambda>_. \<lparr>m_id = 0, m_stacksize = 0, m_state = EXEC,
          m_ctx = Captured, m_stack = False, m_fiber_cb = None\<rparr>\<rparr>\<rparr>) = Inr (Some (w', s')) \<and>
     t_cpu (w_tls w') = Some 0 \<and> armed (timers s') = expire False 200 (armed demo_tm)"
  using idle_runs_timers [of 200 "demo_iom\<lparr>timers := demo_tm, mem := (mem demo_iom)\<lparr>fibers := \<lambda>_. \<lparr>m_id = 0, m_stacksize = 0, m_state = EXEC,
          m_ctx = Captured, m_stack = False, m_fiber_cb = None\<rparr>\<rparr>\<rparr>" 99 False 200
      "\<lparr>w_tid = 12, w_tls = demo_tls, w_idle_fiber = 1, w_cb_fiber = None, w_ft = FT_reset,
         w_tickle_me = False, w_is_active = False, w_pc = InIdle\<rparr>" 1 0 "\<lambda>_ _ _ _. 0" 1]
    demo_tm_inv
  by (auto simp: demo_tm_eq stopping_timeout_def getNextTimer_def new_Timer_def detectClockRollover_def demo_tls_def
      Let_def)

end
