(* ===== verification/Fd_Manager.thy ===== *)
theory Fd_Manager
  imports Sylar_Prelude
begin

unbundle bit_operations_syntax

text \<open>
  \<^verbatim>\<open>sylar/fd_manager.h\<close> and \<^verbatim>\<open>sylar/fd_manager.cpp\<close>: what the hooks know of a file descriptor. The kernel is
  a record of the calls the code makes, over a state type of its own: \<open>k_fstat\<close> says whether a
  descriptor is open and is a socket, \<open>k_getfl\<close> and \<open>k_setfl\<close> are \<^verbatim>\<open>fcntl_f\<close> with \<^verbatim>\<open>F_GETFL\<close> and \<^verbatim>\<open>F_SETFL\<close>.
\<close>

section \<open>Data\<close>

record 'k kernel =
  k_fstat :: "fd \<Rightarrow> 'k \<Rightarrow> bool option"
  k_getfl :: "fd \<Rightarrow> 'k \<Rightarrow> u32"
  k_setfl :: "fd \<Rightarrow> u32 \<Rightarrow> 'k \<Rightarrow> int \<times> 'k"

definition O_NONBLOCK :: u32 where "O_NONBLOCK = 0x800"
definition SO_RCVTIMEO :: int where "SO_RCVTIMEO = 20"
definition SO_SNDTIMEO :: int where "SO_SNDTIMEO = 21"

record fd_ctx =
  m_isInit :: bool
  m_isSocket :: bool
  m_sysNonblock :: bool
  m_userNonblock :: bool
  m_isClosed :: bool
  m_fd :: fd
  m_recvTimeout :: u64
  m_sendTimeout :: u64

record fd_manager =
  m_datas :: "fd_ctx option list"

section \<open>Operations\<close>

definition FdCtx_init :: "'k kernel \<Rightarrow> fd_ctx \<Rightarrow> 'k \<Rightarrow> bool \<times> fd_ctx \<times> 'k" where
  "FdCtx_init K c k =
     (if m_isInit c then (True, c, k)
      else
        let c1 = c\<lparr>m_recvTimeout := - 1, m_sendTimeout := - 1\<rparr>;
            c2 = (case k_fstat K (m_fd c1) k of
                    None \<Rightarrow> c1\<lparr>m_isInit := False, m_isSocket := False\<rparr>
                  | Some sock \<Rightarrow> c1\<lparr>m_isInit := True, m_isSocket := sock\<rparr>);
            (c3, k3) = (if m_isSocket c2 then
                          let flags = k_getfl K (m_fd c2) k;
                              k1 = (if flags AND O_NONBLOCK = 0
                                    then snd (k_setfl K (m_fd c2) (flags OR O_NONBLOCK) k) else k)
                          in (c2\<lparr>m_sysNonblock := True\<rparr>, k1)
                        else (c2\<lparr>m_sysNonblock := False\<rparr>, k))
        in (m_isInit c3, c3\<lparr>m_userNonblock := False, m_isClosed := False\<rparr>, k3))"

definition new_FdCtx :: "'k kernel \<Rightarrow> fd \<Rightarrow> 'k \<Rightarrow> fd_ctx \<times> 'k" where
  "new_FdCtx K fd' k =
     snd (FdCtx_init K \<lparr>m_isInit = False, m_isSocket = False, m_sysNonblock = False, m_userNonblock = False,
            m_isClosed = False, m_fd = fd', m_recvTimeout = - 1, m_sendTimeout = - 1\<rparr> k)"

definition FdCtx_close :: "fd_ctx \<Rightarrow> bool \<times> fd_ctx" where
  "FdCtx_close c = (True, c)"

definition setTimeout :: "int \<Rightarrow> u64 \<Rightarrow> fd_ctx \<Rightarrow> fd_ctx" where
  "setTimeout type v c = (if type = SO_RCVTIMEO then c\<lparr>m_recvTimeout := v\<rparr> else c\<lparr>m_sendTimeout := v\<rparr>)"

definition getTimeout :: "int \<Rightarrow> fd_ctx \<Rightarrow> u64" where
  "getTimeout type c = (if type = SO_RCVTIMEO then m_recvTimeout c else m_sendTimeout c)"

definition FdManager :: fd_manager where
  "FdManager = \<lparr>m_datas = replicate 64 None\<rparr>"

text \<open>\<^verbatim>\<open>m_datas[fd]\<close> read and written.\<close>

definition data_at :: "fd \<Rightarrow> fd_manager \<Rightarrow> fd_ctx option res" where
  "data_at fd' m =
     (if 0 \<le> fd' \<and> nat fd' < length (m_datas m) then Inr (m_datas m ! nat fd') else Inl (OutOfRange ''m_datas[fd]''))"

definition data_put :: "fd \<Rightarrow> fd_ctx option \<Rightarrow> fd_manager \<Rightarrow> fd_manager res" where
  "data_put fd' c m =
     (if 0 \<le> fd' \<and> nat fd' < length (m_datas m) then Inr (m\<lparr>m_datas := (m_datas m)[nat fd' := c]\<rparr>)
      else Inl (OutOfRange ''m_datas[fd]''))"

definition FdManager_get ::
  "'k kernel \<Rightarrow> fd \<Rightarrow> bool \<Rightarrow> fd_manager \<Rightarrow> 'k \<Rightarrow> (fd_ctx option \<times> fd_manager \<times> 'k) res" where
  "FdManager_get K fd' auto_create m k =
     bindE (if int (length (m_datas m)) \<le> fd' then Inr (if auto_create then None else Some None)
            else bindE (data_at fd' m) (\<lambda>c. Inr (if c \<noteq> None \<or> \<not> auto_create then Some c else None)))
       (\<lambda>found. case found of
          Some c \<Rightarrow> Inr (c, m, k)
        | None \<Rightarrow>
            let (ctx, k1) = new_FdCtx K fd' k
            in bindE (data_put fd' (Some ctx) m) (\<lambda>m1. Inr (Some ctx, m1, k1)))"

definition FdManager_del :: "fd \<Rightarrow> fd_manager \<Rightarrow> fd_manager res" where
  "FdManager_del fd' m = (if int (length (m_datas m)) \<le> fd' then Inr m else data_put fd' None m)"

section \<open>Lemmas\<close>

text \<open>The table as a map.\<close>

definition fd_map :: "fd_manager \<Rightarrow> fd \<rightharpoonup> fd_ctx" where
  "fd_map m fd' = (if 0 \<le> fd' \<and> nat fd' < length (m_datas m) then m_datas m ! nat fd' else None)"

definition fd_valid :: "fd_manager \<Rightarrow> fd \<Rightarrow> bool" where
  "fd_valid m fd' \<longleftrightarrow> 0 \<le> fd' \<and> nat fd' < length (m_datas m)"

text \<open>
  What the clients of the table rely on: a lookup finds what was put, a deletion removes it,
  neither touches other descriptors.
\<close>

locale fd_table =
  fixes lookup :: "'m \<Rightarrow> fd \<rightharpoonup> 'c"
    and valid :: "'m \<Rightarrow> fd \<Rightarrow> bool"
    and put :: "fd \<Rightarrow> 'c option \<Rightarrow> 'm \<Rightarrow> 'm res"
  assumes put_valid: "valid m fd' \<Longrightarrow> \<exists>m'. put fd' c m = Inr m' \<and> lookup m' = (lookup m)(fd' := c) \<and> valid m' = valid m"
    and put_invalid: "\<not> valid m fd' \<Longrightarrow> \<exists>e. put fd' c m = Inl e"
begin

lemma put_Inr:
  assumes "put fd' c m = Inr m'"
  shows "valid m fd'" "lookup m' = (lookup m)(fd' := c)" "valid m' = valid m"
  using assms put_valid [of m fd' c] put_invalid [of m fd' c] by (cases "valid m fd'"; auto)+

end

lemma fd_map_update:
  assumes "fd_valid m fd'"
  shows "fd_map (m\<lparr>m_datas := (m_datas m)[nat fd' := c]\<rparr>) = (fd_map m)(fd' := c)"
proof
  fix x
  show "fd_map (m\<lparr>m_datas := (m_datas m)[nat fd' := c]\<rparr>) x = ((fd_map m)(fd' := c)) x"
    using assms by (cases "x = fd'") (auto simp: fd_map_def fd_valid_def nth_list_update eq_nat_nat_iff)
qed

interpretation tbl: fd_table fd_map fd_valid data_put
  by unfold_locales (auto simp: data_put_def fd_map_update [unfolded fd_valid_def] fd_valid_def fun_eq_iff)

lemma FdManager_get_eq:
  assumes "0 \<le> fd'"
  shows "FdManager_get K fd' auto_create m k =
    (case fd_map m fd' of
       Some c \<Rightarrow> Inr (Some c, m, k)
     | None \<Rightarrow> if \<not> auto_create then Inr (None, m, k)
               else bindE (data_put fd' (Some (fst (new_FdCtx K fd' k))) m) (\<lambda>m1.
                      Inr (Some (fst (new_FdCtx K fd' k)), m1, snd (new_FdCtx K fd' k))))"
  using assms
  by (auto simp: FdManager_get_def fd_map_def data_at_def split: option.splits prod.splits)

lemma FdManager_del_eq:
  assumes "0 \<le> fd'" and "FdManager_del fd' m = Inr m'"
  shows "fd_map m' = (fd_map m)(fd' := None) \<and> fd_valid m' = fd_valid m"
proof (cases "int (length (m_datas m)) \<le> fd'")
  case True
  then have "m' = m" using assms(2) by (simp add: FdManager_del_def)
  with True show ?thesis by (auto simp: fd_map_def fun_eq_iff)
next
  case False
  with assms tbl.put_Inr [of fd' None m m'] show ?thesis by (simp add: FdManager_del_def)
qed

section \<open>Properties\<close>

text \<open>
  The descriptor table: within the vector, \<open>get\<close> with creation returns the entry of the
  descriptor, making a fresh one only when there was none (a socket is then switched to
  non-blocking in the kernel, with no timeouts and not non-blocking for the user), a later \<open>get\<close> without
  creation finds it, \<open>del\<close> removes it, and other descriptors are not touched. Beyond the vector, whose
  size never changes, \<open>get\<close> with creation writes out of bounds; any access with a negative
  descriptor is out of bounds.
\<close>

theorem fd_table_spec:
  fixes K :: "'k kernel"
  shows "(fd_valid m fd' \<longrightarrow>
      (\<exists>c m' k'. FdManager_get K fd' True m k = Inr (Some c, m', k') \<and> fd_map m' = (fd_map m)(fd' \<mapsto> c) \<and>
         fd_valid m' = fd_valid m \<and> FdManager_get K fd' auto_create m' k' = Inr (Some c, m', k') \<and>
         (\<exists>m''. FdManager_del fd' m' = Inr m'' \<and> fd_map m'' = (fd_map m)(fd' := None)) \<and>
         (fd_map m fd' = None \<longrightarrow> (c, k') = new_FdCtx K fd' k \<and> m_fd c = fd' \<and>
            m_isSocket c = (k_fstat K fd' k = Some True) \<and> m_sysNonblock c = m_isSocket c \<and> \<not> m_userNonblock c \<and>
            getTimeout t c = - 1))) \<and>
    (int (length (m_datas m)) \<le> fd' \<longrightarrow> FdManager_get K fd' True m k = Inl (OutOfRange ''m_datas[fd]'')) \<and>
    (fd' < 0 \<longrightarrow> FdManager_get K fd' auto_create m k = Inl (OutOfRange ''m_datas[fd]''))"
proof (intro conjI impI)
  assume v: "fd_valid m fd'"
  then have nn: "0 \<le> fd'" by (simp add: fd_valid_def)
  define c k' where "c = (case fd_map m fd' of Some c \<Rightarrow> c | None \<Rightarrow> fst (new_FdCtx K fd' k))"
    and "k' = (case fd_map m fd' of Some c \<Rightarrow> k | None \<Rightarrow> snd (new_FdCtx K fd' k))"
  obtain m' where m': "FdManager_get K fd' True m k = Inr (Some c, m', k')" "fd_map m' = (fd_map m)(fd' \<mapsto> c)"
    "fd_valid m' = fd_valid m"
    using FdManager_get_eq [OF nn, of K True m k] tbl.put_valid [OF v, of "Some c"]
    by (cases "fd_map m fd'") (auto simp: c_def k'_def fun_upd_idem)
  have again: "FdManager_get K fd' auto_create m' k' = Inr (Some c, m', k')"
    using FdManager_get_eq [OF nn, of K auto_create m' k'] m'(2) by simp
  have v': "fd_valid m' fd'" using v m'(3) by simp
  then obtain m'' where d: "FdManager_del fd' m' = Inr m''"
    using tbl.put_valid [OF v', of None] by (cases "int (length (m_datas m')) \<le> fd'") (auto simp: FdManager_del_def)
  have del: "\<exists>m''. FdManager_del fd' m' = Inr m'' \<and> fd_map m'' = (fd_map m)(fd' := None)"
    using FdManager_del_eq [OF nn d] d m'(2) by simp
  have "fd_map m fd' = None \<longrightarrow> (c, k') = new_FdCtx K fd' k \<and> m_fd c = fd' \<and>
      m_isSocket c = (k_fstat K fd' k = Some True) \<and> m_sysNonblock c = m_isSocket c \<and> \<not> m_userNonblock c \<and>
      getTimeout t c = - 1"
    by (auto simp: c_def k'_def new_FdCtx_def FdCtx_init_def Let_def getTimeout_def split: option.splits)
  with m' again del show "\<exists>c m' k'. FdManager_get K fd' True m k = Inr (Some c, m', k') \<and> fd_map m' = (fd_map m)(fd' \<mapsto> c) \<and>
         fd_valid m' = fd_valid m \<and> FdManager_get K fd' auto_create m' k' = Inr (Some c, m', k') \<and>
         (\<exists>m''. FdManager_del fd' m' = Inr m'' \<and> fd_map m'' = (fd_map m)(fd' := None)) \<and>
         (fd_map m fd' = None \<longrightarrow> (c, k') = new_FdCtx K fd' k \<and> m_fd c = fd' \<and>
            m_isSocket c = (k_fstat K fd' k = Some True) \<and> m_sysNonblock c = m_isSocket c \<and> \<not> m_userNonblock c \<and>
            getTimeout t c = - 1)"
    by - (rule exI [of _ c], rule exI [of _ m'], rule exI [of _ k'], intro conjI)
next
  assume "int (length (m_datas m)) \<le> fd'"
  then show "FdManager_get K fd' True m k = Inl (OutOfRange ''m_datas[fd]'')"
    by (auto simp: FdManager_get_def data_put_def Let_def split: prod.splits)
next
  assume "fd' < 0"
  then show "FdManager_get K fd' auto_create m k = Inl (OutOfRange ''m_datas[fd]'')"
    by (simp add: FdManager_get_def data_at_def)
qed

definition demo_kernel :: "(fd \<Rightarrow> u32) kernel" where
  "demo_kernel = \<lparr>k_fstat = \<lambda>fd' k. Some True, k_getfl = \<lambda>fd' k. k fd', k_setfl = \<lambda>fd' fl k. (0, k(fd' := fl))\<rparr>"

theorem fd_table_spec_witness:
  "(\<exists>c m' k'. FdManager_get demo_kernel 5 True FdManager (\<lambda>_. 0) = Inr (Some c, m', k') \<and> m_isSocket c) \<and>
   FdManager_get demo_kernel 64 True FdManager (\<lambda>_. 0) = Inl (OutOfRange ''m_datas[fd]'')"
  using fd_table_spec [of FdManager 5 demo_kernel "\<lambda>_. 0" True 0] fd_table_spec [of FdManager 64 demo_kernel "\<lambda>_. 0" True 0]
  by (auto simp: fd_valid_def FdManager_def demo_kernel_def fd_map_def)

end
