(* ===== verification/Hook.thy ===== *)
theory Hook
  imports IOManager Fd_Manager "HOL-Library.Signed_Division"
begin

text \<open>
  \<^verbatim>\<open>sylar/hook.h\<close> and \<^verbatim>\<open>sylar/hook.cpp\<close>: the replaced system calls. The original functions (the pointers
  \<^verbatim>\<open>name_f\<close>) are arguments, or their results are. A hooked call that parks its fiber is cut at
  the yield: the state at the time the fiber runs again is an argument, because in between other
  fibers run. The lambdas of the source are the values of \<open>hook_cb\<close>.
\<close>

section \<open>Data\<close>

datatype 'u hook_cb = User 'u | ScheduleFiber fiber_ptr | OnTimeout weak_ptr fd u32

text \<open>A result of a system call: a value, or \<open>-1\<close> with \<^verbatim>\<open>errno\<close>.\<close>

datatype io_ret = Ret int | Err int

definition EINTR :: int where "EINTR = 4"
definition EBADF :: int where "EBADF = 9"
definition EAGAIN :: int where "EAGAIN = 11"
definition ETIMEDOUT :: int where "ETIMEDOUT = 110"
definition EINPROGRESS :: int where "EINPROGRESS = 115"

lemmas errno_defs = EINTR_def EBADF_def EAGAIN_def ETIMEDOUT_def EINPROGRESS_def

text \<open>The I/O manager of the thread and the \<^verbatim>\<open>timer_info\<close> objects: \<open>None\<close> when destroyed, otherwise the
  member \<^verbatim>\<open>cancelled\<close>.\<close>

record 'u hio =
  h_iom :: "'u hook_cb iom"
  h_tinfo :: "weak_ptr \<Rightarrow> int option"

section \<open>The original functions\<close>

text \<open>
  The pointers \<^verbatim>\<open>name_f\<close> that \<^verbatim>\<open>hook_init\<close> fills with the addresses \<^verbatim>\<open>dlsym\<close> finds, by name; \<open>None\<close> is the null pointer. The flag
  \<^verbatim>\<open>is_inited\<close> is tested and never set.
\<close>

record hook_symbols =
  is_inited :: bool
  name_f :: "string \<Rightarrow> nat option"

definition HOOK_FUN :: "string list" where
  "HOOK_FUN = [''sleep'', ''usleep'', ''nanosleep'', ''socket'', ''connect'', ''accept'', ''read'', ''readv'', ''recv'', ''recvfrom'', ''recvmsg'',
     ''write'', ''writev'', ''send'', ''sendto'', ''sendmsg'', ''close'', ''fcntl'', ''ioctl'', ''getsockopt'', ''setsockopt'']"

definition no_symbols :: hook_symbols where
  "no_symbols = \<lparr>is_inited = False, name_f = (\<lambda>_. None)\<rparr>"

definition hook_init :: "(string \<Rightarrow> nat option) \<Rightarrow> hook_symbols \<Rightarrow> hook_symbols" where
  "hook_init dlsym s =
     (if is_inited s then s else fold (\<lambda>name s. s\<lparr>name_f := (name_f s)(name := dlsym name)\<rparr>) HOOK_FUN s)"

section \<open>Parking a fiber\<close>

definition is_hook_enable :: "tls \<Rightarrow> bool" where
  "is_hook_enable l = t_hook_enable l"

definition set_hook_enable :: "bool \<Rightarrow> tls \<Rightarrow> tls" where
  "set_hook_enable flag l = l\<lparr>t_hook_enable := flag\<rparr>"

text \<open>\<^verbatim>\<open>IOManager::GetThis()\<close>: null when the scheduler of the thread is not the I/O manager.\<close>

definition IOManager_GetThis :: "tls \<Rightarrow> 'c iom \<Rightarrow> unit option" where
  "IOManager_GetThis l s = (if t_scheduler l = Some (self_ptr s) then Some () else None)"

text \<open>What the callbacks do when a worker runs them.\<close>

definition run_OnTimeout :: "epoll_ctl \<Rightarrow> weak_ptr \<Rightarrow> fd \<Rightarrow> u32 \<Rightarrow> 'u hio \<Rightarrow> 'u hio res" where
  "run_OnTimeout ctl winfo fd' event h =
     (case h_tinfo h winfo of
        None \<Rightarrow> Inr h
      | Some cancelled \<Rightarrow>
          if cancelled \<noteq> 0 then Inr h
          else
            bindE (cancelEvent ctl fd' event (h_iom h)) (\<lambda>(b, s).
            Inr (h\<lparr>h_tinfo := (h_tinfo h)(winfo \<mapsto> ETIMEDOUT), h_iom := s\<rparr>)))"

fun run_hook_cb :: "epoll_ctl \<Rightarrow> ('u \<Rightarrow> 'u hio \<Rightarrow> 'u hio res) \<Rightarrow> 'u hook_cb \<Rightarrow> 'u hio \<Rightarrow> 'u hio res" where
  "run_hook_cb ctl user (User u) h = user u h"
| "run_hook_cb ctl user (ScheduleFiber f) h =
     Inr (h\<lparr>h_iom := schedule IOManager_tickle (FT_fiber (Some f) (- 1)) (h_iom h)\<rparr>)"
| "run_hook_cb ctl user (OnTimeout winfo fd' event) h = run_OnTimeout ctl winfo fd' event h"

text \<open>
  The three sleeping functions arm a one-shot timer that schedules the fiber, and park it; \<open>orig\<close> is
  the result of the original function.
\<close>

definition park_for :: "u64 \<Rightarrow> u64 \<Rightarrow> timer_ptr \<Rightarrow> tls \<Rightarrow> 'u hook_cb iom \<Rightarrow> (int \<times> tls \<times> 'u hook_cb iom) res" where
  "park_for ms now p l s =
     (let (f, l1, m1) = GetThis l (mem s);
          s1 = s\<lparr>mem := m1\<rparr>
      in bindE (deref (IOManager_GetThis l1 s1) ''iom'') (\<lambda>_.
         let s2 = IOManager_addTimer ms (Some (Callback (ScheduleFiber f))) False now p s1
         in bindE (YieldToHold l1 (mem s2)) (\<lambda>(l2, m2). Inr (0, l2, s2\<lparr>mem := m2\<rparr>))))"

definition sleep :: "(u32 \<Rightarrow> int) \<Rightarrow> u32 \<Rightarrow> u64 \<Rightarrow> timer_ptr \<Rightarrow> tls \<Rightarrow> 'u hook_cb iom \<Rightarrow> (int \<times> tls \<times> 'u hook_cb iom) res" where
  "sleep sleep_f seconds now p l s =
     (if \<not> t_hook_enable l then Inr (sleep_f seconds, l, s)
      else park_for (ucast (seconds * 1000)) now p l s)"

definition usleep :: "(u32 \<Rightarrow> int) \<Rightarrow> u32 \<Rightarrow> u64 \<Rightarrow> timer_ptr \<Rightarrow> tls \<Rightarrow> 'u hook_cb iom \<Rightarrow> (int \<times> tls \<times> 'u hook_cb iom) res" where
  "usleep usleep_f usec now p l s =
     (if \<not> t_hook_enable l then Inr (usleep_f usec, l, s)
      else park_for (ucast (usec div 1000)) now p l s)"

text \<open>\<^verbatim>\<open>int timeout_ms = req->tv_sec * 1000 + req->tv_nsec / 1000 / 1000\<close>, then \<^verbatim>\<open>uint64_t\<close>.\<close>

definition nanosleep_ms :: "int \<Rightarrow> int \<Rightarrow> u64" where
  "nanosleep_ms tv_sec tv_nsec = scast (word_of_int (tv_sec * 1000 + tv_nsec sdiv 1000 sdiv 1000) :: u32)"

definition nanosleep ::
  "(int \<Rightarrow> int \<Rightarrow> int) \<Rightarrow> int \<Rightarrow> int \<Rightarrow> u64 \<Rightarrow> timer_ptr \<Rightarrow> tls \<Rightarrow> 'u hook_cb iom \<Rightarrow> (int \<times> tls \<times> 'u hook_cb iom) res" where
  "nanosleep nanosleep_f tv_sec tv_nsec now p l s =
     (if \<not> t_hook_enable l then Inr (nanosleep_f tv_sec tv_nsec, l, s)
      else park_for (nanosleep_ms tv_sec tv_nsec) now p l s)"

section \<open>Input and output\<close>

datatype io_plan = Direct | Closed | Managed u64

text \<open>The beginning of \<open>do_io\<close>: what kind of call it is, with the timeout of a managed one.\<close>

definition do_io_enter :: "'k kernel \<Rightarrow> fd \<Rightarrow> int \<Rightarrow> tls \<Rightarrow> fd_manager \<Rightarrow> 'k \<Rightarrow> io_plan res" where
  "do_io_enter K fd' timeout_so l m k =
     (if \<not> t_hook_enable l then Inr Direct
      else
        bindE (FdManager_get K fd' False m k) (\<lambda>(ctx, m1, k1).
        case ctx of
          None \<Rightarrow> Inr Direct
        | Some c \<Rightarrow>
            if m_isClosed c then Inr Closed
            else if \<not> m_isSocket c \<or> m_userNonblock c then Inr Direct
            else Inr (Managed (getTimeout timeout_so c))))"

text \<open>
  The wait after \<^verbatim>\<open>EAGAIN\<close>: the timer (if there is a timeout), the event, the yield. \<open>ti\<close> is the
  \<^verbatim>\<open>timer_info\<close> of the call. \<open>False\<close>: \<open>addEvent\<close> failed and the timer was cancelled.
\<close>

definition do_io_block ::
  "epoll_ctl \<Rightarrow> fd \<Rightarrow> u32 \<Rightarrow> u64 \<Rightarrow> weak_ptr \<Rightarrow> u64 \<Rightarrow> timer_ptr \<Rightarrow> tls \<Rightarrow> 'u hook_cb iom \<Rightarrow>
   (bool \<times> tls \<times> 'u hook_cb iom) res" where
  "do_io_block ctl fd' event to ti now p l s =
     bindE (deref (IOManager_GetThis l s) ''iom'') (\<lambda>_.
     let s1 = (if to \<noteq> - 1
               then IOManager_addConditionTimer to (Some (Callback (OnTimeout ti fd' event))) ti False now p s
               else s)
     in bindE (addEvent ctl fd' event None l s1) (\<lambda>(rt, l2, s2).
        if rt \<noteq> 0 then
          bindE (if to \<noteq> - 1 then bindE (cancel p (timers s2)) (\<lambda>(b, tm). Inr (s2\<lparr>timers := tm\<rparr>)) else Inr s2) (\<lambda>s3.
          Inr (False, l2, s3))
        else
          bindE (YieldToHold l2 (mem s2)) (\<lambda>(l3, m3). Inr (True, l3, s2\<lparr>mem := m3\<rparr>))))"

text \<open>After the yield: the timer is cancelled; \<open>Some e\<close> when the call was cancelled with error \<open>e\<close>.\<close>

definition do_io_resume :: "u64 \<Rightarrow> weak_ptr \<Rightarrow> timer_ptr \<Rightarrow> 'u hio \<Rightarrow> (int option \<times> 'u hio) res" where
  "do_io_resume to ti p h =
     bindE (if to \<noteq> - 1 then bindE (cancel p (timers (h_iom h))) (\<lambda>(b, tm). Inr (h\<lparr>h_iom := (h_iom h)\<lparr>timers := tm\<rparr>\<rparr>))
            else Inr h) (\<lambda>h1.
     case h_tinfo h1 ti of
       Some cancelled \<Rightarrow> Inr (if cancelled \<noteq> 0 then Some cancelled else None, h1)
     | None \<Rightarrow> Inl (NullDeref ''tinfo''))"

text \<open>
  The loop \<^verbatim>\<open>retry\<close>. Each round has the results of the calls of the original function, the time and the
  address for a timer, the \<^verbatim>\<open>errno\<close> a failed \<open>addEvent\<close> leaves, and the thread and state in which the fiber runs again after the yield. \<open>None\<close>: the rounds
  given do not reach the end of the call.
\<close>

record 'u io_round =
  r_calls :: "io_ret list"
  r_now :: u64
  r_timer :: timer_ptr
  r_errno :: int
  r_tls :: tls
  r_wake :: "'u hio"

fun do_io_rounds ::
  "epoll_ctl \<Rightarrow> fd \<Rightarrow> u32 \<Rightarrow> u64 \<Rightarrow> weak_ptr \<Rightarrow> 'u io_round list \<Rightarrow> tls \<Rightarrow> 'u hio \<Rightarrow> (io_ret \<times> tls \<times> 'u hio) option res" where
  "do_io_rounds ctl fd' event to ti [] l h = Inr None"
| "do_io_rounds ctl fd' event to ti (r # rs) l h =
     (case dropWhile (\<lambda>x. x = Err EINTR) (r_calls r) of
        [] \<Rightarrow> Inr None
      | x # _ \<Rightarrow>
          if x \<noteq> Err EAGAIN then Inr (Some (x, l, h))
          else
            bindE (do_io_block ctl fd' event to ti (r_now r) (r_timer r) l (h_iom h)) (\<lambda>(parked, l1, s1).
            if \<not> parked then Inr (Some (Err (r_errno r), l1, h\<lparr>h_iom := s1\<rparr>))
            else
              bindE (do_io_resume to ti (r_timer r) (r_wake r)) (\<lambda>(err, h2).
              case err of
                Some e \<Rightarrow> Inr (Some (Err e, r_tls r, h2))
              | None \<Rightarrow> do_io_rounds ctl fd' event to ti rs (r_tls r) h2)))"

text \<open>When the call returns, its \<^verbatim>\<open>shared_ptr\<close> to the \<^verbatim>\<open>timer_info\<close> goes away and the weak ones expire.\<close>

definition drop_tinfo :: "weak_ptr \<Rightarrow> 'u hio \<Rightarrow> 'u hio" where
  "drop_tinfo ti h = h\<lparr>h_tinfo := (h_tinfo h)(ti := None)\<rparr>"

text \<open>\<open>do_io\<close>: \<open>direct\<close> is the result of the single call made when the descriptor is not managed.\<close>

definition do_io ::
  "'k kernel \<Rightarrow> epoll_ctl \<Rightarrow> fd \<Rightarrow> u32 \<Rightarrow> int \<Rightarrow> io_ret \<Rightarrow> weak_ptr \<Rightarrow> 'u io_round list \<Rightarrow> fd_manager \<Rightarrow> 'k \<Rightarrow> tls \<Rightarrow> 'u hio \<Rightarrow>
   (io_ret \<times> tls \<times> 'u hio) option res" where
  "do_io K ctl fd' event timeout_so direct ti rounds m k l h =
     bindE (do_io_enter K fd' timeout_so l m k) (\<lambda>plan.
     case plan of
       Direct \<Rightarrow> Inr (Some (direct, l, h))
     | Closed \<Rightarrow> Inr (Some (Err EBADF, l, h))
     | Managed to \<Rightarrow>
         bindE (do_io_rounds ctl fd' event to ti rounds l (h\<lparr>h_tinfo := (h_tinfo h)(ti \<mapsto> 0)\<rparr>)) (\<lambda>r.
         Inr (map_option (\<lambda>(x, l1, h1). (x, l1, drop_tinfo ti h1)) r)))"

text \<open>The hooked calls that are instances of \<open>do_io\<close>: their event and timeout option.\<close>

datatype io_call = Io_read | Io_readv | Io_recv | Io_recvfrom | Io_recvmsg | Io_accept
  | Io_write | Io_writev | Io_send | Io_sendto | Io_sendmsg

fun call_event :: "io_call \<Rightarrow> u32 \<times> int" where
  "call_event Io_accept = (READ, SO_RCVTIMEO)"
| "call_event Io_read = (READ, SO_RCVTIMEO)"
| "call_event Io_readv = (READ, SO_RCVTIMEO)"
| "call_event Io_recv = (READ, SO_RCVTIMEO)"
| "call_event Io_recvfrom = (READ, SO_RCVTIMEO)"
| "call_event Io_recvmsg = (READ, SO_RCVTIMEO)"
| "call_event Io_write = (WRITE, SO_SNDTIMEO)"
| "call_event Io_writev = (WRITE, SO_SNDTIMEO)"
| "call_event Io_send = (WRITE, SO_SNDTIMEO)"
| "call_event Io_sendto = (WRITE, SO_SNDTIMEO)"
| "call_event Io_sendmsg = (WRITE, SO_SNDTIMEO)"

definition hooked_io ::
  "io_call \<Rightarrow> 'k kernel \<Rightarrow> epoll_ctl \<Rightarrow> fd \<Rightarrow> io_ret \<Rightarrow> weak_ptr \<Rightarrow> 'u io_round list \<Rightarrow> fd_manager \<Rightarrow> 'k \<Rightarrow> tls \<Rightarrow> 'u hio \<Rightarrow>
   (io_ret \<times> tls \<times> 'u hio) option res" where
  "hooked_io call K ctl fd' = do_io K ctl fd' (fst (call_event call)) (snd (call_event call))"

text \<open>\<open>accept\<close> enters the new descriptor into the table.\<close>

definition accept ::
  "'k kernel \<Rightarrow> epoll_ctl \<Rightarrow> fd \<Rightarrow> io_ret \<Rightarrow> weak_ptr \<Rightarrow> 'u io_round list \<Rightarrow> fd_manager \<Rightarrow> 'k \<Rightarrow> tls \<Rightarrow> 'u hio \<Rightarrow>
   (io_ret \<times> tls \<times> 'u hio \<times> fd_manager \<times> 'k) option res" where
  "accept K ctl s direct ti rounds m k l h =
     bindE (hooked_io Io_accept K ctl s direct ti rounds m k l h) (\<lambda>r.
     case r of
       None \<Rightarrow> Inr None
     | Some (x, l1, h1) \<Rightarrow>
         (case x of
            Ret fd' \<Rightarrow> if fd' \<ge> 0 then bindE (FdManager_get K fd' True m k) (\<lambda>(c, m1, k1). Inr (Some (x, l1, h1, m1, k1)))
                     else Inr (Some (x, l1, h1, m, k))
          | Err e \<Rightarrow> Inr (Some (x, l1, h1, m, k))))"

definition socket :: "'k kernel \<Rightarrow> fd \<Rightarrow> tls \<Rightarrow> fd_manager \<Rightarrow> 'k \<Rightarrow> (fd \<times> fd_manager \<times> 'k) res" where
  "socket K fd' l m k =
     (if \<not> t_hook_enable l then Inr (fd', m, k)
      else if fd' = - 1 then Inr (fd', m, k)
      else bindE (FdManager_get K fd' True m k) (\<lambda>(c, m1, k1). Inr (fd', m1, k1)))"

text \<open>
  \<open>connect_with_timeout\<close>: \<open>res\<close> is the result of \<^verbatim>\<open>connect_f\<close>; (\<open>wl\<close>, \<open>wake\<close>) the state in which the fiber runs
  again; \<open>so_error\<close> what \<^verbatim>\<open>getsockopt\<close> with \<^verbatim>\<open>SO_ERROR\<close> gives (\<open>Err\<close> when it fails).
\<close>

definition connect_finish :: "io_ret \<Rightarrow> io_ret" where
  "connect_finish so_error =
     (case so_error of Err e \<Rightarrow> Err e | Ret error \<Rightarrow> if error = 0 then Ret 0 else Err error)"

definition connect_with_timeout ::
  "'k kernel \<Rightarrow> epoll_ctl \<Rightarrow> fd \<Rightarrow> u64 \<Rightarrow> io_ret \<Rightarrow> weak_ptr \<Rightarrow> u64 \<Rightarrow> timer_ptr \<Rightarrow> tls \<Rightarrow> 'u hio \<Rightarrow> io_ret \<Rightarrow>
   fd_manager \<Rightarrow> 'k \<Rightarrow> tls \<Rightarrow> 'u hio \<Rightarrow> (io_ret \<times> tls \<times> 'u hio) res" where
  "connect_with_timeout K ctl fd' timeout_ms res ti now p wl wake so_error m k l h =
     (if \<not> t_hook_enable l then Inr (res, l, h)
      else
        bindE (FdManager_get K fd' False m k) (\<lambda>(ctx, m1, k1).
        case ctx of
          None \<Rightarrow> Inr (Err EBADF, l, h)
        | Some c \<Rightarrow>
            if m_isClosed c then Inr (Err EBADF, l, h)
            else if \<not> m_isSocket c then Inr (res, l, h)
            else if m_userNonblock c then Inr (res, l, h)
            else if res \<noteq> Err EINPROGRESS then Inr (res, l, h)
            else
              bindE (do_io_block ctl fd' WRITE timeout_ms ti now p l (h_iom h)) (\<lambda>(parked, l1, s1).
              if parked then
                bindE (do_io_resume timeout_ms ti p wake) (\<lambda>(err, h2).
                case err of
                  Some e \<Rightarrow> Inr (Err e, wl, drop_tinfo ti h2)
                | None \<Rightarrow> Inr (connect_finish so_error, wl, drop_tinfo ti h2))
              else Inr (connect_finish so_error, l1, drop_tinfo ti (h\<lparr>h_iom := s1\<rparr>)))))"

text \<open>\<open>connect\<close> uses the configured timeout \<^verbatim>\<open>s_connect_timeout\<close>.\<close>

definition connect ::
  "u64 \<Rightarrow> 'k kernel \<Rightarrow> epoll_ctl \<Rightarrow> fd \<Rightarrow> io_ret \<Rightarrow> weak_ptr \<Rightarrow> u64 \<Rightarrow> timer_ptr \<Rightarrow> tls \<Rightarrow> 'u hio \<Rightarrow> io_ret \<Rightarrow>
   fd_manager \<Rightarrow> 'k \<Rightarrow> tls \<Rightarrow> 'u hio \<Rightarrow> (io_ret \<times> tls \<times> 'u hio) res" where
  "connect s_connect_timeout K ctl sockfd = connect_with_timeout K ctl sockfd s_connect_timeout"

section \<open>Descriptors\<close>

definition close ::
  "'k kernel \<Rightarrow> epoll_ctl \<Rightarrow> (fd \<Rightarrow> int) \<Rightarrow> fd \<Rightarrow> fd_manager \<Rightarrow> 'k \<Rightarrow> tls \<Rightarrow> 'c iom \<Rightarrow> (int \<times> fd_manager \<times> 'c iom) res" where
  "close K ctl close_f fd' m k l s =
     (if \<not> t_hook_enable l then Inr (close_f fd', m, s)
      else
        bindE (FdManager_get K fd' False m k) (\<lambda>(ctx, m1, k1).
        case ctx of
          None \<Rightarrow> Inr (close_f fd', m, s)
        | Some c \<Rightarrow>
            bindE (if IOManager_GetThis l s \<noteq> None then bindE (cancelAll ctl fd' s) (\<lambda>(b, s1). Inr s1) else Inr s) (\<lambda>s1.
            bindE (FdManager_del fd' m) (\<lambda>m2. Inr (close_f fd', m2, s1)))))"

text \<open>\<open>fcntl\<close>: every command but the two that concern the status flags goes to the original function.\<close>

datatype fcntl_cmd = F_SETFL u32 | F_GETFL | F_other int

definition fcntl ::
  "'k kernel \<Rightarrow> (fd \<Rightarrow> int \<Rightarrow> 'k \<Rightarrow> int \<times> 'k) \<Rightarrow> fd \<Rightarrow> fcntl_cmd \<Rightarrow> fd_manager \<Rightarrow> 'k \<Rightarrow> (u32 \<times> fd_manager \<times> 'k) res" where
  "fcntl K other fd' cmd m k =
     (case cmd of
        F_SETFL arg \<Rightarrow>
          bindE (FdManager_get K fd' False m k) (\<lambda>(ctx, m1, k1).
          case ctx of
            None \<Rightarrow> (let (rt, k2) = k_setfl K fd' arg k in Inr (word_of_int rt, m, k2))
          | Some c \<Rightarrow>
              if m_isClosed c \<or> \<not> m_isSocket c
              then (let (rt, k2) = k_setfl K fd' arg k in Inr (word_of_int rt, m, k2))
              else
                let c1 = c\<lparr>m_userNonblock := (arg AND O_NONBLOCK \<noteq> 0)\<rparr>;
                    arg1 = (if m_sysNonblock c1 then arg OR O_NONBLOCK else arg AND NOT O_NONBLOCK);
                    (rt, k2) = k_setfl K fd' arg1 k
                in bindE (data_put fd' (Some c1) m) (\<lambda>m2. Inr (word_of_int rt, m2, k2)))
      | F_GETFL \<Rightarrow>
          (let arg = k_getfl K fd' k
           in bindE (FdManager_get K fd' False m k) (\<lambda>(ctx, m1, k1).
              case ctx of
                None \<Rightarrow> Inr (arg, m, k)
              | Some c \<Rightarrow>
                  if m_isClosed c \<or> \<not> m_isSocket c then Inr (arg, m, k)
                  else Inr (if m_userNonblock c then arg OR O_NONBLOCK else arg AND NOT O_NONBLOCK, m, k)))
      | F_other c \<Rightarrow> (let (rt, k2) = other fd' c k in Inr (word_of_int rt, m, k2)))"

definition ioctl ::
  "'k kernel \<Rightarrow> (fd \<Rightarrow> bool \<Rightarrow> int \<Rightarrow> 'k \<Rightarrow> int \<times> 'k) \<Rightarrow> fd \<Rightarrow> bool \<Rightarrow> int \<Rightarrow> fd_manager \<Rightarrow> 'k \<Rightarrow> (int \<times> fd_manager \<times> 'k) res" where
  "ioctl K ioctl_f d is_FIONBIO arg m k =
     (if is_FIONBIO then
        bindE (FdManager_get K d False m k) (\<lambda>(ctx, m1, k1).
        case ctx of
          None \<Rightarrow> (let (rt, k2) = ioctl_f d is_FIONBIO arg k in Inr (rt, m, k2))
        | Some c \<Rightarrow>
            if m_isClosed c \<or> \<not> m_isSocket c then (let (rt, k2) = ioctl_f d is_FIONBIO arg k in Inr (rt, m, k2))
            else
              bindE (data_put d (Some (c\<lparr>m_userNonblock := (arg \<noteq> 0)\<rparr>)) m) (\<lambda>m2.
              let (rt, k2) = ioctl_f d is_FIONBIO arg k in Inr (rt, m2, k2)))
      else (let (rt, k2) = ioctl_f d is_FIONBIO arg k in Inr (rt, m, k2)))"

text \<open>\<open>getsockopt\<close> goes to the original function, hooks or not.\<close>

definition getsockopt :: "(fd \<Rightarrow> int \<Rightarrow> int \<Rightarrow> io_ret) \<Rightarrow> fd \<Rightarrow> int \<Rightarrow> int \<Rightarrow> io_ret" where
  "getsockopt getsockopt_f sockfd level optname = getsockopt_f sockfd level optname"

text \<open>
  \<open>setsockopt\<close>: \<open>rt\<close> is the result of the original function, to which every call goes. The value of the two
  timeout options is a \<^verbatim>\<open>timeval\<close> (\<open>tv_sec\<close>, \<open>tv_usec\<close>), of signed 64-bit fields.
\<close>

definition SOL_SOCKET :: int where "SOL_SOCKET = 1"

definition timeval_ms :: "int \<Rightarrow> int \<Rightarrow> u64" where
  "timeval_ms tv_sec tv_usec = word_of_int (tv_sec * 1000 + tv_usec sdiv 1000)"

definition setsockopt ::
  "'k kernel \<Rightarrow> fd \<Rightarrow> int \<Rightarrow> int \<Rightarrow> int \<Rightarrow> int \<Rightarrow> int \<Rightarrow> fd_manager \<Rightarrow> 'k \<Rightarrow> tls \<Rightarrow> (int \<times> fd_manager) res" where
  "setsockopt K sockfd level optname tv_sec tv_usec rt m k l =
     (if \<not> t_hook_enable l then Inr (rt, m)
      else if level = SOL_SOCKET \<and> (optname = SO_RCVTIMEO \<or> optname = SO_SNDTIMEO) then
        bindE (FdManager_get K sockfd False m k) (\<lambda>(ctx, m1, k1).
        case ctx of
          None \<Rightarrow> Inr (rt, m)
        | Some c \<Rightarrow> bindE (data_put sockfd (Some (setTimeout optname (timeval_ms tv_sec tv_usec) c)) m) (\<lambda>m2.
                   Inr (rt, m2)))
      else Inr (rt, m))"

section \<open>Lemmas\<close>

lemma fold_symbols:
  "is_inited (fold (\<lambda>name s. s\<lparr>name_f := (name_f s)(name := dlsym name)\<rparr>) names s) = is_inited s"
  "name_f (fold (\<lambda>name s. s\<lparr>name_f := (name_f s)(name := dlsym name)\<rparr>) names s) = (\<lambda>x. if x \<in> set names then dlsym x else name_f s x)"
  by (induction names arbitrary: s) (auto simp: fun_eq_iff)

text \<open>
  After \<^verbatim>\<open>hook_init\<close> each of the 21 pointers is what \<^verbatim>\<open>dlsym\<close> found; as the flag stays false, a later call resolves every symbol again.
\<close>

lemma hook_init_resolves:
  assumes "\<not> is_inited s"
  shows "\<forall>name \<in> set HOOK_FUN. name_f (hook_init dlsym s) name = dlsym name" and "\<not> is_inited (hook_init dlsym s)"
    and "\<forall>name \<in> set HOOK_FUN. name_f (hook_init dlsym' (hook_init dlsym s)) name = dlsym' name"
  using assms by (simp_all add: hook_init_def fold_symbols)

lemma IOManager_addTimer_frame:
  "mem (IOManager_addTimer ms cb rec now p s) = mem s"
  "m_fibers (IOManager_addTimer ms cb rec now p s) = m_fibers s"
  "self_ptr (IOManager_addTimer ms cb rec now p s) = self_ptr s"
  "ctx_heap (IOManager_addTimer ms cb rec now p s) = ctx_heap s"
  "next_ctx (IOManager_addTimer ms cb rec now p s) = next_ctx s"
  "m_fdContexts (IOManager_addTimer ms cb rec now p s) = m_fdContexts s"
  "m_pendingEventCount (IOManager_addTimer ms cb rec now p s) = m_pendingEventCount s"
  "timers (IOManager_addTimer ms cb rec now p s) = snd (addTimer ms cb rec now p (timers s))"
  by (simp_all add: IOManager_addTimer_def onTimerInsertedAtFront_def IOManager_tickle_def Let_def split: prod.split)

lemma armed_addTimer:
  "armed (snd (addTimer ms cb rec now p tm)) = (armed tm)(p \<mapsto> new_Timer ms cb rec now)"
  by (auto simp: addTimer_def addTimer_locked_def set_timer_def Let_def armed_def cmp.set_std_insert fun_eq_iff)

lemma IOManager_addTimer_truncate: "sched.truncate (IOManager_addTimer ms cb rec now p s) = sched.truncate s"
  by (simp add: IOManager_addTimer_def onTimerInsertedAtFront_def IOManager_tickle_def sched.truncate_def Let_def split: prod.split)

text \<open>The fiber \<open>f\<close> runs on a thread of the I/O manager whose scheduling fiber is \<open>m\<close>.\<close>

definition running_on :: "tls \<Rightarrow> 'c iom \<Rightarrow> fiber_ptr \<Rightarrow> fiber_ptr \<Rightarrow> bool" where
  "running_on l s f m \<longleftrightarrow> t_hook_enable l \<and> t_scheduler l = Some (self_ptr s) \<and> t_fiber l = Some f \<and>
     state_of (mem s) f = EXEC \<and> t_scheduler_fiber l = Some m \<and> m \<noteq> f \<and> m_ctx (fibers (mem s) m) \<noteq> AtEnd"

lemma YieldToHold_running:
  assumes "running_on l s f m"
  shows "YieldToHold l (mem s) = Inr (l\<lparr>t_fiber := Some m, t_cpu := Some m\<rparr>, set_fiber f (\<lambda>f. f\<lparr>m_ctx := Saved\<rparr>) (mem s))"
  using assms by (simp add: running_on_def YieldToHold_def GetThis_def swapOut_def swapcontext_def SetThis_def)

text \<open>A fiber parked by a timer: what the three sleeping functions leave behind.\<close>

definition parked_for ::
  "u64 \<Rightarrow> u64 \<Rightarrow> timer_ptr \<Rightarrow> fiber_ptr \<Rightarrow> fiber_ptr \<Rightarrow> 'u hook_cb iom \<Rightarrow> (int \<times> tls \<times> 'u hook_cb iom) res \<Rightarrow> bool" where
  "parked_for ms now p f m s r \<longleftrightarrow>
     (\<exists>l' s'. r = Inr (0, l', s') \<and> t_cpu l' = Some m \<and> m_ctx (fibers (mem s') f) = Saved \<and> m_fibers s' = m_fibers s \<and>
        armed (timers s') = (armed (timers s))(p \<mapsto> new_Timer ms (Some (Callback (ScheduleFiber f))) False now))"

lemma park_for_eq:
  assumes "running_on l s f m" and "s2 = IOManager_addTimer ms (Some (Callback (ScheduleFiber f))) False now p s"
  shows "park_for ms now p l s = Inr (0, l\<lparr>t_fiber := Some m, t_cpu := Some m\<rparr>,
      s2\<lparr>mem := set_fiber f (\<lambda>f. f\<lparr>m_ctx := Saved\<rparr>) (mem s)\<rparr>)"
proof -
  have "running_on l s2 f m" "mem s2 = mem s" using assms by (simp_all add: running_on_def IOManager_addTimer_frame)
  then show ?thesis
    using assms YieldToHold_running [of l s2 f m]
    by (simp add: park_for_def running_on_def GetThis_def IOManager_GetThis_def Let_def)
qed

lemma park_for_parks:
  assumes "running_on l s f m"
  shows "parked_for ms now p f m s (park_for ms now p l s)"
  using park_for_eq [OF assms refl, of ms now p] by (simp add: parked_for_def IOManager_addTimer_frame armed_addTimer)

lemma nanosleep_ms_eq:
  assumes "0 \<le> tv_sec" and "0 \<le> tv_nsec" and "tv_sec * 1000 + tv_nsec div 1000000 < 2 ^ 31"
  shows "nanosleep_ms tv_sec tv_nsec = word_of_int (tv_sec * 1000 + tv_nsec div 1000000)"
proof -
  let ?t = "tv_sec * 1000 + tv_nsec div 1000000"
  have pos: "0 \<le> tv_nsec div 1000" using assms(2) by simp
  have "tv_nsec sdiv 1000 sdiv 1000 = tv_nsec div 1000 div 1000"
    using assms(2) pos by (simp add: signed_divide_int_def sgn_if)
  also have "\<dots> = tv_nsec div 1000000" by (simp add: zdiv_zmult2_eq [symmetric])
  finally have "nanosleep_ms tv_sec tv_nsec = scast (word_of_int ?t :: u32)" by (simp add: nanosleep_ms_def)
  also have small: "sint (word_of_int x :: u32) = x" if "0 \<le> x" "x < 2 ^ 31" for x
    using that by (simp add: signed_of_int signed_take_bit_int_eq_self)
  have "sint (word_of_int ?t :: u32) = ?t" by (rule small) (use assms in simp_all)
  then have "scast (word_of_int ?t :: u32) = (word_of_int ?t :: u64)" by (metis of_int_sint)
  finally show ?thesis .
qed

section \<open>Properties of the hooks\<close>

text \<open>
  Sleeping: a hooked \<open>sleep\<close>, \<open>usleep\<close> or \<open>nanosleep\<close> on a fiber of the I/O manager returns 0
  after parking only that fiber: it arms one timer whose callback puts the fiber back into the queue, and
  switches to the scheduling fiber. \<open>sleep\<close> waits \<open>seconds * 1000\<close> milliseconds modulo \<open>2\<^sup>32\<close> (the product is
  computed in 32 bits), \<open>usleep\<close> the whole milliseconds of its argument, \<open>nanosleep\<close> those of its argument
  while they fit an \<^verbatim>\<open>int\<close>.
\<close>

theorem sleep_parks_fiber:
  assumes "running_on l s f m"
  shows "parked_for (word_of_nat (unat seconds * 1000 mod 2 ^ 32)) now p f m s (sleep sleep_f seconds now p l s) \<and>
    parked_for (word_of_nat (unat usec div 1000)) now p f m s (usleep usleep_f usec now p l s) \<and>
    (0 \<le> tv_sec \<and> 0 \<le> tv_nsec \<and> tv_sec * 1000 + tv_nsec div 1000000 < 2 ^ 31 \<longrightarrow>
      parked_for (word_of_int (tv_sec * 1000 + tv_nsec div 1000000)) now p f m s (nanosleep nanosleep_f tv_sec tv_nsec now p l s)) \<and>
    (\<forall>h. h_iom h = s \<longrightarrow> (\<exists>h'. run_hook_cb ctl user (ScheduleFiber f) h = Inr h' \<and>
       m_fibers (h_iom h') = m_fibers s @ [FT_fiber (Some f) (- 1)]))"
proof (intro conjI impI)
  have on: "t_hook_enable l" using assms by (simp add: running_on_def)
  have "unat (seconds * 1000) = unat seconds * 1000 mod 2 ^ 32" by (simp add: unat_word_ariths)
  then have "ucast (seconds * 1000) = (word_of_nat (unat seconds * 1000 mod 2 ^ 32) :: u64)"
    by (metis of_nat_unat)
  then show "parked_for (word_of_nat (unat seconds * 1000 mod 2 ^ 32)) now p f m s (sleep sleep_f seconds now p l s)"
    using park_for_parks [OF assms] on by (simp add: sleep_def)
  have "unat (usec div 1000) = unat usec div 1000" by (simp add: unat_div)
  then have "ucast (usec div 1000) = (word_of_nat (unat usec div 1000) :: u64)" by (metis of_nat_unat)
  then show "parked_for (word_of_nat (unat usec div 1000)) now p f m s (usleep usleep_f usec now p l s)"
    using park_for_parks [OF assms] on by (simp add: usleep_def)
  assume t: "0 \<le> tv_sec \<and> 0 \<le> tv_nsec \<and> tv_sec * 1000 + tv_nsec div 1000000 < 2 ^ 31"
  then have "nanosleep_ms tv_sec tv_nsec = word_of_int (tv_sec * 1000 + tv_nsec div 1000000)"
    by (intro nanosleep_ms_eq) auto
  then show "parked_for (word_of_int (tv_sec * 1000 + tv_nsec div 1000000)) now p f m s (nanosleep nanosleep_f tv_sec tv_nsec now p l s)"
    using park_for_parks [OF assms] on by (simp add: nanosleep_def)
next
  show "\<forall>h. h_iom h = s \<longrightarrow> (\<exists>h'. run_hook_cb ctl user (ScheduleFiber f) h = Inr h' \<and>
       m_fibers (h_iom h') = m_fibers s @ [FT_fiber (Some f) (- 1)])"
    by (simp add: io.schedule_fields FT_fiber_ok)
qed

text \<open>A fiber with a timer of its own on a thread of an I/O manager.\<close>

definition demo_io :: "nat hook_cb iom" where
  "demo_io = \<lparr>mem = \<lparr>fibers = (\<lambda>p. \<lparr>m_id = 0, m_stacksize = 0, m_state = (if p = 2 then HOLD else EXEC), m_ctx = Captured, m_stack = False, m_fiber_cb = None\<rparr>),
       next_fiber = 3, s_fiber_id = 1, s_fiber_count = 3\<rparr>,
     m_threads = [], m_fibers = [], m_rootFiber = None, m_name = ''io'', m_threadIds = [], m_threadCount = 1,
     m_activeThreadCount = 1, m_idleThreadCount = 0, m_stopping = False, m_autoStop = False, m_rootThread = - 1,
     timers = new_TimerManager 100, m_epfd = 3, m_tickleFds = (4, 5), tickle_pipe = 0, m_pendingEventCount = 0,
     ctx_heap = (\<lambda>p. new_FdContext (int p)), next_ctx = 2, m_fdContexts = [Some 0, Some 1], self_ptr = 9, foreign = []\<rparr>"

definition demo_io_tls :: tls where
  "demo_io_tls = \<lparr>t_fiber = Some 1, t_threadFiber = Some 0, t_scheduler_fiber = Some 0, t_cpu = Some 1,
     t_scheduler = Some 9, t_hook_enable = True\<rparr>"

lemma demo_running: "running_on demo_io_tls demo_io 1 0"
  by (simp add: running_on_def demo_io_tls_def demo_io_def)

theorem sleep_parks_fiber_witness:
  "parked_for 2000 500 7 1 0 demo_io (sleep (\<lambda>_. 0) 2 500 7 demo_io_tls demo_io) \<and>
   parked_for 704 500 7 1 0 demo_io (sleep (\<lambda>_. 0) 4294968 500 7 demo_io_tls demo_io) \<and>
   parked_for 1500 500 7 1 0 demo_io (nanosleep (\<lambda>_ _. 0) 1 500000000 500 7 demo_io_tls demo_io)"
proof -
  have "unat (2 :: u32) * 1000 mod 2 ^ 32 = 2000" "unat (4294968 :: u32) * 1000 mod 2 ^ 32 = 704" by simp_all
  then show ?thesis
    using sleep_parks_fiber [OF demo_running, of 2 500 7 "\<lambda>_. 0" 0 "\<lambda>_. 0" 1 500000000 "\<lambda>_ _. 0" "\<lambda>_ _ _ _. 0" "\<lambda>_. Inr"]
      sleep_parks_fiber [OF demo_running, of 4294968 500 7 "\<lambda>_. 0" 0 "\<lambda>_. 0" 1 500000000 "\<lambda>_ _. 0" "\<lambda>_ _ _ _. 0" "\<lambda>_. Inr"]
    by simp
qed

lemma bit_O_NONBLOCK: "bit O_NONBLOCK n \<longleftrightarrow> n = 11"
proof -
  have "O_NONBLOCK = 2 ^ 11" by (simp add: O_NONBLOCK_def)
  then have "bit O_NONBLOCK n = bit (2 ^ 11 :: u32) n" by (rule arg_cong)
  also have "\<dots> \<longleftrightarrow> n = 11" by (subst bit_exp_iff) auto
  finally show ?thesis .
qed

lemma and_O_NONBLOCK: "arg AND O_NONBLOCK = 0 \<longleftrightarrow> \<not> bit arg 11"
proof
  assume "arg AND O_NONBLOCK = 0"
  then have "\<not> bit (arg AND O_NONBLOCK) 11" by simp
  then show "\<not> bit arg 11" by (simp add: bit_and_iff bit_O_NONBLOCK)
next
  assume "\<not> bit arg 11"
  then show "arg AND O_NONBLOCK = 0"
    by (intro bit_word_eqI) (auto simp: bit_and_iff bit_O_NONBLOCK)
qed

lemma nonblock_bits:
  "arg AND O_NONBLOCK \<noteq> 0 \<Longrightarrow> arg OR O_NONBLOCK = arg"
  "arg AND O_NONBLOCK = 0 \<Longrightarrow> (arg OR O_NONBLOCK) AND NOT O_NONBLOCK = arg"
  "(arg OR O_NONBLOCK) AND O_NONBLOCK = O_NONBLOCK"
  by (auto intro!: bit_word_eqI simp: bit_and_iff bit_or_iff bit_not_iff bit_O_NONBLOCK and_O_NONBLOCK)


definition demo_ctx :: "fd_ctx" where
  "demo_ctx = \<lparr>m_isInit = True, m_isSocket = True, m_sysNonblock = True, m_userNonblock = False, m_isClosed = False,
     m_fd = 1, m_recvTimeout = - 1, m_sendTimeout = 250\<rparr>"

definition demo_fdm :: fd_manager where
  "demo_fdm = \<lparr>m_datas = (replicate 64 None)[1 := Some demo_ctx]\<rparr>"

lemma demo_fdm_map: "fd_map demo_fdm 1 = Some demo_ctx"
  by (simp add: fd_map_def demo_fdm_def)


text \<open>
  Socket timeouts reach the hooked calls: after \<open>setsockopt\<close> with \<^verbatim>\<open>SO_RCVTIMEO\<close> or \<^verbatim>\<open>SO_SNDTIMEO\<close> on
  a socket of the table, a hooked call of that direction waits at most the given time in
  milliseconds, the other direction keeps its timeout. In particular a zero \<^verbatim>\<open>timeval\<close>, which for
  the system call means no timeout at all, becomes a timeout of zero milliseconds.
\<close>

theorem setsockopt_sets_timeout:
  assumes "fd_map m fd' = Some c" and "0 \<le> fd'" and "m_isSocket c" and "\<not> m_isClosed c" and "\<not> m_userNonblock c"
    and "t_hook_enable l" and "opt = SO_RCVTIMEO \<or> opt = SO_SNDTIMEO" and "opt' = SO_RCVTIMEO \<or> opt' = SO_SNDTIMEO"
  shows "\<exists>m'. setsockopt K fd' SOL_SOCKET opt tv_sec tv_usec rt m k l = Inr (rt, m') \<and>
    do_io_enter K fd' opt' l m' k =
      Inr (Managed (if opt' = opt then timeval_ms tv_sec tv_usec else getTimeout opt' c)) \<and>
    (tv_sec = 0 \<and> tv_usec = 0 \<longrightarrow> do_io_enter K fd' opt l m' k = Inr (Managed 0))"
proof -
  let ?c = "setTimeout opt (timeval_ms tv_sec tv_usec) c"
  have "fd_valid m fd'" using assms(1) by (auto simp: fd_map_def fd_valid_def split: if_splits)
  then obtain m' where m': "data_put fd' (Some ?c) m = Inr m'" "fd_map m' = (fd_map m)(fd' \<mapsto> ?c)"
    using tbl.put_valid [of m fd' "Some ?c"] by auto
  have set: "setsockopt K fd' SOL_SOCKET opt tv_sec tv_usec rt m k l = Inr (rt, m')"
    using assms m'(1) by (auto simp: setsockopt_def FdManager_get_eq)
  have c: "m_isSocket ?c" "\<not> m_isClosed ?c" "\<not> m_userNonblock ?c" using assms(3-5) by (simp_all add: setTimeout_def)
  have enter: "do_io_enter K fd' o' l m' k = Inr (Managed (getTimeout o' ?c))" for o'
    using assms(2,6) m'(2) c by (simp add: do_io_enter_def FdManager_get_eq)
  have "getTimeout opt' ?c = (if opt' = opt then timeval_ms tv_sec tv_usec else getTimeout opt' c)"
    "getTimeout opt (setTimeout opt v c) = v" for v
    using assms(7,8) by (auto simp: getTimeout_def setTimeout_def SO_RCVTIMEO_def SO_SNDTIMEO_def)
  with set enter show ?thesis by (intro exI [of _ m']) (simp add: timeval_ms_def)
qed

theorem setsockopt_sets_timeout_witness:
  "\<exists>m'. setsockopt demo_kernel 1 SOL_SOCKET SO_RCVTIMEO 3 500000 0 demo_fdm (\<lambda>_. 0) demo_io_tls = Inr (0, m') \<and>
     do_io_enter demo_kernel 1 SO_RCVTIMEO demo_io_tls m' (\<lambda>_. 0) = Inr (Managed 3500)"
  using setsockopt_sets_timeout [OF demo_fdm_map, of demo_io_tls SO_RCVTIMEO SO_RCVTIMEO demo_kernel 3 500000 0 "\<lambda>_. 0"]
  by (auto simp: demo_ctx_def demo_io_tls_def timeval_ms_def signed_divide_int_def)

inductive fdm_step :: "'k kernel \<Rightarrow> fd_manager \<Rightarrow> fd_manager \<Rightarrow> bool" for K :: "'k kernel" where
  m_get: "FdManager_get K fd' auto_create m k = Inr (c, m', k') \<Longrightarrow> fdm_step K m m'"
| m_del: "FdManager_del fd' m = Inr m' \<Longrightarrow> fdm_step K m m'"
| m_put: "data_put fd' c m = Inr m' \<Longrightarrow> fdm_step K m m'"

lemma data_put_length: "data_put fd' c m = Inr m' \<Longrightarrow> length (m_datas m') = length (m_datas m)"
  by (auto simp: data_put_def split: if_splits)

interpretation fdm: inductive_invariant "\<lambda>m. m = FdManager" "fdm_step K" "\<lambda>m. length (m_datas m) = 64" for K :: "'k kernel"
proof unfold_locales
  show "m = FdManager \<Longrightarrow> length (m_datas m) = 64" for m by (simp add: FdManager_def)
  show "length (m_datas m) = 64 \<Longrightarrow> fdm_step K m m' \<Longrightarrow> length (m_datas m') = 64" for m m'
    by (erule fdm_step.cases)
       (auto simp: FdManager_get_def FdManager_del_def bindE_eq_Inr data_put_length Let_def
         split: if_splits option.splits prod.splits)
qed

text \<open>
  The descriptor table never grows: in every table that the hooks can reach, a hooked \<open>socket\<close>
  whose new descriptor is 64 or higher writes past the end of the vector, and every hooked
  read, write or close of a negative descriptor reads before its start.
\<close>

theorem table_out_of_bounds:
  assumes "reachable (\<lambda>m. m = FdManager) (fdm_step K) m" and "t_hook_enable l"
  shows "(64 \<le> fd' \<longrightarrow> socket K fd' l m k = Inl (OutOfRange ''m_datas[fd]'')) \<and>
    (0 \<le> fd' \<and> fd' < 64 \<longrightarrow> (\<exists>m' k'. socket K fd' l m k = Inr (fd', m', k') \<and> fd_map m' fd' \<noteq> None)) \<and>
    (fd' < 0 \<longrightarrow> hooked_io call K ctl fd' direct ti rounds m k l h = Inl (OutOfRange ''m_datas[fd]'') \<and>
       close K ctl close_f fd' m k l s = Inl (OutOfRange ''m_datas[fd]''))"
proof (intro conjI impI)
  have len: "length (m_datas m) = 64" using fdm.reachable_inv [OF assms(1)] .
  show "socket K fd' l m k = Inl (OutOfRange ''m_datas[fd]'')" if "64 \<le> fd'"
  proof -
    have "fd_map m fd' = None" using that len by (simp add: fd_map_def nat_less_iff)
    then show ?thesis using that assms(2) len by (simp add: socket_def FdManager_get_eq data_put_def nat_less_iff)
  qed
  show "\<exists>m' k'. socket K fd' l m k = Inr (fd', m', k') \<and> fd_map m' fd' \<noteq> None" if "0 \<le> fd' \<and> fd' < 64"
  proof -
    have v: "fd_valid m fd'" using that len by (simp add: fd_valid_def nat_less_iff)
    then show ?thesis
      using that assms(2) tbl.put_valid [OF v, of "Some (fst (new_FdCtx K fd' k))"]
      by (cases "fd_map m fd'") (auto simp: socket_def FdManager_get_eq)
  qed
  assume neg: "fd' < 0"
  then have "FdManager_get K fd' False m k = Inl (OutOfRange ''m_datas[fd]'')"
    by (simp add: FdManager_get_def data_at_def)
  then show "hooked_io call K ctl fd' direct ti rounds m k l h = Inl (OutOfRange ''m_datas[fd]'')"
    "close K ctl close_f fd' m k l s = Inl (OutOfRange ''m_datas[fd]'')"
    using assms(2) by (simp_all add: hooked_io_def do_io_def do_io_enter_def close_def)
qed

theorem table_out_of_bounds_witness:
  "socket demo_kernel 64 demo_io_tls FdManager (\<lambda>_. 0) = Inl (OutOfRange ''m_datas[fd]'') \<and>
   close demo_kernel (\<lambda>_ _ _ _. 0) (\<lambda>_. - 1) (- 1) FdManager (\<lambda>_. 0) demo_io_tls demo_io = Inl (OutOfRange ''m_datas[fd]'')"
proof -
  have r: "reachable (\<lambda>m. m = FdManager) (fdm_step demo_kernel) FdManager" by (rule reachable_init) simp
  show ?thesis
    using table_out_of_bounds [OF r, of demo_io_tls 64 "\<lambda>_. 0" Io_read "\<lambda>_ _ _ _. 0" "Ret 0" 0 "[]" "\<lparr>h_iom = demo_io, h_tinfo = Map.empty\<rparr>" "\<lambda>_. - 1" demo_io]
      table_out_of_bounds [OF r, of demo_io_tls "- 1" "\<lambda>_. 0" Io_read "\<lambda>_ _ _ _. 0" "Ret 0" 0 "[]" "\<lparr>h_iom = demo_io, h_tinfo = Map.empty\<rparr>" "\<lambda>_. - 1" demo_io]
    by (simp add: demo_io_tls_def)
qed

definition first_effective :: "io_ret list \<Rightarrow> io_ret \<Rightarrow> bool" where
  "first_effective calls x \<longleftrightarrow> (\<exists>n rest. calls = replicate n (Err EINTR) @ x # rest) \<and> x \<noteq> Err EINTR"

lemma dropWhile_first_effective:
  assumes "dropWhile (\<lambda>x. x = Err EINTR) calls = x # rest"
  shows "first_effective calls x"
proof -
  have "takeWhile (\<lambda>x. x = Err EINTR) calls = replicate (length (takeWhile (\<lambda>x. x = Err EINTR) calls)) (Err EINTR)"
    by (intro replicate_eqI) (auto dest: set_takeWhileD)
  then have "calls = replicate (length (takeWhile (\<lambda>x. x = Err EINTR) calls)) (Err EINTR) @ x # rest"
    using assms takeWhile_dropWhile_id [of "\<lambda>x. x = Err EINTR" calls] by metis
  moreover have "x \<noteq> Err EINTR" using hd_dropWhile [of "\<lambda>x. x = Err EINTR" calls] assms by auto
  ultimately show ?thesis unfolding first_effective_def by blast
qed

lemma first_effective_dropWhile:
  assumes "first_effective calls x"
  shows "\<exists>rest. dropWhile (\<lambda>x. x = Err EINTR) calls = x # rest"
proof -
  obtain n rest where calls: "calls = replicate n (Err EINTR) @ x # rest" and ne: "x \<noteq> Err EINTR"
    using assms by (auto simp: first_effective_def)
  show ?thesis unfolding calls using ne by (induction n) simp_all
qed

lemma do_io_resume_err:
  assumes "do_io_resume to ti p h = Inr (Some a, h2)"
  shows "h_tinfo h ti = Some a \<and> a \<noteq> 0"
proof (cases "to = - 1")
  case True
  with assms show ?thesis by (cases "h_tinfo h ti") (auto simp: do_io_resume_def split: if_splits)
next
  case False
  with assms obtain b tm where "cancel p (timers (h_iom h)) = Inr (b, tm)"
    by (cases "cancel p (timers (h_iom h))") (auto simp: do_io_resume_def)
  with False assms show ?thesis by (cases "h_tinfo h ti") (auto simp: do_io_resume_def split: if_splits)
qed

lemma do_io_rounds_result:
  assumes "do_io_rounds ctl fd' event to ti rounds l h = Inr (Some (x, l', h'))"
  shows "\<exists>r \<in> set rounds. (first_effective (r_calls r) x \<and> x \<noteq> Err EAGAIN) \<or>
    first_effective (r_calls r) (Err EAGAIN) \<and>
      ((\<exists>e. h_tinfo (r_wake r) ti = Some e \<and> e \<noteq> 0 \<and> x = Err e) \<or> x = Err (r_errno r))"
  using assms
proof (induction rounds arbitrary: l h)
  case Nil
  then show ?case by simp
next
  case (Cons r rs)
  then obtain y ys where d: "dropWhile (\<lambda>x. x = Err EINTR) (r_calls r) = y # ys"
    by (cases "dropWhile (\<lambda>x. x = Err EINTR) (r_calls r)") auto
  note fe = dropWhile_first_effective [OF d]
  show ?case
  proof (cases "y = Err EAGAIN")
    case False
    with Cons.prems d fe show ?thesis by auto
  next
    case True
    with Cons.prems d obtain parked l1 s1 where b:
      "do_io_block ctl fd' event to ti (r_now r) (r_timer r) l (h_iom h) = Inr (parked, l1, s1)"
      by (auto simp: bindE_eq_Inr)
    show ?thesis
    proof (cases parked)
      case False
      with Cons.prems d True b fe show ?thesis by auto
    next
      case True
      with Cons.prems d \<open>y = Err EAGAIN\<close> b obtain err h2 where e:
        "do_io_resume to ti (r_timer r) (r_wake r) = Inr (err, h2)"
        by (auto simp: bindE_eq_Inr)
      show ?thesis
      proof (cases err)
        case None
        with Cons.prems d \<open>y = Err EAGAIN\<close> True b e
        have "do_io_rounds ctl fd' event to ti rs (r_tls r) h2 = Inr (Some (x, l', h'))" by simp
        from Cons.IH [OF this] show ?thesis by auto
      next
        case (Some a)
        with e have "h_tinfo (r_wake r) ti = Some a \<and> a \<noteq> 0" using do_io_resume_err by blast
        moreover have "x = Err a" using Cons.prems d \<open>y = Err EAGAIN\<close> True b e Some by simp
        ultimately show ?thesis using fe \<open>y = Err EAGAIN\<close> by (intro bexI [of _ r]) simp_all
      qed
    qed
  qed
qed

text \<open>
  What a hooked call returns: on a descriptor that is not managed, the result of the one
  original call; on a closed one \<^verbatim>\<open>EBADF\<close>; on a managed socket the first result of the original
  function other than \<^verbatim>\<open>EINTR\<close> and \<^verbatim>\<open>EAGAIN\<close>, or the error with which the wait was cancelled, or the error of a
  failed \<open>addEvent\<close>; never \<^verbatim>\<open>EINTR\<close> or \<^verbatim>\<open>EAGAIN\<close> from the original function.
\<close>

theorem do_io_result:
  assumes "do_io K ctl fd' event timeout_so direct ti rounds m k l h = Inr (Some (x, l', h'))"
    and "do_io_enter K fd' timeout_so l m k = Inr plan"
  shows "(plan = Direct \<longrightarrow> x = direct \<and> h' = h) \<and> (plan = Closed \<longrightarrow> x = Err EBADF \<and> h' = h) \<and>
    (\<forall>to. plan = Managed to \<longrightarrow>
      (\<exists>r \<in> set rounds. (first_effective (r_calls r) x \<and> x \<noteq> Err EAGAIN) \<or>
        first_effective (r_calls r) (Err EAGAIN) \<and>
          ((\<exists>e. h_tinfo (r_wake r) ti = Some e \<and> e \<noteq> 0 \<and> x = Err e) \<or> x = Err (r_errno r))))"
  using assms by (auto simp: do_io_def bindE_eq_Inr dest!: do_io_rounds_result)

theorem do_io_result_witness:
  "\<exists>l' h'. do_io demo_kernel (\<lambda>_ _ _ _. 0) 1 READ SO_RCVTIMEO (Ret 5) 0
      [\<lparr>r_calls = [Err EINTR, Ret 12], r_now = 0, r_timer = 0, r_errno = 0, r_tls = demo_io_tls,
        r_wake = \<lparr>h_iom = demo_io, h_tinfo = Map.empty\<rparr>\<rparr>] demo_fdm (\<lambda>_. 0) demo_io_tls \<lparr>h_iom = demo_io, h_tinfo = Map.empty\<rparr> =
      Inr (Some (Ret 12, l', h')) \<and> first_effective [Err EINTR, Ret 12] (Ret 12)"
proof -
  let ?h = "\<lparr>h_iom = demo_io, h_tinfo = Map.empty\<rparr>"
  let ?r = "\<lparr>r_calls = [Err EINTR, Ret 12], r_now = 0, r_timer = 0, r_errno = 0, r_tls = demo_io_tls, r_wake = ?h\<rparr>"
  have e: "do_io_enter demo_kernel 1 SO_RCVTIMEO demo_io_tls demo_fdm (\<lambda>_. 0) = Inr (Managed (- 1))"
    by (simp add: do_io_enter_def FdManager_get_eq demo_fdm_map demo_io_tls_def demo_ctx_def getTimeout_def)
  then have d: "do_io demo_kernel (\<lambda>_ _ _ _. 0) 1 READ SO_RCVTIMEO (Ret 5) 0 [?r] demo_fdm (\<lambda>_. 0) demo_io_tls ?h =
      Inr (Some (Ret 12, demo_io_tls, ?h))"
    by (simp add: do_io_def drop_tinfo_def)
  with do_io_result [OF d e] show ?thesis by (auto simp: first_effective_def)
qed

text \<open>
  What a fiber that parks in \<open>do_io\<close> leaves behind: its event registered for it, the timer of the wait,
  its context saved and the scheduling fiber of its thread current; nothing else changes.
\<close>

definition wait_timer :: "u64 \<Rightarrow> weak_ptr \<Rightarrow> fd \<Rightarrow> u32 \<Rightarrow> u64 \<Rightarrow> 'u hook_cb timer" where
  "wait_timer to ti fd' event now =
     new_Timer to (Some (BindOnTimer ti (Some (Callback (OnTimeout ti fd' event))))) False now"

lemma do_io_block_parks:
  assumes "running_on l s f m" and "iom_inv s"
    and "do_io_block ctl fd' event to ti now p l s = Inr (True, l1, s1)"
  shows "waits_for fd' event \<lparr>ec_scheduler = Some (self_ptr s), ec_fiber = Some f, ec_cb = None\<rparr> s1 \<and>
    sched.truncate s1 = sched.truncate (s\<lparr>mem := set_fiber f (\<lambda>f. f\<lparr>m_ctx := Saved\<rparr>) (mem s)\<rparr>) \<and>
    registered s1 = Suc (registered s) \<and> m_pendingEventCount s1 = m_pendingEventCount s + 1 \<and> self_ptr s1 = self_ptr s \<and>
    l1 = l\<lparr>t_fiber := Some m, t_cpu := Some m\<rparr> \<and>
    armed (timers s1) = (if to \<noteq> - 1 then (armed (timers s))(p \<mapsto> wait_timer to ti fd' event now) else armed (timers s)) \<and>
    (p \<notin> set (m_timers (timers s)) \<longrightarrow> tm_inv (timers s) \<longrightarrow> tm_inv (timers s1))"
proof -
  let ?s0 = "if to \<noteq> - 1 then IOManager_addConditionTimer to (Some (Callback (OnTimeout ti fd' event))) ti False now p s else s"
  obtain l2 s2 l3 m3 where add: "addEvent ctl fd' event None l ?s0 = Inr (0, l2, s2)"
    and y: "YieldToHold l2 (mem s2) = Inr (l3, m3)" "l1 = l3" "s1 = s2\<lparr>mem := m3\<rparr>"
    using assms(3) by (auto simp: do_io_block_def bindE_eq_Inr Let_def split: if_splits)
  note frame = IOManager_addTimer_frame [of to _ False now p s]
  have inv: "iom_inv ?s0"
    using assms(2) by (simp add: IOManager_addConditionTimer_def iom_inv_def registered_def frame)
  have tf: "t_fiber l = Some f" using assms(1) by (simp add: running_on_def)
  then have ok: "waits_for fd' event \<lparr>ec_scheduler = t_scheduler l, ec_fiber = Some f, ec_cb = None\<rparr> s2"
    "registered s2 = Suc (registered ?s0)" "m_pendingEventCount s2 = m_pendingEventCount ?s0 + 1" "self_ptr s2 = self_ptr ?s0" "l2 = l"
    "timers s2 = timers ?s0" "sched.truncate s2 = sched.truncate ?s0"
    using addEvent_ok [OF inv add, of f] by simp_all
  have s0: "self_ptr ?s0 = self_ptr s" "sched.truncate ?s0 = sched.truncate s" "registered ?s0 = registered s"
    "m_pendingEventCount ?s0 = m_pendingEventCount s"
    "armed (timers ?s0) = (if to \<noteq> - 1 then (armed (timers s))(p \<mapsto> wait_timer to ti fd' event now) else armed (timers s))"
    "p \<notin> set (m_timers (timers s)) \<longrightarrow> tm_inv (timers s) \<longrightarrow> tm_inv (timers ?s0)"
    by (simp_all add: IOManager_addConditionTimer_def frame armed_addTimer registered_def wait_timer_def tm_inv_addTimer [OF _ _ surjective_pairing]
        IOManager_addTimer_truncate)
  have "YieldToHold l (mem s) = Inr (l3, m3)" using y(1) ok(5,7) s0(2) by (metis truncate_eqD(1))
  then have l3: "l3 = l\<lparr>t_fiber := Some m, t_cpu := Some m\<rparr>" and m3: "m3 = set_fiber f (\<lambda>f. f\<lparr>m_ctx := Saved\<rparr>) (mem s)"
    using YieldToHold_running [OF assms(1)] by simp_all
  have "t_scheduler l = Some (self_ptr s)" using assms(1) by (simp add: running_on_def)
  moreover have "registered s1 = registered s2" by (simp add: y(3) registered_def)
  moreover have "sched.truncate s1 = (sched.truncate s)\<lparr>mem := m3\<rparr>"
    using ok(7) s0(2) by (simp add: y(3) sched.truncate_def)
  ultimately show ?thesis using ok s0 y(2,3) l3 m3 by (simp add: sched.truncate_def)
qed

text \<open>
  A hooked call times out: a fiber that has to wait parks with its event registered for it and one
  timer armed with the timeout. While the event is still registered and the call not cancelled, the callback of that timer marks the
  call with \<^verbatim>\<open>ETIMEDOUT\<close>, takes the event back, and puts the fiber at the end of the queue; in every state in
  which the fiber then runs again with that mark, the call fails with \<^verbatim>\<open>ETIMEDOUT\<close> without a further system call. Once the
  call is cancelled the callback does nothing.
\<close>

theorem do_io_times_out:
  assumes "running_on l (h_iom h) f m" and "iom_inv (h_iom h)" and "to \<noteq> - 1"
    and "do_io_block ctl fd' event to ti now p l (h_iom h) = Inr (True, l1, s1)"
    and "waits_for fd' event \<lparr>ec_scheduler = Some (self_ptr s), ec_fiber = Some f, ec_cb = None\<rparr> s"
    and "length (m_fdContexts s) < 2 ^ 31" and "\<And>op fd evs p. ctl' op fd evs p = 0"
    and "h_tinfo ht ti = Some 0" and "h_iom ht = s"
    and "cancel p (timers (h_iom wake)) = Inr (b, tm)" and "h_tinfo wake ti = Some ETIMEDOUT"
    and "first_effective calls (Err EAGAIN)"
  shows "waits_for fd' event \<lparr>ec_scheduler = Some (self_ptr (h_iom h)), ec_fiber = Some f, ec_cb = None\<rparr> s1 \<and>
    armed (timers s1) = (armed (timers (h_iom h)))(p \<mapsto>
      new_Timer to (Some (BindOnTimer ti (Some (Callback (OnTimeout ti fd' event))))) False now) \<and>
    (\<exists>h2. run_hook_cb ctl' user (OnTimeout ti fd' event) ht = Inr h2 \<and> h_tinfo h2 = (h_tinfo ht)(ti \<mapsto> ETIMEDOUT) \<and>
       m_fibers (h_iom h2) = m_fibers s @ [FT_fiber (Some f) (- 1)] \<and> Suc (registered (h_iom h2)) = registered s \<and>
       run_hook_cb ctl' user (OnTimeout ti fd' event) h2 = Inr h2) \<and>
    do_io_rounds ctl fd' event to ti
      (\<lparr>r_calls = calls, r_now = now, r_timer = p, r_errno = en, r_tls = wl, r_wake = wake\<rparr> # later) l h =
      Inr (Some (Err ETIMEDOUT, wl, wake\<lparr>h_iom := (h_iom wake)\<lparr>timers := tm\<rparr>\<rparr>))"
proof (intro conjI)
  show "waits_for fd' event \<lparr>ec_scheduler = Some (self_ptr (h_iom h)), ec_fiber = Some f, ec_cb = None\<rparr> s1"
    "armed (timers s1) = (armed (timers (h_iom h)))(p \<mapsto>
      new_Timer to (Some (BindOnTimer ti (Some (Callback (OnTimeout ti fd' event))))) False now)"
    using do_io_block_parks [OF assms(1,2,4)] assms(3) by (simp_all add: wait_timer_def)
  obtain s2 where s2: "cancelEvent ctl' fd' event s = Inr (True, s2)"
    "m_fibers s2 = m_fibers s @ [FT_fiber (Some f) (- 1)]" "Suc (registered s2) = registered s"
    using cancelEvent_waiting [OF assms(5) _ assms(6), of ctl'] assms(7)
    by (fastforce simp: task_of_ctx_def dest: deliveredD(1,6))
  have "ETIMEDOUT \<noteq> 0" by (simp add: ETIMEDOUT_def)
  then show "\<exists>h2. run_hook_cb ctl' user (OnTimeout ti fd' event) ht = Inr h2 \<and> h_tinfo h2 = (h_tinfo ht)(ti \<mapsto> ETIMEDOUT) \<and>
       m_fibers (h_iom h2) = m_fibers s @ [FT_fiber (Some f) (- 1)] \<and> Suc (registered (h_iom h2)) = registered s \<and>
       run_hook_cb ctl' user (OnTimeout ti fd' event) h2 = Inr h2"
    using s2 assms(8,9) by (simp add: run_OnTimeout_def)
  obtain rest where d: "dropWhile (\<lambda>x. x = Err EINTR) calls = Err EAGAIN # rest"
    using first_effective_dropWhile [OF assms(12)] by blast
  have "do_io_resume to ti p wake = Inr (Some ETIMEDOUT, wake\<lparr>h_iom := (h_iom wake)\<lparr>timers := tm\<rparr>\<rparr>)"
    using assms(3,10,11) \<open>ETIMEDOUT \<noteq> 0\<close> by (simp add: do_io_resume_def)
  with d assms(4) show "do_io_rounds ctl fd' event to ti
      (\<lparr>r_calls = calls, r_now = now, r_timer = p, r_errno = en, r_tls = wl, r_wake = wake\<rparr> # later) l h =
      Inr (Some (Err ETIMEDOUT, wl, wake\<lparr>h_iom := (h_iom wake)\<lparr>timers := tm\<rparr>\<rparr>))"
    by simp
qed

lemma demo_inv: "iom_inv demo_io"
  by (auto simp: iom_inv_def demo_io_def registered_def less_Suc_eq numeral_2_eq_2)

lemma demo_block:
  assumes "is_event event" and "to \<noteq> - 1"
  shows "\<exists>l1 s1. do_io_block (\<lambda>_ _ _ _. 0) 1 event to 0 500 7 demo_io_tls demo_io = Inr (True, l1, s1) \<and>
     m_fdContexts s1 = [Some 0, Some 1] \<and> self_ptr s1 = 9 \<and> m_fibers s1 = [] \<and>
     timers s1 = snd (addTimer to (Some (BindOnTimer 0 (Some (Callback (OnTimeout 0 1 event))))) False 500 7 (new_TimerManager 100))"
proof -
  let ?s0 = "IOManager_addConditionTimer to (Some (Callback (OnTimeout 0 1 event))) 0 False 500 7 demo_io"
  note frame = IOManager_addTimer_frame [of to _ False 500 7 demo_io]
  have s0: "m_fdContexts ?s0 = [Some 0, Some 1]" "ctx_heap ?s0 1 = new_FdContext 1" "mem ?s0 = mem demo_io"
    "self_ptr ?s0 = 9" "m_fibers ?s0 = []"
    "timers ?s0 = snd (addTimer to (Some (BindOnTimer 0 (Some (Callback (OnTimeout 0 1 event))))) False 500 7 (new_TimerManager 100))"
    by (simp_all add: IOManager_addConditionTimer_def frame) (simp_all add: demo_io_def)
  have "int_size ?s0 = 2" using int_size_eq [of ?s0] s0(1) by simp
  then have find: "addEvent_find 1 ?s0 = Inr (Some 1)"
    using s0(1) by (simp add: addEvent_find_def context_at_def)
  have "state_of (mem demo_io) 1 = EXEC" "t_fiber demo_io_tls = Some 1"
    by (simp_all add: demo_io_def demo_io_tls_def)
  then have "\<exists>s2. addEvent (\<lambda>_ _ _ _. 0) 1 event None demo_io_tls ?s0 = Inr (0, demo_io_tls, s2) \<and>
      mem s2 = mem demo_io \<and> m_fdContexts s2 = [Some 0, Some 1] \<and> self_ptr s2 = 9 \<and> m_fibers s2 = [] \<and> timers s2 = timers ?s0"
    using s0 find assms(1) by (auto simp: addEvent_def addEvent_locked_def GetThis_def Let_def new_FdContext_def empty_context_def)
  then obtain s2 where s2: "addEvent (\<lambda>_ _ _ _. 0) 1 event None demo_io_tls ?s0 = Inr (0, demo_io_tls, s2)"
      "mem s2 = mem demo_io" "m_fdContexts s2 = [Some 0, Some 1]" "self_ptr s2 = 9" "m_fibers s2 = []" "timers s2 = timers ?s0" by blast
  moreover have "IOManager_GetThis demo_io_tls demo_io = Some ()"
    by (simp add: IOManager_GetThis_def demo_io_tls_def demo_io_def)
  ultimately show ?thesis
    using YieldToHold_running [OF demo_running] s0(6) assms(2) by (simp add: do_io_block_def Let_def)
qed

theorem do_io_times_out_witness:
  "\<exists>(s1 :: nat hook_cb iom) h2. run_hook_cb (\<lambda>_ _ _ _. 0) (\<lambda>_. Inr) (OnTimeout 0 1 READ) \<lparr>h_iom = s1, h_tinfo = [0 \<mapsto> 0]\<rparr> = Inr h2 \<and>
     m_fibers (h_iom h2) = [FT_fiber (Some 1) (- 1)] \<and>
     do_io_rounds (\<lambda>_ _ _ _. 0) 1 READ 100 0
       [\<lparr>r_calls = [Err EINTR, Err EAGAIN], r_now = 500, r_timer = 7, r_errno = 0, r_tls = demo_io_tls,
         r_wake = \<lparr>h_iom = demo_io, h_tinfo = [0 \<mapsto> ETIMEDOUT]\<rparr>\<rparr>] demo_io_tls \<lparr>h_iom = demo_io, h_tinfo = [0 \<mapsto> 0]\<rparr> =
       Inr (Some (Err ETIMEDOUT, demo_io_tls, \<lparr>h_iom = demo_io, h_tinfo = [0 \<mapsto> ETIMEDOUT]\<rparr>))"
proof -
  obtain l1 s1 where b: "do_io_block (\<lambda>_ _ _ _. 0) 1 READ 100 0 500 7 demo_io_tls demo_io = Inr (True, l1, s1)"
    "length (m_fdContexts s1) = 2" "self_ptr s1 = 9" "m_fibers s1 = []"
    using demo_block [of READ 100] by auto
  have self: "self_ptr demo_io = 9" by (simp add: demo_io_def)
  have w: "waits_for 1 READ \<lparr>ec_scheduler = Some (self_ptr s1), ec_fiber = Some 1, ec_cb = None\<rparr> s1"
    using do_io_block_parks [OF demo_running demo_inv b(1)] b(3) self by simp
  have c: "cancel 7 (timers demo_io) = Inr (False, timers demo_io)"
    by (simp add: cancel_def demo_io_def new_TimerManager_def new_Timer_at_def)
  have fe: "first_effective [Err EINTR, Err EAGAIN] (Err EAGAIN)"
    unfolding first_effective_def by (intro conjI exI [of _ 1] exI [of _ "[]"]) (simp_all add: EINTR_def EAGAIN_def)
  let ?h = "\<lparr>h_iom = demo_io, h_tinfo = [0 \<mapsto> 0]\<rparr>" and ?wake = "\<lparr>h_iom = demo_io, h_tinfo = [0 \<mapsto> ETIMEDOUT]\<rparr>"
  have "running_on demo_io_tls (h_iom ?h) 1 0" "iom_inv (h_iom ?h)" "100 \<noteq> (- 1 :: u64)"
    "do_io_block (\<lambda>_ _ _ _. 0) 1 READ 100 0 500 7 demo_io_tls (h_iom ?h) = Inr (True, l1, s1)"
    "cancel 7 (timers (h_iom ?wake)) = Inr (False, timers demo_io)" "length (m_fdContexts s1) < 2 ^ 31"
    using demo_running demo_inv b(1,2) c by simp_all
  from do_io_times_out [OF this(1-4) w this(6) refl _ _ this(5) _ fe,
      where user = "\<lambda>_. Inr" and en = 0 and wl = demo_io_tls and later = "[]" and ht = "\<lparr>h_iom = s1, h_tinfo = [0 \<mapsto> 0]\<rparr>"]
  have t: "(\<exists>h2. run_hook_cb (\<lambda>_ _ _ _. 0) (\<lambda>_. Inr) (OnTimeout 0 1 READ) \<lparr>h_iom = s1, h_tinfo = [0 \<mapsto> 0]\<rparr> = Inr h2 \<and>
      h_tinfo h2 = [0 \<mapsto> ETIMEDOUT] \<and> m_fibers (h_iom h2) = m_fibers s1 @ [FT_fiber (Some 1) (- 1)] \<and>
      Suc (registered (h_iom h2)) = registered s1 \<and> run_hook_cb (\<lambda>_ _ _ _. 0) (\<lambda>_. Inr) (OnTimeout 0 1 READ) h2 = Inr h2)"
    "do_io_rounds (\<lambda>_ _ _ _. 0) 1 READ 100 0
       [\<lparr>r_calls = [Err EINTR, Err EAGAIN], r_now = 500, r_timer = 7, r_errno = 0, r_tls = demo_io_tls, r_wake = ?wake\<rparr>] demo_io_tls ?h =
       Inr (Some (Err ETIMEDOUT, demo_io_tls, ?wake))"
    by (simp_all del: do_io_rounds.simps run_hook_cb.simps)
  then show ?thesis unfolding b(4) append_Nil by blast
qed

end
