(* ===== verification/Hooked_IO.thy ===== *)
theory Hooked_IO
  imports Hook
begin

text \<open>
  The runtime put together: a fiber that makes a hooked call parks (\<^verbatim>\<open>hook.cpp\<close>), the worker under it goes
  through the loop of \<^verbatim>\<open>Scheduler::run\<close> into its idle fiber, \<^verbatim>\<open>IOManager::idle\<close> waits for the kernel and
  schedules the fiber (because its event was reported or its timer is due), and the worker switches back to it. The theorems follow one
  such turn through the definitions of all four components.
\<close>

section \<open>The loop of a worker\<close>

text \<open>The loop body of \<^verbatim>\<open>Scheduler::run\<close>, from the return of a \<open>swapIn\<close> to the next one.\<close>

definition run_turn ::
  "u32 \<Rightarrow> (('c, 'z) sched_scheme \<Rightarrow> ('c, 'z) sched_scheme) \<Rightarrow> 'c worker \<Rightarrow> ('c, 'z) sched_scheme \<Rightarrow>
   ('c worker \<times> ('c, 'z) sched_scheme) res" where
  "run_turn fiber_stack_size tickle w s =
     bindE (run_return tickle w s) (\<lambda>(w1, s1).
     bindE (run_pick w1 s1) (\<lambda>(w2, s2).
     run_dispatch fiber_stack_size tickle w2 s2))"

text \<open>The worker is inside the fiber \<open>f\<close>, taken from the queue or made for a callback.\<close>

definition runs :: "'c worker \<Rightarrow> fiber_ptr \<Rightarrow> bool" where
  "runs w f \<longleftrightarrow> w_pc w = InFiber \<and> ft_fiber (w_ft w) = Some f \<or> w_pc w = InCb \<and> w_cb_fiber w = Some f"

abbreviation save :: "fiber_ptr \<Rightarrow> 'c fiber_mem \<Rightarrow> 'c fiber_mem" where
  "save f \<equiv> set_fiber f (\<lambda>fb. fb\<lparr>m_ctx := Saved\<rparr>)"

text \<open>The fiber the worker keeps for callbacks when \<open>f\<close> has parked: a fiber that parks inside a callback is given up.\<close>

definition spare_cb :: "'c worker \<Rightarrow> fiber_ptr option" where
  "spare_cb w = (if w_pc w = InCb then None else w_cb_fiber w)"

lemma run_turn_to_idle:
  assumes "runs w f" and "state_of (mem s) f = EXEC" and "m_fibers s = []"
    and "t_scheduler_fiber (w_tls w) = Some m" and "resumable (mem s) (w_idle_fiber w)" and "w_idle_fiber w \<noteq> f"
  shows "run_turn dflt tickle w s =
    Inr (w\<lparr>w_ft := FT_reset, w_tickle_me := False, w_is_active := False, w_cb_fiber := spare_cb w,
           w_tls := (w_tls w)\<lparr>t_fiber := Some (w_idle_fiber w), t_cpu := Some (w_idle_fiber w)\<rparr>, w_pc := InIdle\<rparr>,
         s\<lparr>m_activeThreadCount := m_activeThreadCount s - 1, m_idleThreadCount := m_idleThreadCount s + 1,
           mem := save m (set_state (w_idle_fiber w) EXEC (set_state f HOLD (mem s)))\<rparr>)"
proof -
  let ?s1 = "s\<lparr>m_activeThreadCount := m_activeThreadCount s - 1, mem := set_state f HOLD (mem s)\<rparr>"
  have ret: "run_return tickle w s = Inr (w\<lparr>w_ft := FT_reset, w_cb_fiber := spare_cb w, w_pc := AtTop\<rparr>, ?s1) \<or>
      run_return tickle w s = Inr (w\<lparr>w_cb_fiber := spare_cb w, w_pc := AtTop\<rparr>, ?s1)"
    using assms(1,2) by (auto simp: run_return_def runs_def spare_cb_def)
  have res: "resumable (mem ?s1) (w_idle_fiber w)" using assms(5,6) by (simp add: resumable_def)
  note sw = swapIn_resumable [OF res, of _ m]
  have rest: "bindE (run_pick w1 ?s1) (\<lambda>(w2, s2). run_dispatch dflt tickle w2 s2) =
      Inr (w1\<lparr>w_ft := FT_reset, w_tickle_me := False, w_is_active := False,
           w_tls := (w_tls w1)\<lparr>t_fiber := Some (w_idle_fiber w), t_cpu := Some (w_idle_fiber w)\<rparr>, w_pc := InIdle\<rparr>,
         ?s1\<lparr>m_idleThreadCount := m_idleThreadCount s + 1,
           mem := save m (set_state (w_idle_fiber w) EXEC (set_state f HOLD (mem s)))\<rparr>)"
    if "w_idle_fiber w1 = w_idle_fiber w" "t_scheduler_fiber (w_tls w1) = Some m" for w1
    using assms(3) that res sw by (simp add: run_pick_def run_dispatch_def worker_swapIn_def resumable_def)
  from ret show ?thesis
    using rest [of "w\<lparr>w_ft := FT_reset, w_cb_fiber := spare_cb w, w_pc := AtTop\<rparr>"]
      rest [of "w\<lparr>w_cb_fiber := spare_cb w, w_pc := AtTop\<rparr>"] assms(4)
    by (auto simp: run_turn_def)
qed

lemma run_turn_to_fiber:
  assumes "w_pc w = InIdle" and "state_of (mem s) (w_idle_fiber w) = EXEC" and "m_fibers s = [FT_fiber (Some f) (- 1)]"
    and "t_scheduler_fiber (w_tls w) = Some m" and "resumable (mem s) f" and "w_idle_fiber w \<noteq> f"
  shows "run_turn dflt tickle w s =
    Inr (w\<lparr>w_ft := FT_fiber (Some f) (- 1), w_tickle_me := False, w_is_active := True,
           w_tls := (w_tls w)\<lparr>t_fiber := Some f, t_cpu := Some f\<rparr>, w_pc := InFiber\<rparr>,
         s\<lparr>m_fibers := [], m_activeThreadCount := m_activeThreadCount s + 1, m_idleThreadCount := m_idleThreadCount s - 1,
           mem := save m (set_state f EXEC (set_state (w_idle_fiber w) HOLD (mem s)))\<rparr>)"
proof -
  let ?s1 = "s\<lparr>m_idleThreadCount := m_idleThreadCount s - 1, mem := set_state (w_idle_fiber w) HOLD (mem s)\<rparr>"
  let ?w1 = "w\<lparr>w_pc := AtTop\<rparr>"
  have ret: "run_return tickle w s = Inr (?w1, ?s1)" using assms(1,2) by (simp add: run_return_def)
  have res: "resumable (mem ?s1) f" using assms(5,6) by (simp add: resumable_def)
  have pick: "run_pick ?w1 ?s1 = Inr (?w1\<lparr>w_ft := FT_fiber (Some f) (- 1), w_tickle_me := False, w_is_active := True,
      w_pc := Picked\<rparr>, ?s1\<lparr>m_fibers := [], m_activeThreadCount := m_activeThreadCount s + 1\<rparr>)"
    using run_pick_fiber [of ?w1 m ?s1 f "- 1" "[]"] res assms(3,4) by (simp add: worker_at_top_def)
  show ?thesis
    using swapIn_resumable [OF res assms(4)] res assms(6)
    by (simp add: run_turn_def ret pick run_dispatch_def FT_fiber_def worker_swapIn_def resumable_def)
qed

text \<open>
  The fiber for callbacks: none yet, or one that was reset after its last use. It is another fiber than those given.
\<close>

definition cb_slot :: "fiber_ptr option \<Rightarrow> fiber_ptr set \<Rightarrow> 'c fiber_mem \<Rightarrow> bool" where
  "cb_slot cb_fiber others mm \<longleftrightarrow> (\<forall>x \<in> others. x < next_fiber mm) \<and>
     (\<forall>g. cb_fiber = Some g \<longrightarrow> m_stack (fibers mm g) \<and> state_of mm g = INIT \<and> g \<notin> others)"

lemma cb_fiber_ready:
  assumes "cb_slot cb_fiber others mm"
  shows "\<exists>g mg. (case cb_fiber of
        Some f \<Rightarrow> bindE (Fiber_reset (Some cb) f mm) (\<lambda>m. Inr (f, m))
      | None \<Rightarrow> Inr (new_Fiber dflt (Some cb) 0 False mm)) = Inr (g, mg) \<and>
    g \<notin> others \<and> resumable mg g \<and> m_stack (fibers mg g) \<and> m_fiber_cb (fibers mg g) = Some cb \<and>
    (\<forall>x \<in> others. fibers mg x = fibers mm x)"
proof (cases cb_fiber)
  case None
  obtain g mg where n: "new_Fiber dflt (Some cb) 0 False mm = (g, mg)" by fastforce
  then have "g = next_fiber mm" "fibers mg = (fibers mm)(g := fibers mg g)" "resumable mg g" "m_stack (fibers mg g)"
    "m_fiber_cb (fibers mg g) = Some cb"
    by (auto simp: new_Fiber_def Let_def resumable_def)
  then show ?thesis using None n assms
    by (intro exI [of _ g] exI [of _ mg]) (auto simp: cb_slot_def, metis fun_upd_other nat_neq_iff)
next
  case (Some g)
  then show ?thesis using assms by (simp add: cb_slot_def Fiber_reset_def resumable_def Let_def)
qed

lemma run_turn_to_cb:
  assumes "w_pc w = InIdle" and "state_of (mem s) (w_idle_fiber w) = EXEC" and "m_fibers s = [FT_cb (Some cb) (- 1)]"
    and "t_scheduler_fiber (w_tls w) = Some m" and "cb_slot (w_cb_fiber w) others (mem s)" and "w_idle_fiber w \<in> others" and "m \<in> others"
  shows "\<exists>g m'. run_turn dflt tickle w s =
    Inr (w\<lparr>w_ft := FT_reset, w_tickle_me := False, w_is_active := True, w_cb_fiber := Some g,
           w_tls := (w_tls w)\<lparr>t_fiber := Some g, t_cpu := Some g\<rparr>, w_pc := InCb\<rparr>,
         s\<lparr>m_fibers := [], m_activeThreadCount := m_activeThreadCount s + 1, m_idleThreadCount := m_idleThreadCount s - 1,
           mem := m'\<rparr>) \<and> g \<notin> others \<and>
    state_of m' g = EXEC \<and> m_stack (fibers m' g) \<and> m_fiber_cb (fibers m' g) = Some cb \<and>
    (\<forall>x \<in> others. fibers m' x = fibers (save m (set_state (w_idle_fiber w) HOLD (mem s))) x)"
proof -
  let ?i = "w_idle_fiber w"
  let ?s1 = "s\<lparr>m_idleThreadCount := m_idleThreadCount s - 1, mem := set_state ?i HOLD (mem s)\<rparr>"
  let ?w1 = "w\<lparr>w_pc := AtTop\<rparr>"
  have ret: "run_return tickle w s = Inr (?w1, ?s1)" using assms(1,2) by (simp add: run_return_def)
  have slot: "cb_slot (w_cb_fiber w) others (mem ?s1)" using assms(5,6) by (auto simp: cb_slot_def)
  obtain g mg where g: "(case w_cb_fiber w of
        Some f \<Rightarrow> bindE (Fiber_reset (Some cb) f (mem ?s1)) (\<lambda>m. Inr (f, m))
      | None \<Rightarrow> Inr (new_Fiber dflt (Some cb) 0 False (mem ?s1))) = Inr (g, mg)"
    "g \<notin> others" "resumable mg g" "m_stack (fibers mg g)" "m_fiber_cb (fibers mg g) = Some cb"
    "\<forall>x \<in> others. fibers mg x = fibers (mem ?s1) x"
    using cb_fiber_ready [OF slot, of dflt cb] by (elim exE conjE)
  let ?w2 = "?w1\<lparr>w_ft := FT_cb (Some cb) (- 1), w_tickle_me := False, w_is_active := True, w_pc := Picked\<rparr>"
    and ?s2 = "?s1\<lparr>m_fibers := [], m_activeThreadCount := m_activeThreadCount s + 1\<rparr>"
  have pick: "run_pick ?w1 ?s1 = Inr (?w2, ?s2)" using assms(3) by (simp add: run_pick_def FT_cb_def)
  note sw = swapIn_resumable [OF g(3) assms(4)]
  have disp: "run_dispatch dflt tickle ?w2 ?s2 =
      Inr (?w2\<lparr>w_ft := FT_reset, w_cb_fiber := Some g, w_tls := (w_tls w)\<lparr>t_fiber := Some g, t_cpu := Some g\<rparr>, w_pc := InCb\<rparr>,
        ?s2\<lparr>mem := save m (set_state g EXEC mg)\<rparr>)"
    using g(1) sw
    by (cases "w_cb_fiber w") (auto simp: run_dispatch_def FT_cb_def worker_swapIn_def Let_def bindE_eq_Inr)
  show ?thesis
    by (intro exI [of _ g] exI [of _ "save m (set_state g EXEC mg)"])
      (use g(2-6) assms(7) disp in \<open>auto simp: run_turn_def ret pick\<close>)
qed

text \<open>The callback has returned: its fiber ends, and the worker goes on with the fiber the callback scheduled.\<close>

lemma run_turn_from_cb:
  assumes "w_pc w = InCb" and "w_cb_fiber w = Some g" and "m_stack (fibers (mem s) g)" and "m_fiber_cb (fibers (mem s) g) \<noteq> None"
    and "t_scheduler_fiber (w_tls w) = Some m" and "m \<noteq> g" and "m_ctx (fibers (mem s) m) \<noteq> AtEnd"
    and "m_fibers s = [FT_fiber (Some f) (- 1)]" and "resumable (mem s) f" and "f \<noteq> g" and "f \<noteq> m"
  shows "\<exists>l m' m''. MainFunc g Returned (w_tls w) (mem s) = Inr (l, m') \<and>
    run_turn dflt tickle (w\<lparr>w_tls := l\<rparr>) (s\<lparr>mem := m'\<rparr>) =
      Inr (w\<lparr>w_ft := FT_fiber (Some f) (- 1), w_tickle_me := False, w_is_active := True,
             w_tls := (w_tls w)\<lparr>t_fiber := Some f, t_cpu := Some f\<rparr>, w_pc := InFiber\<rparr>,
           s\<lparr>m_fibers := [], mem := m''\<rparr>) \<and>
    state_of m'' f = EXEC \<and> m_ctx (fibers m'' m) \<noteq> AtEnd"
proof -
  let ?m' = "set_fiber g (\<lambda>f. f\<lparr>m_ctx := AtEnd\<rparr>) (save g (set_fiber g (finish_cb Returned) (mem s)))"
  let ?l = "(w_tls w)\<lparr>t_fiber := Some m, t_cpu := Some m\<rparr>"
  have main: "MainFunc g Returned (w_tls w) (mem s) = Inr (?l, ?m')"
    using assms(5-7) by (simp add: MainFunc_def bindE_eq_Inr swapOut_Inr)
  let ?mr = "set_fiber g (\<lambda>f. f\<lparr>m_fiber_cb := None, m_ctx := Start EntryMainFunc, m_state := INIT\<rparr>) ?m'"
  let ?w1 = "w\<lparr>w_tls := ?l, w_pc := AtTop\<rparr>" and ?s1 = "s\<lparr>m_activeThreadCount := m_activeThreadCount s - 1, mem := ?mr\<rparr>"
  have "state_of ?m' g = TERM'" "m_stack (fibers ?m' g)" using assms(3,4) by (auto simp: finish_cb_def)
  then have ret: "run_return tickle (w\<lparr>w_tls := ?l\<rparr>) (s\<lparr>mem := ?m'\<rparr>) = Inr (?w1, ?s1)"
    using assms(1,2) by (simp add: run_return_def Fiber_reset_def Let_def)
  have res: "resumable (mem ?s1) f" using assms(9,10) by (simp add: resumable_def)
  have pick: "run_pick ?w1 ?s1 = Inr (?w1\<lparr>w_ft := FT_fiber (Some f) (- 1), w_tickle_me := False, w_is_active := True,
      w_pc := Picked\<rparr>, ?s1\<lparr>m_fibers := [], m_activeThreadCount := m_activeThreadCount s\<rparr>)"
    using run_pick_fiber [of ?w1 m ?s1 f "- 1" "[]"] res assms(5,8) by (simp add: worker_at_top_def)
  have sw: "swapIn f ?l ?mr = Inr (?l\<lparr>t_fiber := Some f, t_cpu := Some f\<rparr>, save m (set_state f EXEC ?mr))"
    using swapIn_resumable [of ?mr f ?l m] res assms(5) by simp
  show ?thesis
    using main sw res assms(6,7,11)
    by (intro exI [of _ ?l] exI [of _ ?m'] exI [of _ "save m (set_state f EXEC ?mr)"])
      (simp add: run_turn_def ret pick run_dispatch_def FT_fiber_def worker_swapIn_def resumable_def)
qed

section \<open>The idle fiber\<close>

text \<open>While an event is registered the object does not stop.\<close>

lemma not_stopping_pending:
  assumes "iom_inv s" and "0 < registered s" and "registered s < 2 ^ 64"
  shows "\<exists>t. stopping_timeout now s = (False, t, s\<lparr>timers := (timers s)\<lparr>m_tickled := False\<rparr>\<rparr>)"
proof -
  have "unat (m_pendingEventCount s) = registered s"
    using assms(1,3) by (simp add: iom_inv_def unat_of_nat)
  then have "m_pendingEventCount s \<noteq> 0" using assms(2) by auto
  then show ?thesis
    by (auto simp: stopping_timeout_def getNextTimer_def Let_def split: list.splits if_splits)
qed

lemma epoll_wait_interrupted:
  "\<exists>timeout. epoll_wait_loop t (replicate n None @ [Some events]) = Some (timeout, events)"
  by (induction n arbitrary: t) simp_all

definition no_timer_due :: "u64 \<Rightarrow> 'c timer_manager \<Rightarrow> bool" where
  "no_timer_due now tm \<longleftrightarrow> (\<forall>p t. armed tm p = Some t \<longrightarrow> \<not> due (fst (detectClockRollover now tm)) now t)"

lemma listExpiredCb_none_due:
  assumes "tm_inv tm" and "q \<notin> set (m_timers tm)" and "no_timer_due now tm"
  shows "\<exists>tm'. listExpiredCb now q [] tm = Inr ([], tm') \<and> tm_inv tm' \<and> armed tm' = armed tm"
proof -
  let ?r = "fst (detectClockRollover now tm)"
  have none: "filter (\<lambda>p. due ?r now (timer_heap tm p)) (m_timers tm) = []"
    using assms(3) by (auto simp: no_timer_due_def armed_def filter_empty_conv split: if_splits)
  have "expire ?r now (armed tm) = armed tm"
    using assms(3) by (auto simp: no_timer_due_def expire_def fun_eq_iff split: option.splits)
  with none show ?thesis
    by (rule_tac listExpired_run [OF assms(1,2) refl, of now "[]"]) auto
qed

lemma context_at_frame [simp]: "context_at fd' (s\<lparr>timers := tm\<rparr>) = context_at fd' s" "context_at fd' (s\<lparr>mem := mm\<rparr>) = context_at fd' s"
  "context_at fd' (s\<lparr>m_activeThreadCount := a\<rparr>) = context_at fd' s" "context_at fd' (s\<lparr>m_idleThreadCount := a\<rparr>) = context_at fd' s"
  "context_at fd' (s\<lparr>tickle_pipe := b\<rparr>) = context_at fd' s"
  by (simp_all add: context_at_def)

lemma waits_for_counters [simp]:
  "waits_for fd' event ctx (s\<lparr>tickle_pipe := b\<rparr>) = waits_for fd' event ctx s"
  "waits_for fd' event ctx (s\<lparr>m_activeThreadCount := a\<rparr>) = waits_for fd' event ctx s"
  "waits_for fd' event ctx (s\<lparr>m_idleThreadCount := a\<rparr>) = waits_for fd' event ctx s"
  by (simp_all add: waits_for_def iom_inv_def registered_def)

lemma registered_frame [simp]:
  "registered (s\<lparr>timers := x1\<rparr>) = registered s" "registered (s\<lparr>mem := x2\<rparr>) = registered s"
  "registered (s\<lparr>m_activeThreadCount := x3\<rparr>) = registered s" "registered (s\<lparr>m_idleThreadCount := x4\<rparr>) = registered s"
  "registered (s\<lparr>m_fibers := x5\<rparr>) = registered s"
  by (simp_all add: registered_def)

lemma armed_tickled: "armed (tm\<lparr>m_tickled := b\<rparr>) = armed tm"
  by (simp add: armed_def fun_eq_iff)

lemma idle_delivers_event:
  assumes "waits_for fd' event ctx s" and "ec_scheduler ctx = Some (self_ptr s)" and "context_at fd' s = Inr c"
    and "\<And>op fd evs p. ctl op fd evs p = 0" and "registered s < 2 ^ 64"
    and "tm_inv (timers s)" and "q \<notin> set (m_timers (timers s))" and "no_timer_due now2 (timers s)"
    and "t_fiber (w_tls w) = Some i" and "t_scheduler_fiber (w_tls w) = Some m" and "m_ctx (fibers (mem s) m) \<noteq> AtEnd"
  shows "\<exists>s2. IOManager_idle ctl now1 now2 q (replicate n None @ [Some [\<lparr>ev_data = DataPtr c, ev_events = epoll_flag event\<rparr>]]) w s =
      Inr (Some (w\<lparr>w_tls := (w_tls w)\<lparr>t_fiber := Some m, t_cpu := Some m\<rparr>\<rparr>, s2)) \<and>
    sched.truncate s2 = sched.truncate (s\<lparr>mem := save i (mem s), m_fibers := m_fibers s @ [task_of_ctx ctx]\<rparr>) \<and>
    m_pendingEventCount s2 = m_pendingEventCount s - 1 \<and> Suc (registered s2) = registered s \<and> iom_inv s2 \<and>
    self_ptr s2 = self_ptr s \<and> armed (timers s2) = armed (timers s) \<and> tm_inv (timers s2)"
proof -
  let ?ev = "\<lparr>ev_data = DataPtr c, ev_events = epoll_flag event\<rparr>"
  let ?tm = "(timers s)\<lparr>m_tickled := False\<rparr>"
  obtain p where p: "context_at fd' s = Inr p" "p < next_ctx s" "is_event event" "iom_inv s"
    "fc_events (ctx_heap s p) AND event \<noteq> 0"
    using assms(1) by (auto simp: waits_for_def)
  have "ev_count (fc_events (ctx_heap s p)) \<le> registered s"
    unfolding registered_def using p(2) by (intro member_le_sum) auto
  moreover have "0 < ev_count (fc_events (ctx_heap s p))" using p(3,5) by (auto simp: ev_count_def)
  ultimately obtain t where st: "stopping_timeout now1 s = (False, t, s\<lparr>timers := ?tm\<rparr>)"
    using not_stopping_pending [OF p(4) _ assms(5), of now1] by auto
  have tm: "tm_inv ?tm" "q \<notin> set (m_timers ?tm)" "armed ?tm = armed (timers s)" "no_timer_due now2 ?tm"
    using assms(6-8) by (simp_all add: tm_inv_def armed_tickled no_timer_due_def detectClockRollover_def)
  obtain tm' where tm': "listExpiredCb now2 q [] ?tm = Inr ([], tm')" "tm_inv tm'" "armed tm' = armed (timers s)"
    using listExpiredCb_none_due [OF tm(1,2,4)] tm(3) by auto
  obtain timeout where ep: "epoll_wait_loop t (replicate n None @ [Some [?ev]]) = Some (timeout, [?ev])"
    using epoll_wait_interrupted by blast
  let ?sc = "s\<lparr>timers := tm'\<rparr>"
  have "waits_for fd' event ctx ?sc" "context_at fd' ?sc = Inr c" using assms(1,3) by simp_all
  then obtain se where se: "handle_event ctl ?ev ?sc = Inr se" "delivered (task_of_ctx ctx) ?sc se"
    using handle_event_waiting [of fd' event ctx ?sc c ctl] assms(2,4) by auto
  note d = deliveredD [OF se(2)]
  have out: "swapOut i (w_tls w) (mem se) = Inr ((w_tls w)\<lparr>t_fiber := Some m, t_cpu := Some m\<rparr>, save i (mem s))"
    using assms(10,11) d(2) by (simp add: swapOut_Inr)
  have sc: "?sc = (if ([] :: 'a callback option list) \<noteq> [] then schedule_range IOManager_tickle (map (\<lambda>cb. FT_cb cb (- 1)) [])
      (s\<lparr>timers := ?tm, timers := tm'\<rparr>) else s\<lparr>timers := ?tm, timers := tm'\<rparr>)" by simp
  have "IOManager_idle ctl now1 now2 q (replicate n None @ [Some [?ev]]) w s =
      Inr (Some (w\<lparr>w_tls := (w_tls w)\<lparr>t_fiber := Some m, t_cpu := Some m\<rparr>\<rparr>, se\<lparr>mem := save i (mem s)\<rparr>))"
    by (rule idle_turn [OF st ep _ sc _ assms(9) out]) (use tm'(1) se(1) in simp_all)
  moreover have "iom_inv (se\<lparr>mem := save i (mem s)\<rparr>)" using d(9) by (simp add: iom_inv_def)
  moreover have "sched.truncate (se\<lparr>mem := save i (mem s)\<rparr>) =
      sched.truncate (s\<lparr>mem := save i (mem s), m_fibers := m_fibers s @ [task_of_ctx ctx]\<rparr>)"
    using se(2) by (simp add: delivered_def sched.truncate_def)
  ultimately show ?thesis using d tm' by (intro exI conjI) (assumption, simp_all)
qed

text \<open>Cancelling an armed timer.\<close>

lemma cancel_armed:
  assumes "tm_inv tm" and "armed tm p = Some t" and "m_timer_cb t \<noteq> None"
  shows "\<exists>tm'. cancel p tm = Inr (True, tm') \<and> armed tm' = (armed tm)(p := None) \<and> tm_inv tm'"
proof -
  let ?tm = "(set_timer p ((timer_heap tm p)\<lparr>m_timer_cb := None\<rparr>) tm)\<lparr>m_timers := remove1 p (m_timers tm)\<rparr>"
  have c: "cancel p tm = Inr (True, ?tm)" using assms by (simp add: cancel_eq armed_eq_Some)
  moreover have "armed ?tm = (armed tm)(p := None)"
    using tm_invD(2) [OF assms(1)] by (auto simp: armed_def set_timer_def fun_eq_iff)
  ultimately show ?thesis using tm_inv_cancel [OF assms(1) c] by blast
qed

section \<open>A parked fiber is resumed\<close>

text \<open>
  The fiber \<open>f\<close> of a worker has just given up the processor by \<open>YieldToHold\<close>: the thread is back at its scheduling
  fiber \<open>m\<close>, behind the \<open>swapIn\<close>, with nothing else in the queue.
\<close>

definition just_parked :: "'c worker \<Rightarrow> fiber_ptr \<Rightarrow> fiber_ptr \<Rightarrow> ('c, 'z) sched_scheme \<Rightarrow> bool" where
  "just_parked w f m s \<longleftrightarrow> runs w f \<and> state_of (mem s) f = EXEC \<and> m_ctx (fibers (mem s) f) = Saved \<and> m_fibers s = [] \<and>
     t_scheduler_fiber (w_tls w) = Some m \<and> m_ctx (fibers (mem s) m) \<noteq> AtEnd \<and> m \<noteq> f \<and>
     resumable (mem s) (w_idle_fiber w) \<and> w_idle_fiber w \<noteq> f \<and> w_idle_fiber w \<noteq> m"

text \<open>The fiber runs again on the same thread, and the scheduler is as it was when the fiber parked.\<close>

definition runs_again :: "'c worker \<Rightarrow> 'c worker \<Rightarrow> fiber_ptr \<Rightarrow> fiber_ptr \<Rightarrow> ('c, 'z) sched_scheme \<Rightarrow> ('c, 'z) sched_scheme \<Rightarrow> bool" where
  "runs_again w w4 f m s s4 \<longleftrightarrow> runs w4 f \<and> state_of (mem s4) f = EXEC \<and> m_ctx (fibers (mem s4) m) \<noteq> AtEnd \<and>
     w_tls w4 = (w_tls w)\<lparr>t_fiber := Some f, t_cpu := Some f\<rparr> \<and> m_fibers s4 = [] \<and>
     m_activeThreadCount s4 = m_activeThreadCount s \<and> m_idleThreadCount s4 = m_idleThreadCount s"

lemma event_resumes_fiber:
  fixes s :: "'c iom"
  assumes park: "just_parked w f m s"
    and "waits_for fd' event \<lparr>ec_scheduler = Some (self_ptr s), ec_fiber = Some f, ec_cb = None\<rparr> s"
    and "context_at fd' s = Inr c" and "\<And>op fd evs p. ctl op fd evs p = 0" and "registered s < 2 ^ 64"
    and "tm_inv (timers s)" and "q \<notin> set (m_timers (timers s))" and "no_timer_due now2 (timers s)"
  shows "\<exists>w2 s2 w3 s3 w4 s4.
    run_turn dflt IOManager_tickle w s = Inr (w2, s2) \<and> w_pc w2 = InIdle \<and> state_of (mem s2) f = HOLD \<and>
    IOManager_idle ctl now1 now2 q (replicate n None @ [Some [\<lparr>ev_data = DataPtr c, ev_events = epoll_flag event\<rparr>]]) w2 s2 =
      Inr (Some (w3, s3)) \<and> m_fibers s3 = [FT_fiber (Some f) (- 1)] \<and>
    run_turn dflt IOManager_tickle w3 s3 = Inr (w4, s4) \<and> runs_again w w4 f m s s4 \<and>
    m_pendingEventCount s4 = m_pendingEventCount s - 1 \<and> Suc (registered s4) = registered s \<and>
    self_ptr s4 = self_ptr s \<and> armed (timers s4) = armed (timers s) \<and> tm_inv (timers s4)"
proof -
  let ?i = "w_idle_fiber w"
  note k = park [unfolded just_parked_def]
  let ?ctx = "\<lparr>ec_scheduler = Some (self_ptr s), ec_fiber = Some f, ec_cb = None :: 'c callback option\<rparr>"
  obtain w2 s2 where t1: "run_turn dflt IOManager_tickle w s = Inr (w2, s2)" and w2: "w_pc w2 = InIdle" "w_idle_fiber w2 = ?i"
      "w_tls w2 = (w_tls w)\<lparr>t_fiber := Some ?i, t_cpu := Some ?i\<rparr>"
    and s2: "s2 = s\<lparr>m_activeThreadCount := m_activeThreadCount s - 1, m_idleThreadCount := m_idleThreadCount s + 1,
           mem := save m (set_state ?i EXEC (set_state f HOLD (mem s)))\<rparr>"
    using run_turn_to_idle [of w f s m dflt IOManager_tickle] k by auto
  have "\<exists>s3. IOManager_idle ctl now1 now2 q (replicate n None @ [Some [\<lparr>ev_data = DataPtr c, ev_events = epoll_flag event\<rparr>]]) w2 s2 =
      Inr (Some (w2\<lparr>w_tls := (w_tls w2)\<lparr>t_fiber := Some m, t_cpu := Some m\<rparr>\<rparr>, s3)) \<and>
    sched.truncate s3 = sched.truncate (s2\<lparr>mem := save ?i (mem s2), m_fibers := m_fibers s2 @ [task_of_ctx ?ctx]\<rparr>) \<and>
    m_pendingEventCount s3 = m_pendingEventCount s2 - 1 \<and> Suc (registered s3) = registered s2 \<and> iom_inv s3 \<and>
    self_ptr s3 = self_ptr s2 \<and> armed (timers s3) = armed (timers s2) \<and> tm_inv (timers s3)"
    using assms k w2 by (intro idle_delivers_event [where m = m and fd' = fd']) (simp_all add: s2)
  then obtain s3 where s3: "IOManager_idle ctl now1 now2 q (replicate n None @ [Some [\<lparr>ev_data = DataPtr c, ev_events = epoll_flag event\<rparr>]]) w2 s2 =
      Inr (Some (w2\<lparr>w_tls := (w_tls w2)\<lparr>t_fiber := Some m, t_cpu := Some m\<rparr>\<rparr>, s3))"
    "sched.truncate s3 = sched.truncate (s2\<lparr>mem := save ?i (mem s2), m_fibers := [FT_fiber (Some f) (- 1)]\<rparr>)"
    "m_pendingEventCount s3 = m_pendingEventCount s - 1" "Suc (registered s3) = registered s"
    "self_ptr s3 = self_ptr s" "armed (timers s3) = armed (timers s)" "tm_inv (timers s3)"
    using k by (auto simp: s2 task_of_ctx_def)
  let ?w3 = "w2\<lparr>w_tls := (w_tls w2)\<lparr>t_fiber := Some m, t_cpu := Some m\<rparr>\<rparr>"
  note s3s = truncate_eqD [OF s3(2)]
  have res: "state_of (mem s3) ?i = EXEC" "resumable (mem s3) f" "m_fibers s3 = [FT_fiber (Some f) (- 1)]"
    using k s3s by (auto simp: s2 resumable_def)
  note t2 = run_turn_to_fiber [of ?w3 s3 f m dflt IOManager_tickle]
  show ?thesis
    apply (rule exI [of _ w2], rule exI [of _ s2], rule exI [of _ ?w3], rule exI [of _ s3])
    using t1 w2 s3 t2 k res s3s by (simp add: runs_again_def runs_def FT_fiber_def s2)
qed

definition only_due :: "u64 \<Rightarrow> timer_ptr \<Rightarrow> 'c timer_manager \<Rightarrow> bool" where
  "only_due now p tm \<longleftrightarrow> (\<forall>x t. armed tm x = Some t \<longrightarrow> (due (fst (detectClockRollover now tm)) now t \<longleftrightarrow> x = p))"

lemma distinct_filter_eq: "distinct xs \<Longrightarrow> p \<in> set xs \<Longrightarrow> filter (\<lambda>x. x = p) xs = [p]"
  by (induction xs) (auto simp: filter_empty_conv)

lemma listExpiredCb_one_due:
  assumes "tm_inv tm" and "q \<notin> set (m_timers tm)" and "armed tm p = Some t" and "\<not> m_recurring t"
    and "only_due now p tm"
  shows "\<exists>tm'. listExpiredCb now q [] tm = Inr ([m_timer_cb t], tm') \<and> tm_inv tm' \<and> armed tm' = (armed tm)(p := None)"
proof -
  let ?r = "fst (detectClockRollover now tm)"
  have due: "due ?r now (timer_heap tm x) \<longleftrightarrow> x = p" if "x \<in> set (m_timers tm)" for x
    using assms(5) that by (simp add: only_due_def armed_eq_Some)
  have "filter (\<lambda>x. due ?r now (timer_heap tm x)) (m_timers tm) = filter (\<lambda>x. x = p) (m_timers tm)"
    using due by (intro filter_cong) simp_all
  also have "\<dots> = [p]"
    using assms(3) tm_invD(2) [OF assms(1)] by (simp add: armed_eq_Some distinct_filter_eq)
  finally have one: "filter (\<lambda>x. due ?r now (timer_heap tm x)) (m_timers tm) = [p]" .
  have "expire ?r now (armed tm) = (armed tm)(p := None)"
    using assms(3,4,5) by (auto simp: only_due_def expire_def fun_eq_iff split: option.splits)
  with one show ?thesis
    using assms(3) by (rule_tac listExpired_run [OF assms(1,2) refl, of now "[]"]) (auto simp: armed_eq_Some)
qed

lemma idle_queues_timer:
  assumes "armed (timers s) p = Some t" and "\<not> m_recurring t" and "m_timer_cb t = Some cb" and "only_due now2 p (timers s)"
    and "tm_inv (timers s)" and "q \<notin> set (m_timers (timers s))" and "0 < now1"
    and "t_fiber (w_tls w) = Some i" and "t_scheduler_fiber (w_tls w) = Some m" and "m_ctx (fibers (mem s) m) \<noteq> AtEnd"
  shows "\<exists>pipe tm. IOManager_idle ctl now1 now2 q (replicate n None @ [Some []]) w s =
      Inr (Some (w\<lparr>w_tls := (w_tls w)\<lparr>t_fiber := Some m, t_cpu := Some m\<rparr>\<rparr>,
        s\<lparr>timers := tm, m_fibers := m_fibers s @ [FT_cb (Some cb) (- 1)], tickle_pipe := pipe, mem := save i (mem s)\<rparr>)) \<and>
    armed tm = (armed (timers s))(p := None) \<and> tm_inv tm"
proof -
  let ?tm = "(timers s)\<lparr>m_tickled := False\<rparr>"
  have "m_timers (timers s) \<noteq> []" using assms(1) by (auto simp: armed_eq_Some)
  note next_timer = getNextTimer_armed [OF this assms(7)]
  obtain d where st: "stopping_timeout now1 s = (False, d, s\<lparr>timers := ?tm\<rparr>)"
    using next_timer by (auto simp: stopping_timeout_def getNextTimer_def Let_def split: list.splits if_splits)
  have tm: "tm_inv ?tm" "q \<notin> set (m_timers ?tm)" "armed ?tm p = Some t" "only_due now2 p ?tm" "armed ?tm = armed (timers s)"
    using assms(1,4-6) by (simp_all add: tm_inv_def armed_tickled only_due_def detectClockRollover_def)
  obtain tm' where tm': "listExpiredCb now2 q [] ?tm = Inr ([Some cb], tm')" "tm_inv tm'" "armed tm' = (armed (timers s))(p := None)"
    using listExpiredCb_one_due [OF tm(1,2,3) assms(2) tm(4)] assms(3) tm(5) by auto
  obtain timeout where ep: "epoll_wait_loop d (replicate n None @ [Some []]) = Some (timeout, [])"
    using epoll_wait_interrupted by blast
  define sc where "sc = (if [Some cb] \<noteq> [] then schedule_range IOManager_tickle (map (\<lambda>cb. FT_cb cb (- 1)) [Some cb])
      (s\<lparr>timers := ?tm, timers := tm'\<rparr>) else s\<lparr>timers := ?tm, timers := tm'\<rparr>)"
  have sc: "sc = s\<lparr>timers := tm', m_fibers := m_fibers s @ [FT_cb (Some cb) (- 1)], tickle_pipe := tickle_pipe sc\<rparr>"
    by (simp add: sc_def schedule_range_def schedulerNoLock_def FT_cb_def IOManager_tickle_def Let_def)
  have out: "swapOut i (w_tls w) (mem sc) = Inr ((w_tls w)\<lparr>t_fiber := Some m, t_cpu := Some m\<rparr>, save i (mem s))"
    using assms(9,10) by (subst sc) (simp add: swapOut_Inr)
  have "IOManager_idle ctl now1 now2 q (replicate n None @ [Some []]) w s =
      Inr (Some (w\<lparr>w_tls := (w_tls w)\<lparr>t_fiber := Some m, t_cpu := Some m\<rparr>\<rparr>, sc\<lparr>mem := save i (mem s)\<rparr>))"
    by (rule idle_turn [OF st ep _ sc_def _ assms(8) out]) (use tm'(1) in simp_all)
  moreover have "sc\<lparr>mem := save i (mem s)\<rparr> =
      s\<lparr>timers := tm', m_fibers := m_fibers s @ [FT_cb (Some cb) (- 1)], tickle_pipe := tickle_pipe sc, mem := save i (mem s)\<rparr>"
    by (subst sc) simp
  ultimately show ?thesis using tm'(2,3) by (intro exI [of _ "tickle_pipe sc"] exI [of _ tm']) simp
qed

text \<open>
  The timer of a parked fiber is due: the worker goes through its idle fiber to the callback of the timer, which runs
  on the worker's callback fiber; up to fibers, timers and the pipe, nothing else has changed.
\<close>

lemma timer_reaches_callback:
  assumes park: "just_parked w f m s" and "cb_slot (spare_cb w) {f, m, w_idle_fiber w} (mem s)"
    and "armed (timers s) p = Some t" and "\<not> m_recurring t" and "m_timer_cb t = Some cb" and "only_due now2 p (timers s)"
    and "tm_inv (timers s)" and "q \<notin> set (m_timers (timers s))" and "0 < now1"
  shows "\<exists>w2 s2 w3 s3 w4 s4 g pipe tm mm.
    run_turn dflt IOManager_tickle w s = Inr (w2, s2) \<and> w_pc w2 = InIdle \<and> state_of (mem s2) f = HOLD \<and>
    IOManager_idle ctl now1 now2 q (replicate n None @ [Some []]) w2 s2 = Inr (Some (w3, s3)) \<and>
    m_fibers s3 = [FT_cb (Some cb) (- 1)] \<and>
    run_turn dflt IOManager_tickle w3 s3 = Inr (w4, s4) \<and> w_pc w4 = InCb \<and> w_cb_fiber w4 = Some g \<and>
    w_tls w4 = (w_tls w)\<lparr>t_fiber := Some g, t_cpu := Some g\<rparr> \<and> g \<noteq> f \<and> g \<noteq> m \<and>
    m_stack (fibers mm g) \<and> m_fiber_cb (fibers mm g) = Some cb \<and> resumable mm f \<and> m_ctx (fibers mm m) \<noteq> AtEnd \<and>
    s4 = s\<lparr>timers := tm, tickle_pipe := pipe, mem := mm\<rparr> \<and> armed tm = (armed (timers s))(p := None) \<and> tm_inv tm"
proof -
  let ?i = "w_idle_fiber w"
  note k = park [unfolded just_parked_def]
  obtain w2 s2 where t1: "run_turn dflt IOManager_tickle w s = Inr (w2, s2)" and w2: "w_pc w2 = InIdle" "w_idle_fiber w2 = ?i"
      "w_tls w2 = (w_tls w)\<lparr>t_fiber := Some ?i, t_cpu := Some ?i\<rparr>" "w_cb_fiber w2 = spare_cb w"
    and s2: "s2 = s\<lparr>m_activeThreadCount := m_activeThreadCount s - 1, m_idleThreadCount := m_idleThreadCount s + 1,
           mem := save m (set_state ?i EXEC (set_state f HOLD (mem s)))\<rparr>"
    using run_turn_to_idle [of w f s m dflt IOManager_tickle] k by auto
  obtain pipe tm where idle: "IOManager_idle ctl now1 now2 q (replicate n None @ [Some []]) w2 s2 =
      Inr (Some (w2\<lparr>w_tls := (w_tls w2)\<lparr>t_fiber := Some m, t_cpu := Some m\<rparr>\<rparr>,
        s2\<lparr>timers := tm, m_fibers := m_fibers s2 @ [FT_cb (Some cb) (- 1)], tickle_pipe := pipe, mem := save ?i (mem s2)\<rparr>))"
    "armed tm = (armed (timers s))(p := None)" "tm_inv tm"
    using idle_queues_timer [of s2 p t cb now2 q now1 w2 ?i m ctl n] assms k w2 by (auto simp: s2)
  let ?w3 = "w2\<lparr>w_tls := (w_tls w2)\<lparr>t_fiber := Some m, t_cpu := Some m\<rparr>\<rparr>"
  let ?s3 = "s2\<lparr>timers := tm, m_fibers := m_fibers s2 @ [FT_cb (Some cb) (- 1)], tickle_pipe := pipe, mem := save ?i (mem s2)\<rparr>"
  have slot: "cb_slot (w_cb_fiber ?w3) {f, m, ?i} (mem ?s3)"
    using assms(2) k w2(4) by (auto simp: cb_slot_def s2)
  obtain g mm where cb: "run_turn dflt IOManager_tickle ?w3 ?s3 =
    Inr (?w3\<lparr>w_ft := FT_reset, w_tickle_me := False, w_is_active := True, w_cb_fiber := Some g,
           w_tls := (w_tls ?w3)\<lparr>t_fiber := Some g, t_cpu := Some g\<rparr>, w_pc := InCb\<rparr>,
         ?s3\<lparr>m_fibers := [], m_activeThreadCount := m_activeThreadCount ?s3 + 1, m_idleThreadCount := m_idleThreadCount ?s3 - 1,
           mem := mm\<rparr>)" "g \<notin> {f, m, ?i}" "m_stack (fibers mm g)" "m_fiber_cb (fibers mm g) = Some cb"
    "\<forall>x \<in> {f, m, ?i}. fibers mm x = fibers (save m (set_state ?i HOLD (mem ?s3))) x"
    using run_turn_to_cb [of ?w3 ?s3 cb m "{f, m, ?i}" dflt IOManager_tickle] slot k w2 by (auto simp: s2)
  have "resumable mm f" "m_ctx (fibers mm m) \<noteq> AtEnd" using cb(5) k by (auto simp: resumable_def s2)
  moreover let ?w4 = "?w3\<lparr>w_ft := FT_reset, w_tickle_me := False, w_is_active := True, w_cb_fiber := Some g,
      w_tls := (w_tls ?w3)\<lparr>t_fiber := Some g, t_cpu := Some g\<rparr>, w_pc := InCb\<rparr>"
  let ?s4 = "s\<lparr>timers := tm, tickle_pipe := pipe, mem := mm\<rparr>"
  have "?s3\<lparr>m_fibers := [], m_activeThreadCount := m_activeThreadCount ?s3 + 1, m_idleThreadCount := m_idleThreadCount ?s3 - 1,
      mem := mm\<rparr> = ?s4" by (rule iom.equality) (use k in \<open>simp_all add: s2\<close>)
  then have "run_turn dflt IOManager_tickle ?w3 ?s3 = Inr (?w4, ?s4)" using cb(1) by (simp only:)
  moreover have "state_of (mem s2) f = HOLD" "m_fibers ?s3 = [FT_cb (Some cb) (- 1)]" "w_pc ?w4 = InCb" "w_cb_fiber ?w4 = Some g"
    "w_tls ?w4 = (w_tls w)\<lparr>t_fiber := Some g, t_cpu := Some g\<rparr>" "g \<noteq> f" "g \<noteq> m"
    using k cb(2) w2(3) by (auto simp: s2)
  ultimately show ?thesis
    using t1 w2(1) idle cb(3,4)
    by (intro exI [of _ w2] exI [of _ s2] exI [of _ ?w3] exI [of _ ?s3] exI [of _ ?w4] exI [of _ ?s4] exI [of _ g]
        exI [of _ pipe] exI [of _ tm] exI [of _ mm] conjI) (assumption | rule refl)+
qed

section \<open>A hooked call that has to wait\<close>

lemma do_io_resume_ready:
  assumes "h_tinfo h ti = Some 0" and "tm_inv (timers (h_iom h))"
    and "to \<noteq> - 1 \<longrightarrow> armed (timers (h_iom h)) p = Some (wait_timer to ti fd' event now)"
  shows "\<exists>tm. do_io_resume to ti p h = Inr (None, h\<lparr>h_iom := (h_iom h)\<lparr>timers := tm\<rparr>\<rparr>) \<and> tm_inv tm \<and>
    armed tm = (if to \<noteq> - 1 then (armed (timers (h_iom h)))(p := None) else armed (timers (h_iom h)))"
proof (cases "to = - 1")
  case True
  then show ?thesis using assms(1,2) by (intro exI [of _ "timers (h_iom h)"]) (simp add: do_io_resume_def)
next
  case False
  with assms(3) cancel_armed [OF assms(2), of p] obtain tm where
    "cancel p (timers (h_iom h)) = Inr (True, tm)" "armed tm = (armed (timers (h_iom h)))(p := None)" "tm_inv tm"
    by (auto simp: wait_timer_def new_Timer_def)
  with False assms(1) show ?thesis by (intro exI [of _ tm]) (simp add: do_io_resume_def)
qed

text \<open>The state in which a fiber leaves its worker when it parks inside a hooked call.\<close>

lemma do_io_block_just_parked:
  assumes "runs w f" and "running_on (w_tls w) s f m" and "m_fibers s = []"
    and "resumable (mem s) (w_idle_fiber w)" and "w_idle_fiber w \<noteq> f" and "w_idle_fiber w \<noteq> m"
    and "iom_inv s" and "do_io_block ctl fd' event to ti now p (w_tls w) s = Inr (True, l1, s1)"
  shows "just_parked (w\<lparr>w_tls := l1\<rparr>) f m s1"
    "m_activeThreadCount s1 = m_activeThreadCount s" "m_idleThreadCount s1 = m_idleThreadCount s"
    "mem s1 = save f (mem s)"
proof -
  note park = do_io_block_parks [OF assms(2,7,8)]
  then have s1: "mem s1 = save f (mem s)" "m_fibers s1 = []" "m_activeThreadCount s1 = m_activeThreadCount s"
    "m_idleThreadCount s1 = m_idleThreadCount s"
    using truncate_eqD [of s1 "s\<lparr>mem := save f (mem s)\<rparr>"] assms(3) by simp_all
  have "runs (w\<lparr>w_tls := l1\<rparr>) f" using assms(1) by (simp add: runs_def)
  then show "just_parked (w\<lparr>w_tls := l1\<rparr>) f m s1"
    using assms(2,4-6) s1 park by (auto simp: just_parked_def resumable_def running_on_def)
qed (use truncate_eqD [of s1 "s\<lparr>mem := save f (mem s)\<rparr>"] do_io_block_parks [OF assms(2,7,8)] in simp_all)

text \<open>
  How a parked fiber \<open>f\<close> comes back to run through its event: the loop of the worker puts it into \<open>HOLD\<close> and enters the idle
  fiber; epoll reports the event there after \<open>n\<close> interrupted waits; the idle loop queues exactly this fiber, and the loop switches to it.
\<close>

definition woken_by_event ::
  "u32 \<Rightarrow> epoll_ctl \<Rightarrow> u64 \<Rightarrow> u64 \<Rightarrow> timer_ptr \<Rightarrow> nat \<Rightarrow> ctx_ptr \<Rightarrow> u32 \<Rightarrow> fiber_ptr \<Rightarrow>
   'c callback worker \<Rightarrow> 'c iom \<Rightarrow> 'c callback worker \<Rightarrow> 'c iom \<Rightarrow> bool" where
  "woken_by_event dflt ctl now1 now2 q n c event f w s w4 s4 \<longleftrightarrow>
     (\<exists>w2 s2 w3 s3.
       run_turn dflt IOManager_tickle w s = Inr (w2, s2) \<and> w_pc w2 = InIdle \<and> state_of (mem s2) f = HOLD \<and>
       IOManager_idle ctl now1 now2 q (replicate n None @ [Some [\<lparr>ev_data = DataPtr c, ev_events = epoll_flag event\<rparr>]]) w2 s2 =
         Inr (Some (w3, s3)) \<and> m_fibers s3 = [FT_fiber (Some f) (- 1)] \<and>
       run_turn dflt IOManager_tickle w3 s3 = Inr (w4, s4))"

text \<open>
  The fiber runs again on its thread, and nothing is left behind: the armed timers, the registered events, the pending count, both
  thread counters and the empty queue are as before the call.
\<close>

definition as_before :: "fiber_ptr \<Rightarrow> fiber_ptr \<Rightarrow> 'c callback worker \<Rightarrow> 'c iom \<Rightarrow> 'c callback worker \<Rightarrow> 'c iom \<Rightarrow> bool" where
  "as_before f m w s w' s' \<longleftrightarrow> runs w' f \<and> running_on (w_tls w') s' f m \<and> w_tls w' = (w_tls w)\<lparr>t_cpu := Some f\<rparr> \<and>
     armed (timers s') = armed (timers s) \<and> registered s' = registered s \<and> m_pendingEventCount s' = m_pendingEventCount s \<and>
     m_activeThreadCount s' = m_activeThreadCount s \<and> m_idleThreadCount s' = m_idleThreadCount s \<and> m_fibers s' = []"

text \<open>The wait of a hooked call that ends with its event.\<close>

lemma wait_ready:
  assumes "runs w f" and "running_on (w_tls w) s f m" and "m_fibers s = []"
    and "resumable (mem s) (w_idle_fiber w)" and "w_idle_fiber w \<noteq> f" and "w_idle_fiber w \<noteq> m"
    and "iom_inv s" and "Suc (registered s) < 2 ^ 64" and "tm_inv (timers s)" and "p \<notin> set (m_timers (timers s))"
    and "do_io_block ctl fd' event to ti now p (w_tls w) s = Inr (True, l1, s1)"
    and "context_at fd' s1 = Inr c" and "\<And>op fd evs p. ctl op fd evs p = 0"
    and "q \<notin> set (m_timers (timers s1))" and "no_timer_due now2 (timers s1)" and "tinfo ti = Some 0"
  shows "\<exists>w4 s4 tm. woken_by_event dflt ctl now1 now2 q n c event f (w\<lparr>w_tls := l1\<rparr>) s1 w4 s4 \<and>
    do_io_resume to ti p \<lparr>h_iom = s4, h_tinfo = tinfo\<rparr> = Inr (None, \<lparr>h_iom = s4\<lparr>timers := tm\<rparr>, h_tinfo = tinfo\<rparr>) \<and>
    as_before f m w s w4 (s4\<lparr>timers := tm\<rparr>)"
proof -
  note on = assms(2) [unfolded running_on_def]
  note park = do_io_block_parks [OF assms(2,7,11)]
  note parked = do_io_block_just_parked [OF assms(1-7,11)]
  have l1: "l1 = (w_tls w)\<lparr>t_fiber := Some m, t_cpu := Some m\<rparr>" and tm1: "tm_inv (timers s1)" "registered s1 < 2 ^ 64"
    using park assms(8-10) by simp_all
  obtain w4 s4 where wake: "woken_by_event dflt ctl now1 now2 q n c event f (w\<lparr>w_tls := l1\<rparr>) s1 w4 s4"
    and again: "runs_again (w\<lparr>w_tls := l1\<rparr>) w4 f m s1 s4"
    and s4: "m_pendingEventCount s4 = m_pendingEventCount s1 - 1" "Suc (registered s4) = registered s1"
    "self_ptr s4 = self_ptr s1" "armed (timers s4) = armed (timers s1)" "tm_inv (timers s4)"
    using event_resumes_fiber [OF parked(1), of fd' event c ctl q now2 dflt now1 n] park assms(12-15) tm1
    unfolding woken_by_event_def by auto
  obtain tm where tm: "do_io_resume to ti p \<lparr>h_iom = s4, h_tinfo = tinfo\<rparr> = Inr (None, \<lparr>h_iom = s4\<lparr>timers := tm\<rparr>, h_tinfo = tinfo\<rparr>)"
    "armed tm = armed (timers s)"
    using do_io_resume_ready [of "\<lparr>h_iom = s4, h_tinfo = tinfo\<rparr>" ti to p fd' event now] park s4(4,5) assms(10,16)
    by (fastforce simp: armed_def fun_eq_iff)
  have "running_on (w_tls w4) (s4\<lparr>timers := tm\<rparr>) f m" "w_tls w4 = (w_tls w)\<lparr>t_cpu := Some f\<rparr>"
    using again on s4(3) park l1 by (auto simp: runs_again_def running_on_def)
  then have "as_before f m w s w4 (s4\<lparr>timers := tm\<rparr>)"
    using again tm(2) s4 park parked by (simp add: as_before_def runs_again_def)
  with wake tm(1) show ?thesis by (intro exI [of _ w4] exI [of _ s4] exI [of _ tm] conjI)
qed

text \<open>
  C5. A hooked call that has to wait completes: a worker runs a fiber that makes a hooked call on a managed
  socket, the call answers \<^verbatim>\<open>EAGAIN\<close> and the fiber parks. With nothing else in the queue, the worker's loop puts
  the fiber into \<open>HOLD\<close> and enters the idle fiber; when epoll reports the event there (after any number of
  interrupted waits) and no timer is due, the idle loop queues exactly this fiber, and the loop of the worker switches back to it, on the same
  thread (\<open>woken_by_event\<close>). The call then returns the first result of its second round. Nothing is left behind (\<open>as_before\<close>): the timer of the wait and its
  \<^verbatim>\<open>timer_info\<close> are gone, and the armed timers, the registered events, the pending count, both
  thread counters and the empty queue are as before the call.
\<close>

theorem hooked_call_completes:
  assumes "runs w f" and "running_on (w_tls w) (h_iom h) f m" and "m_fibers (h_iom h) = []"
    and "resumable (mem (h_iom h)) (w_idle_fiber w)" and "w_idle_fiber w \<noteq> f" and "w_idle_fiber w \<noteq> m"
    and "iom_inv (h_iom h)" and "Suc (registered (h_iom h)) < 2 ^ 64"
    and "tm_inv (timers (h_iom h))" and "p \<notin> set (m_timers (timers (h_iom h)))"
    and "call_event call = (event, so)" and "do_io_enter K fd' so (w_tls w) fdm k = Inr (Managed to)"
    and "first_effective calls (Err EAGAIN)"
    and "do_io_block ctl fd' event to ti now p (w_tls w) (h_iom h) = Inr (True, l1, s1)"
    and "context_at fd' s1 = Inr c" and "\<And>op fd evs p. ctl op fd evs p = 0"
    and "q \<notin> set (m_timers (timers s1))" and "no_timer_due now2 (timers s1)"
    and "first_effective (r_calls r2) x" and "x \<noteq> Err EAGAIN"
  shows "\<exists>w4 s4 h'. woken_by_event dflt ctl now1 now2 q n c event f (w\<lparr>w_tls := l1\<rparr>) s1 w4 s4 \<and>
    hooked_io call K ctl fd' direct ti
      [\<lparr>r_calls = calls, r_now = now, r_timer = p, r_errno = en, r_tls = w_tls w4,
        r_wake = \<lparr>h_iom = s4, h_tinfo = (h_tinfo h)(ti \<mapsto> 0)\<rparr>\<rparr>, r2] fdm k (w_tls w) h = Inr (Some (x, w_tls w4, h')) \<and>
    h_tinfo h' = (h_tinfo h)(ti := None) \<and> as_before f m w (h_iom h) w4 (h_iom h')"
proof -
  let ?ti = "(h_tinfo h)(ti \<mapsto> 0)"
  obtain w4 s4 tm where w: "woken_by_event dflt ctl now1 now2 q n c event f (w\<lparr>w_tls := l1\<rparr>) s1 w4 s4"
    "do_io_resume to ti p \<lparr>h_iom = s4, h_tinfo = ?ti\<rparr> = Inr (None, \<lparr>h_iom = s4\<lparr>timers := tm\<rparr>, h_tinfo = ?ti\<rparr>)"
    "as_before f m w (h_iom h) w4 (s4\<lparr>timers := tm\<rparr>)"
    using wait_ready [OF assms(1-10,14-18), of ?ti dflt now1 n] by auto
  let ?h' = "\<lparr>h_iom = s4\<lparr>timers := tm\<rparr>, h_tinfo = (h_tinfo h)(ti := None)\<rparr>"
  have "hooked_io call K ctl fd' direct ti
      [\<lparr>r_calls = calls, r_now = now, r_timer = p, r_errno = en, r_tls = w_tls w4, r_wake = \<lparr>h_iom = s4, h_tinfo = ?ti\<rparr>\<rparr>, r2] fdm k (w_tls w) h =
      Inr (Some (x, w_tls w4, ?h'))"
    using assms(11,12,14,20) w(2) first_effective_dropWhile [OF assms(13)] first_effective_dropWhile [OF assms(19)]
    by (auto simp: hooked_io_def do_io_def drop_tinfo_def)
  with w(1,3) show ?thesis by (intro exI [of _ w4] exI [of _ s4] exI [of _ ?h']) simp
qed

section \<open>A hooked call that times out, and sleeping\<close>

text \<open>
  When that callback schedules the fiber, the fiber runs again. \<open>Q\<close> is what else the callback does.
\<close>

lemma timer_resumes_fiber:
  assumes park: "just_parked w f m s" and "cb_slot (spare_cb w) {f, m, w_idle_fiber w} (mem s)"
    and "armed (timers s) p = Some t" and "\<not> m_recurring t" and "m_timer_cb t = Some cb" and "only_due now2 p (timers s)"
    and "tm_inv (timers s)" and "q \<notin> set (m_timers (timers s))" and "0 < now1"
    and act: "\<And>tm pipe mm. \<exists>h5. run_callback alive (run_hook_cb ctl user) cb
        \<lparr>h_iom = s\<lparr>timers := tm, tickle_pipe := pipe, mem := mm\<rparr>, h_tinfo = tinfo\<rparr> = Inr h5 \<and>
      sched.truncate (h_iom h5) = sched.truncate (s\<lparr>mem := mm, m_fibers := [FT_fiber (Some f) (- 1)]\<rparr>) \<and>
      timers (h_iom h5) = tm \<and> self_ptr (h_iom h5) = self_ptr s \<and> Q h5"
  shows "\<exists>w2 s2 w3 s3 w4 s4 g h5 l5 m5 w6 s6.
    run_turn dflt IOManager_tickle w s = Inr (w2, s2) \<and> w_pc w2 = InIdle \<and> state_of (mem s2) f = HOLD \<and>
    IOManager_idle ctl now1 now2 q (replicate n None @ [Some []]) w2 s2 = Inr (Some (w3, s3)) \<and>
    run_turn dflt IOManager_tickle w3 s3 = Inr (w4, s4) \<and> runs w4 g \<and> m_fiber_cb (fibers (mem s4) g) = Some cb \<and>
    run_callback alive (run_hook_cb ctl user) cb \<lparr>h_iom = s4, h_tinfo = tinfo\<rparr> = Inr h5 \<and> Q h5 \<and>
    MainFunc g Returned (w_tls w4) (mem (h_iom h5)) = Inr (l5, m5) \<and>
    run_turn dflt IOManager_tickle (w4\<lparr>w_tls := l5\<rparr>) ((h_iom h5)\<lparr>mem := m5\<rparr>) = Inr (w6, s6) \<and>
    runs_again w w6 f m s s6 \<and> registered s6 = registered (h_iom h5) \<and> m_pendingEventCount s6 = m_pendingEventCount (h_iom h5) \<and>
    self_ptr s6 = self_ptr s \<and> armed (timers s6) = (armed (timers s))(p := None) \<and> tm_inv (timers s6)"
proof -
  note k = park [unfolded just_parked_def]
  obtain w2 s2 w3 s3 w4 s4 g pipe tm mm where chain: "run_turn dflt IOManager_tickle w s = Inr (w2, s2)" "w_pc w2 = InIdle"
    "state_of (mem s2) f = HOLD" "IOManager_idle ctl now1 now2 q (replicate n None @ [Some []]) w2 s2 = Inr (Some (w3, s3))"
    "run_turn dflt IOManager_tickle w3 s3 = Inr (w4, s4)"
    and w4: "w_pc w4 = InCb" "w_cb_fiber w4 = Some g" "w_tls w4 = (w_tls w)\<lparr>t_fiber := Some g, t_cpu := Some g\<rparr>" "g \<noteq> f" "g \<noteq> m"
    and mm: "m_stack (fibers mm g)" "m_fiber_cb (fibers mm g) = Some cb" "resumable mm f" "m_ctx (fibers mm m) \<noteq> AtEnd"
    and s4: "s4 = s\<lparr>timers := tm, tickle_pipe := pipe, mem := mm\<rparr>" "armed tm = (armed (timers s))(p := None)" "tm_inv tm"
    using timer_reaches_callback [OF assms(1-9), of dflt ctl n] by blast
  obtain h5 where h5: "run_callback alive (run_hook_cb ctl user) cb \<lparr>h_iom = s4, h_tinfo = tinfo\<rparr> = Inr h5"
    "sched.truncate (h_iom h5) = sched.truncate (s\<lparr>mem := mm, m_fibers := [FT_fiber (Some f) (- 1)]\<rparr>)"
    "timers (h_iom h5) = tm" "self_ptr (h_iom h5) = self_ptr s" "Q h5"
    using act [where tm = tm and pipe = pipe and mm = mm] unfolding s4(1) by blast
  have f5: "mem (h_iom h5) = mm" "m_fibers (h_iom h5) = [FT_fiber (Some f) (- 1)]"
    "m_activeThreadCount (h_iom h5) = m_activeThreadCount s" "m_idleThreadCount (h_iom h5) = m_idleThreadCount s"
    using truncate_eqD [OF h5(2)] by simp_all
  obtain l5 m5 m6 where ret: "MainFunc g Returned (w_tls w4) (mem (h_iom h5)) = Inr (l5, m5)"
    "run_turn dflt IOManager_tickle (w4\<lparr>w_tls := l5\<rparr>) ((h_iom h5)\<lparr>mem := m5\<rparr>) =
      Inr (w4\<lparr>w_ft := FT_fiber (Some f) (- 1), w_tickle_me := False, w_is_active := True,
             w_tls := (w_tls w4)\<lparr>t_fiber := Some f, t_cpu := Some f\<rparr>, w_pc := InFiber\<rparr>, (h_iom h5)\<lparr>m_fibers := [], mem := m6\<rparr>)"
    "state_of m6 f = EXEC" "m_ctx (fibers m6 m) \<noteq> AtEnd"
    using run_turn_from_cb [of w4 g "h_iom h5" m f dflt IOManager_tickle] w4 mm f5 k by auto
  let ?w6 = "w4\<lparr>w_ft := FT_fiber (Some f) (- 1), w_tickle_me := False, w_is_active := True,
             w_tls := (w_tls w4)\<lparr>t_fiber := Some f, t_cpu := Some f\<rparr>, w_pc := InFiber\<rparr>"
  let ?s6 = "(h_iom h5)\<lparr>m_fibers := [], mem := m6\<rparr>"
  have "runs_again w ?w6 f m s ?s6" using ret(3,4) f5 w4(3) by (simp add: runs_again_def runs_def FT_fiber_def)
  moreover have "runs w4 g" "m_fiber_cb (fibers (mem s4) g) = Some cb" "registered ?s6 = registered (h_iom h5)"
    "m_pendingEventCount ?s6 = m_pendingEventCount (h_iom h5)" "self_ptr ?s6 = self_ptr s"
    "armed (timers ?s6) = (armed (timers s))(p := None)" "tm_inv (timers ?s6)"
    using w4 mm(2) s4 h5(3,4) by (simp_all add: runs_def)
  ultimately show ?thesis
    using chain h5(1,5) ret(1,2)
    by (intro exI [of _ w2] exI [of _ s2] exI [of _ w3] exI [of _ s3] exI [of _ w4] exI [of _ s4] exI [of _ g] exI [of _ h5]
        exI [of _ l5] exI [of _ m5] exI [of _ ?w6] exI [of _ ?s6] conjI)
qed

lemma do_io_resume_timed_out:
  assumes "to \<noteq> - 1" and "h_tinfo h ti = Some ETIMEDOUT" and "tm_inv (timers (h_iom h))" and "armed (timers (h_iom h)) p = None"
  shows "do_io_resume to ti p h = Inr (Some ETIMEDOUT, h)"
proof -
  have "m_timer_cb (timer_heap (timers (h_iom h)) p) = None"
    using assms(4) tm_invD(3) [OF assms(3), of p] by (cases "m_timer_cb (timer_heap (timers (h_iom h)) p)") (auto simp: armed_def)
  then have "cancel p (timers (h_iom h)) = Inr (False, timers (h_iom h))" by (simp add: cancel_def)
  then show ?thesis using assms(1,2) by (simp add: do_io_resume_def ETIMEDOUT_def)
qed

text \<open>The callback of the timer of a wait, while the event is still registered for the fiber.\<close>

abbreviation timeout_cb :: "weak_ptr \<Rightarrow> fd \<Rightarrow> u32 \<Rightarrow> 'u hook_cb callback" where
  "timeout_cb ti fd' event \<equiv> BindOnTimer ti (Some (Callback (OnTimeout ti fd' event)))"

abbreviation tinfo_alive :: "'u hio \<Rightarrow> weak_ptr \<Rightarrow> bool" where
  "tinfo_alive h ti \<equiv> h_tinfo h ti \<noteq> None"

lemma timeout_cb_waiting:
  assumes "waits_for fd' event \<lparr>ec_scheduler = Some (self_ptr s), ec_fiber = Some f, ec_cb = None\<rparr> s"
    and "length (m_fdContexts s) < 2 ^ 31" and "\<And>op fd evs p. ctl op fd evs p = 0" and "m_fibers s = []"
    and "tinfo ti = Some 0"
  shows "\<exists>h5. run_callback tinfo_alive (run_hook_cb ctl user) (timeout_cb ti fd' event)
      \<lparr>h_iom = s\<lparr>timers := tm, tickle_pipe := pipe, mem := mm\<rparr>, h_tinfo = tinfo\<rparr> = Inr h5 \<and>
    sched.truncate (h_iom h5) = sched.truncate (s\<lparr>mem := mm, m_fibers := [FT_fiber (Some f) (- 1)]\<rparr>) \<and>
    timers (h_iom h5) = tm \<and> self_ptr (h_iom h5) = self_ptr s \<and>
    (h_tinfo h5 = tinfo(ti \<mapsto> ETIMEDOUT) \<and> Suc (registered (h_iom h5)) = registered s \<and>
     m_pendingEventCount (h_iom h5) = m_pendingEventCount s - 1)"
proof -
  let ?s = "s\<lparr>timers := tm, tickle_pipe := pipe, mem := mm\<rparr>"
  let ?ctx = "\<lparr>ec_scheduler = Some (self_ptr s), ec_fiber = Some f, ec_cb = None :: 'a hook_cb callback option\<rparr>"
  have "waits_for fd' event ?ctx ?s"
    using assms(1) by simp
  then obtain s2 where s2: "cancelEvent ctl fd' event ?s = Inr (True, s2)" "delivered (FT_fiber (Some f) (- 1)) ?s s2"
    using cancelEvent_waiting [of fd' event ?ctx ?s ctl] assms(2,3) by (auto simp: task_of_ctx_def)
  have "run_callback tinfo_alive (run_hook_cb ctl user) (timeout_cb ti fd' event) \<lparr>h_iom = ?s, h_tinfo = tinfo\<rparr> =
      Inr \<lparr>h_iom = s2, h_tinfo = tinfo(ti \<mapsto> ETIMEDOUT)\<rparr>"
    using s2(1) assms(5) by (simp add: run_OnTimeout_def)
  moreover have "registered ?s = registered s" by (simp add: registered_def)
  moreover have "sched.truncate s2 = sched.truncate (s\<lparr>mem := mm, m_fibers := [FT_fiber (Some f) (- 1)]\<rparr>)"
    using s2(2) assms(4) by (simp add: delivered_def sched.truncate_def)
  ultimately show ?thesis
    using deliveredD [OF s2(2)] by (intro exI [of _ "\<lparr>h_iom = s2, h_tinfo = tinfo(ti \<mapsto> ETIMEDOUT)\<rparr>"]) simp
qed

text \<open>
  How a parked fiber comes back to run through a timer: the worker enters the idle fiber, nothing is reported there, and the callback \<open>cb\<close> of the timer is
  queued; the worker runs it on its callback fiber, with the result \<open>h5\<close>, and then switches to \<open>f\<close>.
\<close>

definition woken_by_timer ::
  "u32 \<Rightarrow> epoll_ctl \<Rightarrow> ('u \<Rightarrow> 'u hio \<Rightarrow> 'u hio res) \<Rightarrow> ('u hio \<Rightarrow> weak_ptr \<Rightarrow> bool) \<Rightarrow> u64 \<Rightarrow> u64 \<Rightarrow> timer_ptr \<Rightarrow> nat \<Rightarrow>
   'u hook_cb callback \<Rightarrow> (weak_ptr \<Rightarrow> int option) \<Rightarrow> fiber_ptr \<Rightarrow>
   'u hook_cb callback worker \<Rightarrow> 'u hook_cb iom \<Rightarrow> 'u hook_cb callback worker \<Rightarrow> 'u hook_cb iom \<Rightarrow> 'u hio \<Rightarrow> bool" where
  "woken_by_timer dflt ctl user alive now1 now2 q n cb tinfo f w s w6 s6 h5 \<longleftrightarrow>
     (\<exists>w2 s2 w3 s3 w4 s4 g l5 m5.
       run_turn dflt IOManager_tickle w s = Inr (w2, s2) \<and> w_pc w2 = InIdle \<and> state_of (mem s2) f = HOLD \<and>
       IOManager_idle ctl now1 now2 q (replicate n None @ [Some []]) w2 s2 = Inr (Some (w3, s3)) \<and>
       run_turn dflt IOManager_tickle w3 s3 = Inr (w4, s4) \<and> runs w4 g \<and> m_fiber_cb (fibers (mem s4) g) = Some cb \<and>
       run_callback alive (run_hook_cb ctl user) cb \<lparr>h_iom = s4, h_tinfo = tinfo\<rparr> = Inr h5 \<and>
       MainFunc g Returned (w_tls w4) (mem (h_iom h5)) = Inr (l5, m5) \<and>
       run_turn dflt IOManager_tickle (w4\<lparr>w_tls := l5\<rparr>) ((h_iom h5)\<lparr>mem := m5\<rparr>) = Inr (w6, s6))"

text \<open>The wait of a hooked call that ends with its timer.\<close>

lemma wait_times_out:
  assumes "runs w f" and "running_on (w_tls w) s f m" and "m_fibers s = []"
    and "resumable (mem s) (w_idle_fiber w)" and "w_idle_fiber w \<noteq> f" and "w_idle_fiber w \<noteq> m" and "iom_inv s"
    and "cb_slot (spare_cb w) {f, m, w_idle_fiber w} (mem s)"
    and "tm_inv (timers s)" and "p \<notin> set (m_timers (timers s))" and "to \<noteq> - 1"
    and "do_io_block ctl fd' event to ti now p (w_tls w) s = Inr (True, l1, s1)"
    and "length (m_fdContexts s1) < 2 ^ 31" and "\<And>op fd evs p. ctl op fd evs p = 0"
    and "q \<notin> set (m_timers (timers s1))" and "only_due now2 p (timers s1)" and "0 < now1" and "tinfo ti = Some 0"
  shows "\<exists>w6 s6 h5. woken_by_timer dflt ctl user tinfo_alive now1 now2 q n (timeout_cb ti fd' event) tinfo f (w\<lparr>w_tls := l1\<rparr>) s1 w6 s6 h5 \<and>
    h_tinfo h5 = tinfo(ti \<mapsto> ETIMEDOUT) \<and> do_io_resume to ti p (h5\<lparr>h_iom := s6\<rparr>) = Inr (Some ETIMEDOUT, h5\<lparr>h_iom := s6\<rparr>) \<and>
    as_before f m w s w6 s6"
proof -
  let ?cb = "timeout_cb ti fd' event"
  note on = assms(2) [unfolded running_on_def]
  note park = do_io_block_parks [OF assms(2,7,12)]
  note parked = do_io_block_just_parked [OF assms(1-7,12)]
  have l1: "l1 = (w_tls w)\<lparr>t_fiber := Some m, t_cpu := Some m\<rparr>" and tm1: "tm_inv (timers s1)"
    and arm: "armed (timers s1) = (armed (timers s))(p \<mapsto> wait_timer to ti fd' event now)"
    using park assms(9-11) by simp_all
  have armp: "armed (timers s1) p = Some (wait_timer to ti fd' event now)" by (simp add: arm)
  have t: "\<not> m_recurring (wait_timer to ti fd' event now :: 'a hook_cb timer)"
    "m_timer_cb (wait_timer to ti fd' event now :: 'a hook_cb timer) = Some ?cb"
    by (simp_all add: wait_timer_def new_Timer_def)
  have slot: "cb_slot (spare_cb (w\<lparr>w_tls := l1\<rparr>)) {f, m, w_idle_fiber (w\<lparr>w_tls := l1\<rparr>)} (mem s1)"
    using assms(8) by (simp add: parked(4) cb_slot_def spare_cb_def)
  have "waits_for fd' event \<lparr>ec_scheduler = Some (self_ptr s1), ec_fiber = Some f, ec_cb = None\<rparr> s1" "m_fibers s1 = []"
    using park parked(1) by (simp_all add: just_parked_def)
  then have act: "\<exists>h5. run_callback tinfo_alive (run_hook_cb ctl user) ?cb
      \<lparr>h_iom = s1\<lparr>timers := tm, tickle_pipe := pipe, mem := mm\<rparr>, h_tinfo = tinfo\<rparr> = Inr h5 \<and>
    sched.truncate (h_iom h5) = sched.truncate (s1\<lparr>mem := mm, m_fibers := [FT_fiber (Some f) (- 1)]\<rparr>) \<and>
    timers (h_iom h5) = tm \<and> self_ptr (h_iom h5) = self_ptr s1 \<and>
    (h_tinfo h5 = tinfo(ti \<mapsto> ETIMEDOUT) \<and> Suc (registered (h_iom h5)) = registered s1 \<and>
     m_pendingEventCount (h_iom h5) = m_pendingEventCount s1 - 1)" for tm pipe mm
    using assms(13,14,18) by (intro timeout_cb_waiting) simp_all
  obtain h5 w6 s6 where wake: "woken_by_timer dflt ctl user tinfo_alive now1 now2 q n ?cb tinfo f (w\<lparr>w_tls := l1\<rparr>) s1 w6 s6 h5"
    and h5: "h_tinfo h5 = tinfo(ti \<mapsto> ETIMEDOUT)" "Suc (registered (h_iom h5)) = registered s1" "m_pendingEventCount (h_iom h5) = m_pendingEventCount s1 - 1"
    and s6: "runs_again (w\<lparr>w_tls := l1\<rparr>) w6 f m s1 s6" "registered s6 = registered (h_iom h5)" "m_pendingEventCount s6 = m_pendingEventCount (h_iom h5)"
      "self_ptr s6 = self_ptr s1" "armed (timers s6) = (armed (timers s1))(p := None)" "tm_inv (timers s6)"
    using timer_resumes_fiber [OF parked(1) slot armp t assms(16) tm1 assms(15,17) act, of dflt n] unfolding woken_by_timer_def by blast
  have "do_io_resume to ti p (h5\<lparr>h_iom := s6\<rparr>) = Inr (Some ETIMEDOUT, h5\<lparr>h_iom := s6\<rparr>)"
    by (rule do_io_resume_timed_out) (use assms(11) h5(1) s6(5,6) in simp_all)
  moreover have "armed (timers s) p = None" using assms(10) by (simp add: armed_def)
  then have "(armed (timers s1))(p := None) = armed (timers s)" by (auto simp: arm fun_eq_iff)
  then have "as_before f m w s w6 s6"
    using s6 h5 on l1 park parked(2,3) by (simp add: as_before_def runs_again_def running_on_def)
  ultimately show ?thesis using wake h5(1) by (intro exI [of _ w6] exI [of _ s6] exI [of _ h5] conjI)
qed

text \<open>
  C6. A hooked call that has to wait and times out: as for a call that completes, the fiber of a worker parks; no event is
  reported, and once the timer of the wait is due (and no other) the idle loop queues its callback. The
  worker runs it on its callback fiber: it marks the call with \<^verbatim>\<open>ETIMEDOUT\<close>, takes the event back and schedules the fiber; the
  worker switches back to the fiber on the same thread (\<open>woken_by_timer\<close>), and the call fails with \<^verbatim>\<open>ETIMEDOUT\<close> without a further system
  call. Nothing is left behind: the armed timers, the registered events, the pending count, both thread counters and the empty queue are as before.
\<close>

theorem hooked_call_times_out:
  assumes "runs w f" and "running_on (w_tls w) (h_iom h) f m" and "m_fibers (h_iom h) = []"
    and "resumable (mem (h_iom h)) (w_idle_fiber w)" and "w_idle_fiber w \<noteq> f" and "w_idle_fiber w \<noteq> m" and "iom_inv (h_iom h)"
    and "cb_slot (spare_cb w) {f, m, w_idle_fiber w} (mem (h_iom h))"
    and "tm_inv (timers (h_iom h))" and "p \<notin> set (m_timers (timers (h_iom h)))"
    and "call_event call = (event, so)" and "do_io_enter K fd' so (w_tls w) fdm k = Inr (Managed to)" and "to \<noteq> - 1"
    and "first_effective calls (Err EAGAIN)"
    and "do_io_block ctl fd' event to ti now p (w_tls w) (h_iom h) = Inr (True, l1, s1)"
    and "length (m_fdContexts s1) < 2 ^ 31" and "\<And>op fd evs p. ctl op fd evs p = 0"
    and "q \<notin> set (m_timers (timers s1))" and "only_due now2 p (timers s1)" and "0 < now1"
  shows "\<exists>w6 s6 h5 h'.
    woken_by_timer dflt ctl user tinfo_alive now1 now2 q n (timeout_cb ti fd' event) ((h_tinfo h)(ti \<mapsto> 0)) f (w\<lparr>w_tls := l1\<rparr>) s1 w6 s6 h5 \<and>
    hooked_io call K ctl fd' direct ti
      (\<lparr>r_calls = calls, r_now = now, r_timer = p, r_errno = en, r_tls = w_tls w6, r_wake = h5\<lparr>h_iom := s6\<rparr>\<rparr> # later)
      fdm k (w_tls w) h = Inr (Some (Err ETIMEDOUT, w_tls w6, h')) \<and>
    h_tinfo h' = (h_tinfo h)(ti := None) \<and> as_before f m w (h_iom h) w6 (h_iom h')"
proof -
  obtain w6 s6 h5 where w: "woken_by_timer dflt ctl user tinfo_alive now1 now2 q n (timeout_cb ti fd' event) ((h_tinfo h)(ti \<mapsto> 0)) f (w\<lparr>w_tls := l1\<rparr>) s1 w6 s6 h5"
    "h_tinfo h5 = (h_tinfo h)(ti \<mapsto> 0, ti \<mapsto> ETIMEDOUT)"
    "do_io_resume to ti p (h5\<lparr>h_iom := s6\<rparr>) = Inr (Some ETIMEDOUT, h5\<lparr>h_iom := s6\<rparr>)" "as_before f m w (h_iom h) w6 s6"
    using wait_times_out [OF assms(1-10,13,15-20), of "(h_tinfo h)(ti \<mapsto> 0)" dflt user n] by auto
  let ?h' = "\<lparr>h_iom = s6, h_tinfo = (h_tinfo h)(ti := None)\<rparr>"
  have "hooked_io call K ctl fd' direct ti
      (\<lparr>r_calls = calls, r_now = now, r_timer = p, r_errno = en, r_tls = w_tls w6, r_wake = h5\<lparr>h_iom := s6\<rparr>\<rparr> # later)
      fdm k (w_tls w) h = Inr (Some (Err ETIMEDOUT, w_tls w6, ?h'))"
    using assms(11,12,15) w(2,3) first_effective_dropWhile [OF assms(14)] by (auto simp: hooked_io_def do_io_def drop_tinfo_def)
  with w(1,4) show ?thesis by (intro exI [of _ w6] exI [of _ s6] exI [of _ h5] exI [of _ ?h']) simp
qed

text \<open>The timer of a new wait is the only one due.\<close>

lemma only_due_addTimer:
  assumes "no_timer_due now2 tm" and "p \<notin> set (m_timers tm)" and "now + ms \<le> now2"
  shows "only_due now2 p (snd (addTimer ms cb rec now p tm))"
proof -
  have "fst (detectClockRollover now2 (snd (addTimer ms cb rec now p tm))) = fst (detectClockRollover now2 tm)"
    by (simp add: addTimer_def addTimer_locked_def set_timer_def detectClockRollover_def Let_def)
  moreover have "armed tm p = None" using assms(2) by (simp add: armed_def)
  ultimately show ?thesis
    using assms(1,3) by (auto simp: only_due_def no_timer_due_def armed_addTimer due_def new_Timer_def)
qed

text \<open>
  C21. Sleeping ends: a worker runs a fiber that calls the hooked \<open>sleep\<close>, \<open>usleep\<close> or \<open>nanosleep\<close>. The call parks the
  fiber; with nothing else in the queue the worker enters its idle fiber, and once the time of the sleep has
  passed (and no other timer is due) the idle loop queues the callback of the timer. The worker runs
  it on its callback fiber, it schedules the sleeping fiber, and the worker switches back to that fiber on the same thread
  (\<open>woken_by_timer\<close>). The armed timers, the registered events, both thread counters and the empty queue are then as before the call.
\<close>

theorem sleep_wakes:
  assumes "runs w f" and "running_on (w_tls w) s f m" and "m_fibers s = []"
    and "resumable (mem s) (w_idle_fiber w)" and "w_idle_fiber w \<noteq> f" and "w_idle_fiber w \<noteq> m"
    and "cb_slot (spare_cb w) {f, m, w_idle_fiber w} (mem s)"
    and "tm_inv (timers s)" and "p \<notin> set (m_timers (timers s))"
    and "(call, ms) \<in> {(sleep sf seconds now p (w_tls w) s, ucast (seconds * 1000)),
      (usleep uf usec now p (w_tls w) s, ucast (usec div 1000)),
      (nanosleep nf tv_sec tv_nsec now p (w_tls w) s, nanosleep_ms tv_sec tv_nsec)}"
    and "no_timer_due now2 (timers s)" and "now + ms \<le> now2" and "0 < now1"
    and "q \<noteq> p" and "q \<notin> set (m_timers (timers s))"
  shows "\<exists>l1 s1 w6 s6 h5. call = Inr (0, l1, s1) \<and>
    woken_by_timer dflt ctl user alive now1 now2 q n (Callback (ScheduleFiber f)) tinfo f (w\<lparr>w_tls := l1\<rparr>) s1 w6 s6 h5 \<and>
    h_tinfo h5 = tinfo \<and> as_before f m w s w6 s6"
proof -
  note on = assms(2) [unfolded running_on_def]
  let ?cb = "Callback (ScheduleFiber f)"
  let ?l1 = "(w_tls w)\<lparr>t_fiber := Some m, t_cpu := Some m\<rparr>"
  define s1 where "s1 = (IOManager_addTimer ms (Some ?cb) False now p s)\<lparr>mem := save f (mem s)\<rparr>"
  have call: "call = Inr (0, ?l1, s1)"
    using assms(10) park_for_eq [OF assms(2) refl, of _ now p] on by (auto simp: s1_def sleep_def usleep_def nanosleep_def)
  have s1: "mem s1 = save f (mem s)" "m_fibers s1 = []" "self_ptr s1 = self_ptr s"
    "m_activeThreadCount s1 = m_activeThreadCount s" "m_idleThreadCount s1 = m_idleThreadCount s"
    "timers s1 = snd (addTimer ms (Some ?cb) False now p (timers s))" "registered s1 = registered s" "m_pendingEventCount s1 = m_pendingEventCount s"
    using assms(3) truncate_eqD [OF IOManager_addTimer_truncate, of ms "Some ?cb" False now p s]
    by (simp_all add: s1_def IOManager_addTimer_frame registered_def)
  have tm1: "armed (timers s1) p = Some (new_Timer ms (Some ?cb) False now)" "only_due now2 p (timers s1)" "tm_inv (timers s1)"
    "q \<notin> set (m_timers (timers s1))" "(armed (timers s1))(p := None) = armed (timers s)"
    using only_due_addTimer [OF assms(11,9,12)] tm_inv_addTimer [OF assms(8,9) surjective_pairing] assms(9,14,15)
    by (auto simp: s1(6) armed_addTimer addTimer_def addTimer_locked_def set_timer_def Let_def cmp.set_std_insert armed_def fun_eq_iff)
  have parked: "just_parked (w\<lparr>w_tls := ?l1\<rparr>) f m s1"
    using assms(1,4-6) on s1 by (auto simp: just_parked_def resumable_def runs_def)
  have slot: "cb_slot (spare_cb (w\<lparr>w_tls := ?l1\<rparr>)) {f, m, w_idle_fiber (w\<lparr>w_tls := ?l1\<rparr>)} (mem s1)"
    using assms(7) by (simp add: s1(1) cb_slot_def spare_cb_def)
  have act: "\<exists>h5. run_callback alive (run_hook_cb ctl user) ?cb
      \<lparr>h_iom = s1\<lparr>timers := tm, tickle_pipe := pipe, mem := mm\<rparr>, h_tinfo = tinfo\<rparr> = Inr h5 \<and>
    sched.truncate (h_iom h5) = sched.truncate (s1\<lparr>mem := mm, m_fibers := [FT_fiber (Some f) (- 1)]\<rparr>) \<and>
    timers (h_iom h5) = tm \<and> self_ptr (h_iom h5) = self_ptr s1 \<and>
    (h_tinfo h5 = tinfo \<and> registered (h_iom h5) = registered s1 \<and> m_pendingEventCount (h_iom h5) = m_pendingEventCount s1)" for tm pipe mm
    using s1(2) by (simp add: schedule_def schedulerNoLock_def FT_fiber_def IOManager_tickle_def sched.truncate_def registered_def)
  have cb: "\<not> m_recurring (new_Timer ms (Some ?cb) False now)" "m_timer_cb (new_Timer ms (Some ?cb) False now) = Some ?cb"
    by (simp_all add: new_Timer_def)
  obtain h5 w6 s6 where wake: "woken_by_timer dflt ctl user alive now1 now2 q n ?cb tinfo f (w\<lparr>w_tls := ?l1\<rparr>) s1 w6 s6 h5"
    and h5: "h_tinfo h5 = tinfo" "registered (h_iom h5) = registered s1" "m_pendingEventCount (h_iom h5) = m_pendingEventCount s1"
    and s6: "runs_again (w\<lparr>w_tls := ?l1\<rparr>) w6 f m s1 s6" "registered s6 = registered (h_iom h5)" "m_pendingEventCount s6 = m_pendingEventCount (h_iom h5)"
      "self_ptr s6 = self_ptr s1" "armed (timers s6) = (armed (timers s1))(p := None)"
    using timer_resumes_fiber [OF parked slot tm1(1) cb tm1(2,3,4) assms(13) act, of dflt n] unfolding woken_by_timer_def by blast
  have "as_before f m w s w6 s6"
    using s6 h5 on s1(3-5,7,8) tm1(5) by (simp add: as_before_def runs_again_def running_on_def)
  with call wake h5(1) show ?thesis
    by (intro exI [of _ ?l1] exI [of _ s1] exI [of _ w6] exI [of _ s6] exI [of _ h5] conjI)
qed

text \<open>A worker inside fiber 1; fiber 2 is its idle fiber.\<close>

definition demo_io_worker :: "nat hook_cb callback worker" where
  "demo_io_worker = \<lparr>w_tid = 12, w_tls = demo_io_tls, w_idle_fiber = 2, w_cb_fiber = None, w_ft = FT_fiber (Some 1) (- 1),
     w_tickle_me = False, w_is_active = True, w_pc = InFiber\<rparr>"

lemma demo_io_worker_ok:
  "runs demo_io_worker 1" "running_on (w_tls demo_io_worker) demo_io 1 0" "m_fibers demo_io = []"
  "resumable (mem demo_io) (w_idle_fiber demo_io_worker)" "w_idle_fiber demo_io_worker = 2"
  "registered demo_io = 0" "timers demo_io = new_TimerManager 100" "tm_inv (timers demo_io)"
  using demo_running by (simp_all add: demo_io_worker_def runs_def FT_fiber_def resumable_def registered_def tm_inv_new)
    (simp_all add: demo_io_def tm_inv_new)

lemma demo_send_enter: "do_io_enter demo_kernel 1 SO_SNDTIMEO (w_tls demo_io_worker) demo_fdm (\<lambda>_. 0) = Inr (Managed 250)"
  by (simp add: do_io_enter_def FdManager_get_eq demo_fdm_map demo_io_worker_def demo_io_tls_def demo_ctx_def getTimeout_def
      SO_SNDTIMEO_def SO_RCVTIMEO_def)

theorem hooked_call_completes_witness:
  "\<exists>l1 s1 (w4 :: nat hook_cb callback worker) s4 h'. do_io_block (\<lambda>_ _ _ _. 0) 1 WRITE 250 0 500 7 demo_io_tls demo_io = Inr (True, l1, s1) \<and>
     hooked_io Io_send demo_kernel (\<lambda>_ _ _ _. 0) 1 (Ret 0) 0
       [\<lparr>r_calls = [Err EAGAIN], r_now = 500, r_timer = 7, r_errno = 0, r_tls = w_tls w4, r_wake = \<lparr>h_iom = s4, h_tinfo = [0 \<mapsto> 0]\<rparr>\<rparr>,
        \<lparr>r_calls = [Ret 6], r_now = 520, r_timer = 8, r_errno = 0, r_tls = demo_io_tls, r_wake = \<lparr>h_iom = demo_io, h_tinfo = Map.empty\<rparr>\<rparr>]
       demo_fdm (\<lambda>_. 0) demo_io_tls \<lparr>h_iom = demo_io, h_tinfo = Map.empty\<rparr> = Inr (Some (Ret 6, w_tls w4, h')) \<and>
     runs w4 1 \<and> m_fibers (h_iom h') = []"
proof -
  let ?h = "\<lparr>h_iom = demo_io, h_tinfo = Map.empty\<rparr>"
  let ?r2 = "\<lparr>r_calls = [Ret 6], r_now = 520, r_timer = 8, r_errno = 0, r_tls = demo_io_tls, r_wake = ?h\<rparr>"
  obtain l1 s1 where b: "do_io_block (\<lambda>_ _ _ _. 0) 1 WRITE 250 0 500 7 demo_io_tls demo_io = Inr (True, l1, s1)"
    "m_fdContexts s1 = [Some 0, Some 1]"
    "timers s1 = snd (addTimer 250 (Some (BindOnTimer 0 (Some (Callback (OnTimeout 0 1 WRITE))))) False 500 7 (new_TimerManager 100))"
    using demo_block [of WRITE 250] by auto
  have fe: "first_effective [Err EAGAIN] (Err EAGAIN)" "first_effective (r_calls ?r2) (Ret 6)"
    by (auto simp: first_effective_def EAGAIN_def EINTR_def intro!: exI [of _ "0 :: nat"])
  have t: "99 \<notin> set (m_timers (timers s1))" "no_timer_due 520 (timers s1)"
    by (simp_all add: b(3) addTimer_def addTimer_locked_def new_TimerManager_def set_timer_def Let_def cmp.set_std_insert
        no_timer_due_def armed_def detectClockRollover_def due_def new_Timer_def)
  have c: "context_at 1 s1 = Inr 1" using b(2) by (simp add: context_at_def)
  have d: "do_io_block (\<lambda>_ _ _ _. 0) 1 WRITE 250 0 500 7 (w_tls demo_io_worker) (h_iom ?h) = Inr (True, l1, s1)"
    using b(1) by (simp add: demo_io_worker_def)
  have p: "7 \<notin> set (m_timers (timers (h_iom ?h)))" by (simp add: demo_io_worker_ok(7) new_TimerManager_def)
  have ok: "running_on (w_tls demo_io_worker) (h_iom ?h) 1 0" "m_fibers (h_iom ?h) = []"
    "resumable (mem (h_iom ?h)) (w_idle_fiber demo_io_worker)" "w_idle_fiber demo_io_worker \<noteq> 1" "w_idle_fiber demo_io_worker \<noteq> 0"
    "iom_inv (h_iom ?h)" "Suc (registered (h_iom ?h)) < 2 ^ 64" "tm_inv (timers (h_iom ?h))"
    using demo_io_worker_ok demo_inv by simp_all
  have tls: "w_tls demo_io_worker = demo_io_tls" by (simp add: demo_io_worker_def)
  from hooked_call_completes [OF demo_io_worker_ok(1) ok p call_event.simps(9) demo_send_enter fe(1) d c refl t fe(2) io_ret.distinct(1),
      of 131072 510 0 "Ret 0" 0, unfolded hio.select_convs]
  obtain w4 :: "nat hook_cb callback worker" and s4 h' where "runs w4 1" "m_fibers (h_iom h') = []"
     "hooked_io Io_send demo_kernel (\<lambda>_ _ _ _. 0) 1 (Ret 0) 0
       [\<lparr>r_calls = [Err EAGAIN], r_now = 500, r_timer = 7, r_errno = 0, r_tls = w_tls w4, r_wake = \<lparr>h_iom = s4, h_tinfo = [0 \<mapsto> 0]\<rparr>\<rparr>,
        ?r2] demo_fdm (\<lambda>_. 0) (w_tls demo_io_worker) ?h = Inr (Some (Ret 6, w_tls w4, h'))"
    unfolding as_before_def by blast
  with b(1) show ?thesis unfolding tls by blast
qed

lemma demo_io_slot: "cb_slot (spare_cb demo_io_worker) {1, 0, w_idle_fiber demo_io_worker} (mem demo_io)"
  by (simp add: cb_slot_def spare_cb_def demo_io_worker_def demo_io_def)

theorem sleep_wakes_witness:
  "\<exists>l1 s1 (w6 :: nat hook_cb callback worker) s6. sleep (\<lambda>_. 0) 2 500 7 demo_io_tls demo_io = Inr (0, l1, s1) \<and>
     armed (timers s1) 7 \<noteq> None \<and> runs w6 1 \<and> running_on (w_tls w6) s6 1 0 \<and> armed (timers s6) = armed (timers demo_io)"
proof -
  have t: "7 \<notin> set (m_timers (timers demo_io))" "no_timer_due 2500 (timers demo_io)" "99 \<notin> set (m_timers (timers demo_io))"
    by (simp_all add: demo_io_worker_ok(7) new_TimerManager_def no_timer_due_def armed_def)
  have tls: "w_tls demo_io_worker = demo_io_tls" by (simp add: demo_io_worker_def)
  have c: "(sleep (\<lambda>_. 0) 2 500 7 (w_tls demo_io_worker) demo_io, ucast (2 * 1000 :: u32)) \<in>
      {(sleep (\<lambda>_. 0) 2 500 7 (w_tls demo_io_worker) demo_io, ucast (2 * 1000 :: u32)),
      (usleep (\<lambda>_. 0) 0 500 7 (w_tls demo_io_worker) demo_io, ucast (0 div 1000 :: u32)),
      (nanosleep (\<lambda>_ _. 0) 0 0 500 7 (w_tls demo_io_worker) demo_io, nanosleep_ms 0 0)}" by simp
  have "\<exists>l1 s1 w6 s6 h5. sleep (\<lambda>_. 0) 2 500 7 (w_tls demo_io_worker) demo_io = Inr (0, l1, s1) \<and>
    woken_by_timer 131072 (\<lambda>_ _ _ _. 0) (\<lambda>_. Inr) (\<lambda>_ _. False) 510 2500 99 1 (Callback (ScheduleFiber 1)) Map.empty 1
      (demo_io_worker\<lparr>w_tls := l1\<rparr>) s1 w6 s6 h5 \<and> h_tinfo h5 = Map.empty \<and> as_before 1 0 demo_io_worker demo_io w6 s6"
    by (rule sleep_wakes [OF demo_io_worker_ok(1-4) _ _ demo_io_slot demo_io_worker_ok(8) t(1) c t(2) _ _ _ t(3)])
      (simp_all add: demo_io_worker_ok(5))
  then obtain l1 s1 s6 and w6 :: "nat hook_cb callback worker" where
    r: "sleep (\<lambda>_. 0) 2 500 7 demo_io_tls demo_io = Inr (0, l1, s1)" "runs w6 1" "running_on (w_tls w6) s6 1 0"
      "armed (timers s6) = armed (timers demo_io)"
    unfolding tls as_before_def by blast
  have "armed (timers s1) 7 \<noteq> None"
    using r(1) park_for_parks [OF demo_running, of 2000 500 7] by (auto simp: sleep_def demo_io_tls_def parked_for_def)
  with r show ?thesis by blast
qed

theorem hooked_call_times_out_witness:
  "\<exists>(w6 :: nat hook_cb callback worker) wake h'. runs w6 1 \<and>
     hooked_io Io_send demo_kernel (\<lambda>_ _ _ _. 0) 1 (Ret 0) 0
       [\<lparr>r_calls = [Err EAGAIN], r_now = 500, r_timer = 7, r_errno = 0, r_tls = w_tls w6, r_wake = wake\<rparr>]
       demo_fdm (\<lambda>_. 0) demo_io_tls \<lparr>h_iom = demo_io, h_tinfo = Map.empty\<rparr> = Inr (Some (Err ETIMEDOUT, w_tls w6, h')) \<and>
     m_fibers (h_iom h') = [] \<and> registered (h_iom h') = 0"
proof -
  let ?h = "\<lparr>h_iom = demo_io, h_tinfo = Map.empty\<rparr>"
  obtain l1 s1 where b: "do_io_block (\<lambda>_ _ _ _. 0) 1 WRITE 250 0 500 7 demo_io_tls demo_io = Inr (True, l1, s1)"
    "m_fdContexts s1 = [Some 0, Some 1]"
    "timers s1 = snd (addTimer 250 (Some (BindOnTimer 0 (Some (Callback (OnTimeout 0 1 WRITE))))) False 500 7 (new_TimerManager 100))"
    using demo_block [of WRITE 250] by auto
  have t: "99 \<notin> set (m_timers (timers s1))" "only_due 750 7 (timers s1)"
    by (simp_all add: b(3) addTimer_def addTimer_locked_def new_TimerManager_def set_timer_def Let_def cmp.set_std_insert
        only_due_def armed_def detectClockRollover_def due_def new_Timer_def)
  have d: "do_io_block (\<lambda>_ _ _ _. 0) 1 WRITE 250 0 500 7 (w_tls demo_io_worker) (h_iom ?h) = Inr (True, l1, s1)"
    and tls: "w_tls demo_io_worker = demo_io_tls"
    using b(1) by (simp_all add: demo_io_worker_def)
  have fe: "first_effective [Err EAGAIN] (Err EAGAIN)"
    by (auto simp: first_effective_def EAGAIN_def EINTR_def intro!: exI [of _ "0 :: nat"])
  have ok: "running_on (w_tls demo_io_worker) (h_iom ?h) 1 0" "m_fibers (h_iom ?h) = []"
    "resumable (mem (h_iom ?h)) (w_idle_fiber demo_io_worker)" "w_idle_fiber demo_io_worker \<noteq> 1" "w_idle_fiber demo_io_worker \<noteq> 0"
    "iom_inv (h_iom ?h)" "cb_slot (spare_cb demo_io_worker) {1, 0, w_idle_fiber demo_io_worker} (mem (h_iom ?h))"
    "tm_inv (timers (h_iom ?h))" "7 \<notin> set (m_timers (timers (h_iom ?h)))" "length (m_fdContexts s1) < 2 ^ 31"
    using demo_io_worker_ok demo_inv demo_io_slot b(2) by (simp_all add: new_TimerManager_def)
  from hooked_call_times_out [OF demo_io_worker_ok(1) ok(1-9) call_event.simps(9) demo_send_enter _ fe d ok(10) refl t,
      of 510 131072 "\<lambda>_. Inr" 1 "Ret 0" 0 "[]"]
  obtain w6 :: "nat hook_cb callback worker" and wake h' where "runs w6 1" "m_fibers (h_iom h') = []" "registered (h_iom h') = registered demo_io"
     "hooked_io Io_send demo_kernel (\<lambda>_ _ _ _. 0) 1 (Ret 0) 0
       [\<lparr>r_calls = [Err EAGAIN], r_now = 500, r_timer = 7, r_errno = 0, r_tls = w_tls w6, r_wake = wake\<rparr>]
       demo_fdm (\<lambda>_. 0) (w_tls demo_io_worker) ?h = Inr (Some (Err ETIMEDOUT, w_tls w6, h'))"
    unfolding as_before_def by auto
  then show ?thesis unfolding tls demo_io_worker_ok(6) by blast
qed

end
