(* ===== verification/Connect.thy ===== *)
theory Connect
  imports Hooked_IO
begin

text \<open>
  The hooked \<^verbatim>\<open>connect\<close> of \<^verbatim>\<open>hook.cpp\<close> in the runtime: which calls go to the kernel alone, how a connection
  in progress ends by the event of the socket or by the timeout, and what becomes of it when the event cannot be registered.
\<close>

text \<open>A socket that the descriptor table manages and that the user left in blocking mode.\<close>

definition connect_managed :: "'k kernel \<Rightarrow> fd \<Rightarrow> fd_manager \<Rightarrow> 'k \<Rightarrow> bool" where
  "connect_managed K fd' fdm k \<longleftrightarrow> (case FdManager_get K fd' False fdm k of
     Inr (Some c, _) \<Rightarrow> \<not> m_isClosed c \<and> m_isSocket c \<and> \<not> m_userNonblock c
   | _ \<Rightarrow> False)"

lemma connect_in_progress:
  assumes "t_hook_enable l" and "connect_managed K fd' fdm k"
    and "do_io_block ctl fd' WRITE to ti now p l (h_iom h) = Inr (parked, l1, s1)"
  shows "connect to K ctl fd' (Err EINPROGRESS) ti now p wl wake so_error fdm k l h =
    (if parked then
       bindE (do_io_resume to ti p wake) (\<lambda>(err, h2).
       case err of
         Some e \<Rightarrow> Inr (Err e, wl, drop_tinfo ti h2)
       | None \<Rightarrow> Inr (connect_finish so_error, wl, drop_tinfo ti h2))
     else Inr (connect_finish so_error, l1, drop_tinfo ti (h\<lparr>h_iom := s1\<rparr>)))"
proof -
  obtain c m1 k1 where "FdManager_get K fd' False fdm k = Inr (Some c, m1, k1)" "\<not> m_isClosed c" "m_isSocket c" "\<not> m_userNonblock c"
    using assms(2) by (auto simp: connect_managed_def split: sum.splits option.splits prod.splits)
  then show ?thesis using assms(1,3) by (simp add: connect_def connect_with_timeout_def)
qed

lemma demo_connect_managed: "connect_managed demo_kernel 1 demo_fdm (\<lambda>_. 0)"
  by (simp add: connect_managed_def FdManager_get_eq demo_fdm_map demo_ctx_def)

section \<open>A connection in progress\<close>

lemma connect_completes:
  assumes "runs w f" and "running_on (w_tls w) (h_iom h) f m" and "m_fibers (h_iom h) = []"
    and "resumable (mem (h_iom h)) (w_idle_fiber w)" and "w_idle_fiber w \<noteq> f" and "w_idle_fiber w \<noteq> m"
    and "iom_inv (h_iom h)" and "Suc (registered (h_iom h)) < 2 ^ 64" and "tm_inv (timers (h_iom h))" and "p \<notin> set (m_timers (timers (h_iom h)))"
    and "do_io_block ctl fd' WRITE to ti now p (w_tls w) (h_iom h) = Inr (True, l1, s1)"
    and "context_at fd' s1 = Inr c" and "\<And>op fd evs p. ctl op fd evs p = 0"
    and "q \<notin> set (m_timers (timers s1))" and "no_timer_due now2 (timers s1)" and "connect_managed K fd' fdm k"
  shows "\<exists>w4 s4 h'. woken_by_event dflt ctl now1 now2 q n c WRITE f (w\<lparr>w_tls := l1\<rparr>) s1 w4 s4 \<and>
    connect to K ctl fd' (Err EINPROGRESS) ti now p (w_tls w4) \<lparr>h_iom = s4, h_tinfo = (h_tinfo h)(ti \<mapsto> 0)\<rparr> so_error fdm k (w_tls w) h =
      Inr (connect_finish so_error, w_tls w4, h') \<and>
    h_tinfo h' = (h_tinfo h)(ti := None) \<and> as_before f m w (h_iom h) w4 (h_iom h')"
proof -
  let ?ti = "(h_tinfo h)(ti \<mapsto> 0)"
  obtain w4 s4 tm where w: "woken_by_event dflt ctl now1 now2 q n c WRITE f (w\<lparr>w_tls := l1\<rparr>) s1 w4 s4"
    "do_io_resume to ti p \<lparr>h_iom = s4, h_tinfo = ?ti\<rparr> = Inr (None, \<lparr>h_iom = s4\<lparr>timers := tm\<rparr>, h_tinfo = ?ti\<rparr>)"
    "as_before f m w (h_iom h) w4 (s4\<lparr>timers := tm\<rparr>)"
    using wait_ready [OF assms(1-15), of ?ti dflt now1 n] by auto
  have "t_hook_enable (w_tls w)" using assms(2) by (simp add: running_on_def)
  note connect_in_progress [OF this assms(16,11), of "w_tls w4" "\<lparr>h_iom = s4, h_tinfo = ?ti\<rparr>" so_error]
  with w show ?thesis
    by (intro exI [of _ w4] exI [of _ s4] exI [of _ "\<lparr>h_iom = s4\<lparr>timers := tm\<rparr>, h_tinfo = (h_tinfo h)(ti := None)\<rparr>"])
      (simp add: drop_tinfo_def)
qed

lemma connect_times_out:
  assumes "runs w f" and "running_on (w_tls w) (h_iom h) f m" and "m_fibers (h_iom h) = []"
    and "resumable (mem (h_iom h)) (w_idle_fiber w)" and "w_idle_fiber w \<noteq> f" and "w_idle_fiber w \<noteq> m" and "iom_inv (h_iom h)"
    and "cb_slot (spare_cb w) {f, m, w_idle_fiber w} (mem (h_iom h))"
    and "tm_inv (timers (h_iom h))" and "p \<notin> set (m_timers (timers (h_iom h)))" and "to \<noteq> - 1"
    and "do_io_block ctl fd' WRITE to ti now p (w_tls w) (h_iom h) = Inr (True, l1, s1)"
    and "length (m_fdContexts s1) < 2 ^ 31" and "\<And>op fd evs p. ctl op fd evs p = 0"
    and "q \<notin> set (m_timers (timers s1))" and "only_due now2 p (timers s1)" and "0 < now1" and "connect_managed K fd' fdm k"
  shows "\<exists>w6 s6 h5 h'.
    woken_by_timer dflt ctl user tinfo_alive now1 now2 q n (timeout_cb ti fd' WRITE) ((h_tinfo h)(ti \<mapsto> 0)) f (w\<lparr>w_tls := l1\<rparr>) s1 w6 s6 h5 \<and>
    connect to K ctl fd' (Err EINPROGRESS) ti now p (w_tls w6) (h5\<lparr>h_iom := s6\<rparr>) so_error fdm k (w_tls w) h = Inr (Err ETIMEDOUT, w_tls w6, h') \<and>
    h_tinfo h' = (h_tinfo h)(ti := None) \<and> as_before f m w (h_iom h) w6 (h_iom h')"
proof -
  obtain w6 s6 h5 where w: "woken_by_timer dflt ctl user tinfo_alive now1 now2 q n (timeout_cb ti fd' WRITE) ((h_tinfo h)(ti \<mapsto> 0)) f (w\<lparr>w_tls := l1\<rparr>) s1 w6 s6 h5"
    "h_tinfo h5 = (h_tinfo h)(ti \<mapsto> 0, ti \<mapsto> ETIMEDOUT)"
    "do_io_resume to ti p (h5\<lparr>h_iom := s6\<rparr>) = Inr (Some ETIMEDOUT, h5\<lparr>h_iom := s6\<rparr>)" "as_before f m w (h_iom h) w6 s6"
    using wait_times_out [OF assms(1-17), of "(h_tinfo h)(ti \<mapsto> 0)" dflt user n] by auto
  have "t_hook_enable (w_tls w)" using assms(2) by (simp add: running_on_def)
  note connect_in_progress [OF this assms(18,12), of "w_tls w6" "h5\<lparr>h_iom := s6\<rparr>" so_error]
  with w show ?thesis
    by (intro exI [of _ w6] exI [of _ s6] exI [of _ h5] exI [of _ "\<lparr>h_iom = s6, h_tinfo = (h_tinfo h)(ti := None)\<rparr>"])
      (simp add: drop_tinfo_def)
qed

section \<open>A connection whose event is not registered\<close>

text \<open>
  When \<open>addEvent\<close> fails, the code goes on to \<^verbatim>\<open>getsockopt(SO_ERROR)\<close>, which reports no error while the connection is still in progress:
  the hooked call returns 0, the value for an established connection, without having waited.
\<close>

theorem connect_false_success:
  assumes "t_hook_enable l" and "connect_managed K fd' fdm k"
    and "do_io_block ctl fd' WRITE to ti now p l (h_iom h) = Inr (False, l1, s1)"
  shows "\<exists>h'. connect to K ctl fd' (Err EINPROGRESS) ti now p wl wake (Ret 0) fdm k l h = Inr (Ret 0, l1, h')"
  using connect_in_progress [OF assms, of wl wake "Ret 0"] by (simp add: connect_finish_def)

theorem connect_false_success_witness:
  "\<exists>l1 h'. connect (- 1) demo_kernel (\<lambda>_ _ _ _. - 1) 1 (Err EINPROGRESS) 0 500 7 demo_io_tls \<lparr>h_iom = demo_io, h_tinfo = Map.empty\<rparr> (Ret 0)
     demo_fdm (\<lambda>_. 0) demo_io_tls \<lparr>h_iom = demo_io, h_tinfo = Map.empty\<rparr> = Inr (Ret 0, l1, h')"
proof -
  let ?h = "\<lparr>h_iom = demo_io, h_tinfo = Map.empty\<rparr>"
  have "int_size demo_io = 2" using int_size_eq [of demo_io] by (simp add: demo_io_def)
  then have find: "addEvent_find 1 demo_io = Inr (Some 1)"
    by (simp add: addEvent_find_def context_at_def demo_io_def)
  moreover have "ctx_heap demo_io 1 = new_FdContext 1" "IOManager_GetThis demo_io_tls demo_io = Some ()"
    by (simp_all add: IOManager_GetThis_def demo_io_tls_def demo_io_def)
  ultimately obtain l1 s1 where b: "do_io_block (\<lambda>_ _ _ _. - 1) 1 WRITE (- 1) 0 500 7 demo_io_tls (h_iom ?h) = Inr (False, l1, s1)"
    by (simp add: do_io_block_def addEvent_def addEvent_locked_def Let_def new_FdContext_def empty_context_def)
  have "t_hook_enable demo_io_tls" by (simp add: demo_io_tls_def)
  from connect_false_success [OF this demo_connect_managed b] show ?thesis by blast
qed

end
