(* ===== verification/Closing.thy ===== *)
theory Closing
  imports Hooked_IO
begin

text \<open>
  The hooked \<^verbatim>\<open>close\<close> of \<^verbatim>\<open>hook.cpp\<close> with \<^verbatim>\<open>IOManager::cancelAll\<close> and the descriptor table: the fibers that wait on the descriptor are
  released, and nothing of the descriptor is left.
\<close>

unbundle bit_operations_syntax

lemma cancelAll_releases:
  fixes s :: "'c iom"
  assumes inv: "iom_inv s" and "fd' < int_size s" and at: "context_at fd' s = Inr p" and e: "e = fc_events (ctx_heap s p)"
    and own: "\<forall>ev. is_event ev \<and> e AND ev \<noteq> 0 \<longrightarrow> ec_scheduler (event_ctx ev (ctx_heap s p)) = Some (self_ptr s)"
    and ctl: "ctl EPOLL_CTL_DEL fd' 0 p = 0"
  shows "\<exists>s'. cancelAll ctl fd' s = Inr (e \<noteq> 0, s') \<and> iom_inv s' \<and>
    m_fibers s' = m_fibers s @ (if e AND READ \<noteq> 0 then [task_of_ctx (fc_read (ctx_heap s p))] else [])
                             @ (if e AND WRITE \<noteq> 0 then [task_of_ctx (fc_write (ctx_heap s p))] else []) \<and>
    fc_events (ctx_heap s' p) = 0 \<and> m_pendingEventCount s' = m_pendingEventCount s - of_bool (e AND READ \<noteq> 0) - of_bool (e AND WRITE \<noteq> 0)"
proof (cases "e = 0")
  case True
  then have "cancelAll ctl fd' s = Inr (False, s)" using assms by (simp add: cancelAll_def)
  then show ?thesis using True e inv by simp
next
  case False
  have p: "p < next_ctx s" using context_at_inv(1) [OF inv at] .
  have ev: "ev_ok e" using ctx_ok_at [OF inv p] e by (simp add: ctx_ok_def)
  let ?r = "e AND READ \<noteq> 0" and ?w = "e AND WRITE \<noteq> 0"
  obtain s1 s2 where s1: "trigger_if ?r READ p s = Inr s1" and s2: "trigger_if ?w WRITE p s1 = Inr s2"
    and fin: "m_fibers s2 = m_fibers s @ (if ?r then [task_of_ctx (fc_read (ctx_heap s p))] else [])
                             @ (if ?w then [task_of_ctx (fc_write (ctx_heap s p))] else [])"
      "fc_events (ctx_heap s2 p) = e AND NOT ((if ?r then READ else 0) OR (if ?w then WRITE else 0))"
      "m_pendingEventCount s2 = m_pendingEventCount s - of_bool ?r - of_bool ?w"
    using trigger_both_deliver [OF inv p e own, of ?r ?w] by blast
  have "fc_events (ctx_heap s1 p) = (if ?r then e AND NOT READ else e)"
    using trigger_if_inv [OF inv p _ s1] e by auto
  then have w: "fc_events (ctx_heap s1 p) AND WRITE \<noteq> 0 \<longleftrightarrow> ?w" using ev by (auto simp: ev_ok_def)
  have none: "fc_events (ctx_heap s2 p) = 0" using fin(2) ev by (auto simp: ev_ok_def event_defs)
  have "cancelAll ctl fd' s = Inr (True, s2)"
    using False assms(2) at ctl s1 s2 none by (simp add: cancelAll_def w SYLAR_ASSERT_def e [symmetric])
  moreover from cancelAll_inv [OF inv this] have "iom_inv s2" by blast
  ultimately show ?thesis using False fin none by (intro exI [of _ s2]) simp
qed

text \<open>
  C7. Closing a descriptor leaves nobody waiting on it and nothing of it behind. On a thread with hooks
  enabled that belongs to the manager, \<open>close\<close> of a descriptor of the table queues the fiber or
  callback that waits to read and then the one that waits to write, in this order, exactly once each
  and behind what was queued before; no event stays registered on the descriptor, the pending count
  drops by the number of waiters, the entry of the table is gone and every other entry is kept, and
  the value returned is the one of the original function. A hooked call made on the same number
  afterwards goes straight to the original function, and a second \<open>close\<close> releases nobody.
\<close>

theorem close_releases:
  fixes s :: "'c iom"
  assumes inv: "iom_inv s" and hook: "t_hook_enable l" and own_thread: "IOManager_GetThis l s \<noteq> None"
    and nn: "0 \<le> fd'" and tab: "fd_map fdm fd' = Some c"
    and "fd' < int_size s" and "context_at fd' s = Inr p" and e: "e = fc_events (ctx_heap s p)"
    and own: "\<forall>ev. is_event ev \<and> e AND ev \<noteq> 0 \<longrightarrow> ec_scheduler (event_ctx ev (ctx_heap s p)) = Some (self_ptr s)"
    and ctl: "ctl EPOLL_CTL_DEL fd' 0 p = 0"
  shows "\<exists>m' s'. close K ctl close_f fd' fdm k l s = Inr (close_f fd', m', s') \<and> iom_inv s' \<and>
    m_fibers s' = m_fibers s @ (if e AND READ \<noteq> 0 then [task_of_ctx (fc_read (ctx_heap s p))] else [])
                             @ (if e AND WRITE \<noteq> 0 then [task_of_ctx (fc_write (ctx_heap s p))] else []) \<and>
    fc_events (ctx_heap s' p) = 0 \<and>
    m_pendingEventCount s' = m_pendingEventCount s - of_bool (e AND READ \<noteq> 0) - of_bool (e AND WRITE \<noteq> 0) \<and>
    fd_map m' = (fd_map fdm)(fd' := None) \<and>
    do_io_enter K fd' so l m' k = Inr Direct \<and>
    close K ctl close_f fd' m' k l s' = Inr (close_f fd', m', s')"
proof -
  obtain s' where s': "cancelAll ctl fd' s = Inr (e \<noteq> 0, s')" "iom_inv s'"
    "m_fibers s' = m_fibers s @ (if e AND READ \<noteq> 0 then [task_of_ctx (fc_read (ctx_heap s p))] else [])
                             @ (if e AND WRITE \<noteq> 0 then [task_of_ctx (fc_write (ctx_heap s p))] else [])"
    "fc_events (ctx_heap s' p) = 0"
    "m_pendingEventCount s' = m_pendingEventCount s - of_bool (e AND READ \<noteq> 0) - of_bool (e AND WRITE \<noteq> 0)"
    using cancelAll_releases [OF inv assms(6,7) e own, of ctl] ctl by blast
  have v: "fd_valid fdm fd'" using tab nn by (auto simp: fd_valid_def fd_map_def split: if_splits)
  then obtain m' where m': "FdManager_del fd' fdm = Inr m'"
    using tbl.put_valid [OF v, of None] by (cases "int (length (m_datas fdm)) \<le> fd'") (auto simp: FdManager_del_def)
  then have map: "fd_map m' = (fd_map fdm)(fd' := None)" using FdManager_del_eq [OF nn] by blast
  then have "close K ctl close_f fd' m' k l s' = Inr (close_f fd', m', s')" "do_io_enter K fd' so l m' k = Inr Direct"
    using hook nn by (simp_all add: close_def do_io_enter_def FdManager_get_eq)
  moreover have "close K ctl close_f fd' fdm k l s = Inr (close_f fd', m', s')"
    using hook own_thread nn tab s'(1) m' by (simp add: close_def FdManager_get_eq)
  ultimately show ?thesis using s' map by (intro exI [of _ m'] exI [of _ s'] conjI)
qed

definition demo_waiting :: "nat hook_cb iom" where
  "demo_waiting = demo_io\<lparr>m_pendingEventCount := 2, ctx_heap := (ctx_heap demo_io)(1 :=
     \<lparr>fc_read = \<lparr>ec_scheduler = Some 9, ec_fiber = Some 2, ec_cb = None\<rparr>,
      fc_write = \<lparr>ec_scheduler = Some 9, ec_fiber = None, ec_cb = Some (Callback (User 5))\<rparr>, fc_fd = 1, fc_events = READ OR WRITE\<rparr>)\<rparr>"

lemma demo_waiting_inv: "iom_inv demo_waiting"
  by (auto simp: iom_inv_def demo_waiting_def demo_io_def registered_def less_Suc_eq numeral_2_eq_2 ctx_ok_def ev_ok_def ec_ok_def ev_count_def new_FdContext_def)

theorem close_releases_witness:
  "\<exists>m' s'. close demo_kernel (\<lambda>_ _ _ _. 0) (\<lambda>_. 0) 1 demo_fdm (\<lambda>_. 0) demo_io_tls demo_waiting = Inr (0, m', s') \<and>
     m_fibers s' = [FT_fiber (Some 2) (- 1), FT_cb (Some (Callback (User 5))) (- 1)] \<and>
     m_pendingEventCount s' = 0 \<and> fd_map m' 1 = None"
proof -
  have d: "m_fdContexts demo_waiting = [Some 0, Some 1]" "self_ptr demo_waiting = 9" "m_fibers demo_waiting = []"
      "m_pendingEventCount demo_waiting = 2" "fc_events (ctx_heap demo_waiting 1) = READ OR WRITE"
      "fc_read (ctx_heap demo_waiting 1) = \<lparr>ec_scheduler = Some 9, ec_fiber = Some 2, ec_cb = None\<rparr>"
      "fc_write (ctx_heap demo_waiting 1) = \<lparr>ec_scheduler = Some 9, ec_fiber = None, ec_cb = Some (Callback (User 5))\<rparr>"
    by (simp_all add: demo_waiting_def demo_io_def)
  then have "1 < int_size demo_waiting" "context_at 1 demo_waiting = Inr 1"
    by (simp_all add: int_size_eq context_at_def)
  moreover have "t_hook_enable demo_io_tls" "IOManager_GetThis demo_io_tls demo_waiting \<noteq> None"
    using d(2) by (simp_all add: IOManager_GetThis_def demo_io_tls_def)
  moreover have "\<forall>ev. is_event ev \<and> (READ OR WRITE) AND ev \<noteq> 0 \<longrightarrow>
      ec_scheduler (event_ctx ev (ctx_heap demo_waiting 1)) = Some (self_ptr demo_waiting)"
    using d by (auto simp: event_ctx_def)
  ultimately show ?thesis
    using close_releases [OF demo_waiting_inv, where l = demo_io_tls and fd' = 1 and fdm = demo_fdm and c = demo_ctx and p = 1
        and e = "READ OR WRITE" and ctl = "\<lambda>_ _ _ _. 0" and close_f = "\<lambda>_. 0" and K = demo_kernel and k = "\<lambda>_. 0" and so = 0]
      d demo_fdm_map by (auto simp: task_of_ctx_def)
qed

end
