(* ===== verification/Drain.thy ===== *)
theory Drain
  imports Hooked_IO "HOL-Library.Multiset"
begin

text \<open>
  A worker and its queue: the turns of \<^verbatim>\<open>Scheduler::run\<close> that take callbacks, put together until nothing is
  left for the thread. Callbacks may schedule further callbacks and may end with an exception.
\<close>

section \<open>The turns of a worker\<close>

text \<open>Calls of \<^verbatim>\<open>schedule\<close>, one after the other.\<close>

fun schedule_all ::
  "(('c, 'z) sched_scheme \<Rightarrow> ('c, 'z) sched_scheme) \<Rightarrow> 'c task list \<Rightarrow> ('c, 'z) sched_scheme \<Rightarrow> ('c, 'z) sched_scheme" where
  "schedule_all tickle [] s = s"
| "schedule_all tickle (ft # fts) s = schedule_all tickle fts (schedule tickle ft s)"

text \<open>
  One turn of the loop that runs a callback \<open>c\<close>: the search, the switch to the fiber of the callback, the callback itself, which
  schedules the callbacks \<open>spawn c\<close> and ends as \<open>out c\<close> says, the end of the fiber's entry function, and the code behind
  the switch.
\<close>

definition cb_turn ::
  "u32 \<Rightarrow> (('c, 'z) sched_scheme \<Rightarrow> ('c, 'z) sched_scheme) \<Rightarrow> ('c \<Rightarrow> 'c list) \<Rightarrow> ('c \<Rightarrow> outcome) \<Rightarrow> 'c worker \<Rightarrow>
   ('c, 'z) sched_scheme \<Rightarrow> ('c \<times> 'c worker \<times> ('c, 'z) sched_scheme) res" where
  "cb_turn fiber_stack_size tickle spawn out w s =
     bindE (run_pick w s) (\<lambda>(w1, s1).
     bindE (run_dispatch fiber_stack_size tickle w1 s1) (\<lambda>(w2, s2).
     bindE (deref (w_cb_fiber w2) ''cb_fiber'') (\<lambda>g.
     bindE (deref (m_fiber_cb (fibers (mem s2) g)) ''m_cb'') (\<lambda>c.
     let s3 = schedule_all tickle (map (\<lambda>d. FT_cb (Some d) (- 1)) (spawn c)) s2
     in bindE (MainFunc g (out c) (w_tls w2) (mem s3)) (\<lambda>(l, mm).
        bindE (run_return tickle (w2\<lparr>w_tls := l\<rparr>) (s3\<lparr>mem := mm\<rparr>)) (\<lambda>(w4, s4). Inr (c, w4, s4)))))))"

text \<open>Turns until every task left is bound to another thread, at most \<open>n\<close>; the result lists the callbacks in the order they ran.\<close>

fun drain ::
  "u32 \<Rightarrow> (('c, 'z) sched_scheme \<Rightarrow> ('c, 'z) sched_scheme) \<Rightarrow> ('c \<Rightarrow> 'c list) \<Rightarrow> ('c \<Rightarrow> outcome) \<Rightarrow> nat \<Rightarrow> 'c worker \<Rightarrow>
   ('c, 'z) sched_scheme \<Rightarrow> ('c list \<times> 'c worker \<times> ('c, 'z) sched_scheme) res" where
  "drain fiber_stack_size tickle spawn out 0 w s = Inr ([], w, s)"
| "drain fiber_stack_size tickle spawn out (Suc n) w s =
     (if list_all (other_thread (w_tid w)) (m_fibers s) then Inr ([], w, s)
      else
        bindE (cb_turn fiber_stack_size tickle spawn out w s) (\<lambda>(c, w1, s1).
        bindE (drain fiber_stack_size tickle spawn out n w1 s1) (\<lambda>(cs, w2, s2). Inr (c # cs, w2, s2))))"

section \<open>One turn\<close>

text \<open>
  Between two turns: the worker is at the top of its loop, its idle fiber can be resumed, its callback fiber is free, and the thread's
  scheduling fiber \<open>m\<close> can be switched to.
\<close>

definition at_rest :: "'c worker \<Rightarrow> fiber_ptr \<Rightarrow> 'c fiber_mem \<Rightarrow> bool" where
  "at_rest w m mm \<longleftrightarrow> worker_at_top w m \<and> cb_slot (w_cb_fiber w) {w_idle_fiber w, m} mm \<and>
     resumable mm (w_idle_fiber w) \<and> m_fiber_cb (fibers mm (w_idle_fiber w)) \<noteq> None \<and> m \<noteq> w_idle_fiber w \<and> m_ctx (fibers mm m) \<noteq> AtEnd"

text \<open>The worker is inside its idle fiber.\<close>

definition in_idle :: "'c worker \<Rightarrow> fiber_ptr \<Rightarrow> 'c fiber_mem \<Rightarrow> bool" where
  "in_idle w m mm \<longleftrightarrow> w_pc w = InIdle \<and> t_fiber (w_tls w) = Some (w_idle_fiber w) \<and> state_of mm (w_idle_fiber w) = EXEC \<and>
     t_scheduler_fiber (w_tls w) = Some m \<and> m_fiber_cb (fibers mm (w_idle_fiber w)) \<noteq> None \<and> m \<noteq> w_idle_fiber w \<and>
     m_ctx (fibers mm m) \<noteq> AtEnd"

text \<open>A callback task that the thread may take.\<close>

definition cb_for :: "thread_id \<Rightarrow> 'c \<Rightarrow> 'c task \<Rightarrow> bool" where
  "cb_for tid c ft \<longleftrightarrow> ft_fiber ft = None \<and> ft_cb ft = Some c \<and> \<not> other_thread tid ft"

text \<open>The callbacks of a queue that the thread may take, in order.\<close>

definition cbs_for :: "thread_id \<Rightarrow> 'c task list \<Rightarrow> 'c list" where
  "cbs_for tid q = map (\<lambda>ft. the (ft_cb ft)) (filter (\<lambda>ft. \<not> other_thread tid ft) q)"

definition only_cbs :: "'c task list \<Rightarrow> bool" where
  "only_cbs q \<longleftrightarrow> list_all (\<lambda>ft. ft_fiber ft = None \<and> ft_cb ft \<noteq> None) q"

lemma cbs_for_simps [simp]:
  "cbs_for tid [] = []"
  "cbs_for tid (ft # q) = (if other_thread tid ft then cbs_for tid q else the (ft_cb ft) # cbs_for tid q)"
  "cbs_for tid (p @ q) = cbs_for tid p @ cbs_for tid q"
  by (simp_all add: cbs_for_def)

lemma cbs_for_others: "\<forall>ft \<in> set q. other_thread tid ft \<Longrightarrow> cbs_for tid q = []"
  by (auto simp: cbs_for_def filter_empty_conv)

lemma new_cbs [simp]:
  "cbs_for tid (map (\<lambda>d. FT_cb (Some d) (- 1)) ds) = ds" "only_cbs (map (\<lambda>d. FT_cb (Some d) (- 1)) ds)"
  "filter (other_thread tid) (map (\<lambda>d. FT_cb (Some d) (- 1)) ds) = []"
  by (induction ds) (simp_all add: only_cbs_def FT_cb_def other_thread_def)

lemma first_own_task:
  assumes "only_cbs q" and "\<not> list_all (other_thread tid) q"
  obtains pre ft post c where "q = pre @ ft # post" "\<forall>t \<in> set pre. task_ok t \<and> other_thread tid t" "cb_for tid c ft"
    "only_cbs (pre @ post)" "cbs_for tid q = c # cbs_for tid (pre @ post)"
    "filter (other_thread tid) q = filter (other_thread tid) (pre @ post)"
proof -
  have "\<exists>ft \<in> set q. \<not> other_thread tid ft" using assms(2) by (auto simp: list_all_iff)
  from split_list_first_prop [OF this] obtain pre ft post
    where q: "q = pre @ ft # post" "\<not> other_thread tid ft" "\<forall>t \<in> set pre. other_thread tid t" by auto
  moreover from this assms(1) obtain c where "ft_fiber ft = None" "ft_cb ft = Some c" by (auto simp: only_cbs_def)
  ultimately show ?thesis using assms(1)
    by (intro that [of pre ft post c]) (auto simp: only_cbs_def list_all_iff task_ok_def cb_for_def cbs_for_others)
qed

lemma cb_fiber_next:
  assumes "(case cb_fiber of
        Some f \<Rightarrow> bindE (Fiber_reset (Some cb) f mm) (\<lambda>m. Inr (f, m))
      | None \<Rightarrow> Inr (new_Fiber dflt (Some cb) 0 False mm)) = Inr (g, mg)"
  shows "next_fiber mm \<le> next_fiber mg"
  using assms by (cases cb_fiber) (auto simp: new_Fiber_def Fiber_reset_def Let_def bindE_eq_Inr set_fiber_def)

lemma run_pick_cb:
  assumes "m_fibers s = pre @ ft # post" and "\<forall>t \<in> set pre. task_ok t \<and> other_thread (w_tid w) t" and "cb_for (w_tid w) c ft"
  shows "run_pick w s = Inr (w\<lparr>w_ft := ft, w_tickle_me := (pre \<noteq> [] \<or> post \<noteq> []), w_is_active := True, w_pc := Picked\<rparr>,
    s\<lparr>m_fibers := pre @ post, m_activeThreadCount := m_activeThreadCount s + 1\<rparr>)"
proof -
  have "\<forall>t \<in> set pre. task_ok t \<and> \<not> eligible (w_tid w) (state_of (mem s)) t" "task_ok ft" "eligible (w_tid w) (state_of (mem s)) ft"
    using assms(2,3) by (auto simp: cb_for_def eligible_def task_ok_def)
  moreover have "(\<exists>t \<in> set pre. other_thread (w_tid w) t) \<longleftrightarrow> pre \<noteq> []" using assms(2) by (cases pre) auto
  ultimately show ?thesis using assms(1) by (simp add: run_pick_def run_scan_some)
qed

lemma MainFunc_ends:
  assumes "t_scheduler_fiber l = Some m" and "m \<noteq> g" and "m_ctx (fibers mm m) \<noteq> AtEnd" and "m_stack (fibers mm g)"
  shows "\<exists>m1 m2. MainFunc g out l mm = Inr (l\<lparr>t_fiber := Some m, t_cpu := Some m\<rparr>, m1) \<and>
    (state_of m1 g = TERM' \<or> state_of m1 g = EXCEPT) \<and> Fiber_reset None g m1 = Inr m2 \<and>
    state_of m2 g = INIT \<and> m_stack (fibers m2 g) \<and> next_fiber m2 = next_fiber mm \<and> (\<forall>x. x \<noteq> g \<longrightarrow> fibers m2 x = fibers mm x)"
  using assms by (simp add: MainFunc_def swapOut_Inr bindE_eq_Inr Fiber_reset_def finish_cb_def Let_def)

text \<open>What the turns leave of the scheduler: the tasks of other threads, the counters and the flags.\<close>

definition drained :: "'c worker \<Rightarrow> ('c, 'z) sched_scheme \<Rightarrow> ('c, 'z) sched_scheme \<Rightarrow> bool" where
  "drained w s s' \<longleftrightarrow> m_fibers s' = filter (other_thread (w_tid w)) (m_fibers s) \<and>
     m_activeThreadCount s' = m_activeThreadCount s \<and> m_idleThreadCount s' = m_idleThreadCount s \<and>
     m_stopping s' = m_stopping s \<and> m_autoStop s' = m_autoStop s"

context scheduler_virtuals
begin

lemma schedule_all_fields:
  "m_fibers (schedule_all tick fts s) = m_fibers s @ filter task_ok fts"
  "mem (schedule_all tick fts s) = mem s"
  "m_activeThreadCount (schedule_all tick fts s) = m_activeThreadCount s"
  "m_idleThreadCount (schedule_all tick fts s) = m_idleThreadCount s"
  "m_stopping (schedule_all tick fts s) = m_stopping s" "m_autoStop (schedule_all tick fts s) = m_autoStop s"
  by (induction fts arbitrary: s) (simp_all add: schedule_fields, simp_all add: schedule_def schedulerNoLock_def Let_def)

lemma run_dispatch_cb:
  assumes "ft_fiber (w_ft w) = None" and "ft_cb (w_ft w) = Some c" and tls: "t_scheduler_fiber (w_tls w) = Some m"
    and slot: "cb_slot (w_cb_fiber w) others (mem s)" and "m \<in> others"
  shows "\<exists>g m2. run_dispatch dflt tick w s =
      Inr (w\<lparr>w_ft := FT_reset, w_cb_fiber := Some g, w_tls := (w_tls w)\<lparr>t_fiber := Some g, t_cpu := Some g\<rparr>, w_pc := InCb\<rparr>,
           (if w_tickle_me w then tick s else s)\<lparr>mem := m2\<rparr>) \<and>
    g \<notin> others \<and> m_stack (fibers m2 g) \<and> m_fiber_cb (fibers m2 g) = Some c \<and> m_ctx (fibers m2 m) \<noteq> AtEnd \<and>
    next_fiber (mem s) \<le> next_fiber m2 \<and> (\<forall>x \<in> others - {m}. fibers m2 x = fibers (mem s) x)"
proof -
  obtain g mg where g: "(case w_cb_fiber w of
        Some f \<Rightarrow> bindE (Fiber_reset (Some c) f (mem s)) (\<lambda>m. Inr (f, m))
      | None \<Rightarrow> Inr (new_Fiber dflt (Some c) 0 False (mem s))) = Inr (g, mg)"
    "g \<notin> others" "resumable mg g" "m_stack (fibers mg g)" "m_fiber_cb (fibers mg g) = Some c"
    "\<forall>x \<in> others. fibers mg x = fibers (mem s) x"
    using cb_fiber_ready [OF slot, of dflt c] by (elim exE conjE)
  have "run_dispatch dflt tick w s =
      Inr (w\<lparr>w_ft := FT_reset, w_cb_fiber := Some g, w_tls := (w_tls w)\<lparr>t_fiber := Some g, t_cpu := Some g\<rparr>, w_pc := InCb\<rparr>,
           (if w_tickle_me w then tick s else s)\<lparr>mem := save m (set_state g EXEC mg)\<rparr>)"
    using g(1) assms(1,2) swapIn_resumable [OF g(3) tls]
    by (cases "w_cb_fiber w") (auto simp: run_dispatch_def worker_swapIn_def Let_def bindE_eq_Inr)
  then show ?thesis
    using g(2,4-6) assms(5) cb_fiber_next [OF g(1)]
    by (intro exI [of _ g] exI [of _ "save m (set_state g EXEC mg)"]) auto
qed

lemma cb_turn_ok:
  assumes rest: "at_rest w m (mem s)" and q: "m_fibers s = pre @ ft # post"
    and pre: "\<forall>t \<in> set pre. task_ok t \<and> other_thread (w_tid w) t" and ft: "cb_for (w_tid w) c ft"
  shows "\<exists>w' s'. cb_turn dflt tick spawn out w s = Inr (c, w', s') \<and> at_rest w' m (mem s') \<and>
    w_tid w' = w_tid w \<and> w_idle_fiber w' = w_idle_fiber w \<and>
    m_fibers s' = pre @ post @ map (\<lambda>d. FT_cb (Some d) (- 1)) (spawn c) \<and>
    m_activeThreadCount s' = m_activeThreadCount s \<and> m_idleThreadCount s' = m_idleThreadCount s \<and>
    m_stopping s' = m_stopping s \<and> m_autoStop s' = m_autoStop s"
proof -
  let ?i = "w_idle_fiber w" and ?new = "map (\<lambda>d. FT_cb (Some d) (- 1)) (spawn c)"
  have tls: "t_scheduler_fiber (w_tls w) = Some m" and slot: "cb_slot (w_cb_fiber w) {?i, m} (mem s)"
    using rest by (simp_all add: at_rest_def worker_at_top_def)
  let ?w1 = "w\<lparr>w_ft := ft, w_tickle_me := (pre \<noteq> [] \<or> post \<noteq> []), w_is_active := True, w_pc := Picked\<rparr>"
  let ?s1 = "s\<lparr>m_fibers := pre @ post, m_activeThreadCount := m_activeThreadCount s + 1\<rparr>"
  obtain g m2 where g: "run_dispatch dflt tick ?w1 ?s1 =
      Inr (?w1\<lparr>w_ft := FT_reset, w_cb_fiber := Some g, w_tls := (w_tls w)\<lparr>t_fiber := Some g, t_cpu := Some g\<rparr>, w_pc := InCb\<rparr>,
           (if w_tickle_me ?w1 then tick ?s1 else ?s1)\<lparr>mem := m2\<rparr>)"
    "g \<notin> {?i, m}" "m_stack (fibers m2 g)" "m_fiber_cb (fibers m2 g) = Some c" "m_ctx (fibers m2 m) \<noteq> AtEnd"
    "next_fiber (mem s) \<le> next_fiber m2" "\<forall>x \<in> {?i, m} - {m}. fibers m2 x = fibers (mem s) x"
    using run_dispatch_cb [of ?w1 c m "{?i, m}" ?s1 dflt] ft tls slot by (auto simp: cb_for_def)
  let ?l2 = "(w_tls w)\<lparr>t_fiber := Some g, t_cpu := Some g\<rparr>" and ?l3 = "(w_tls w)\<lparr>t_fiber := Some m, t_cpu := Some m\<rparr>"
  let ?w2 = "?w1\<lparr>w_ft := FT_reset, w_cb_fiber := Some g, w_tls := ?l2, w_pc := InCb\<rparr>"
  define s2 where "s2 = (if w_tickle_me ?w1 then tick ?s1 else ?s1)\<lparr>mem := m2\<rparr>"
  have disp: "run_dispatch dflt tick ?w1 ?s1 = Inr (?w2, s2)" and mem: "mem s2 = m2" using g(1) by (simp_all only: s2_def) simp
  define s3 where "s3 = schedule_all tick ?new s2"
  have s3: "mem s3 = m2" "m_fibers s3 = pre @ post @ ?new" "m_activeThreadCount s3 = m_activeThreadCount s + 1"
    "m_idleThreadCount s3 = m_idleThreadCount s" "m_stopping s3 = m_stopping s" "m_autoStop s3 = m_autoStop s"
    by (simp_all add: s3_def s2_def schedule_all_fields task_ok_def FT_cb_def filter_map o_def)
  obtain m3 m4 where fin: "MainFunc g (out c) ?l2 m2 = Inr (?l3, m3)"
    "state_of m3 g = TERM' \<or> state_of m3 g = EXCEPT" "Fiber_reset None g m3 = Inr m4"
    "state_of m4 g = INIT" "m_stack (fibers m4 g)" "next_fiber m4 = next_fiber m2" "\<forall>x. x \<noteq> g \<longrightarrow> fibers m4 x = fibers m2 x"
    using MainFunc_ends [of ?l2 m g m2 "out c"] tls g(2,3,5) by auto
  let ?w4 = "?w2\<lparr>w_tls := ?l3, w_pc := AtTop\<rparr>" and ?s4 = "s3\<lparr>m_activeThreadCount := m_activeThreadCount s3 - 1, mem := m4\<rparr>"
  have "run_return tick (?w2\<lparr>w_tls := ?l3\<rparr>) (s3\<lparr>mem := m3\<rparr>) = Inr (?w4, ?s4)"
    using fin(2,3) by (auto simp: run_return_def)
  then have "cb_turn dflt tick spawn out w s = Inr (c, ?w4, ?s4)"
    using run_pick_cb [OF q pre ft] disp mem g(4) fin(1) s3(1) by (simp add: cb_turn_def Let_def s3_def [symmetric])
  moreover have "at_rest ?w4 m (mem ?s4)"
    using rest g(2,5-7) fin(4-7) by (auto simp: at_rest_def worker_at_top_def cb_slot_def resumable_def)
  ultimately show ?thesis using s3 by (intro exI [of _ ?w4] exI [of _ ?s4]) simp
qed

lemma drain_ends:
  assumes wf: "wf {(d, c). d \<in> set (spawn c)}" and "at_rest w m (mem s)" and "only_cbs (m_fibers s)"
  shows "\<exists>N order w' s'. (\<forall>n \<ge> N. drain dflt tick spawn out n w s = Inr (order, w', s')) \<and>
    order = cbs_for (w_tid w) (m_fibers s) @ concat (map spawn order) \<and>
    drained w s s' \<and> at_rest w' m (mem s') \<and> w_tid w' = w_tid w \<and> w_idle_fiber w' = w_idle_fiber w"
  using assms(2,3)
proof (induction "mset (cbs_for (w_tid w) (m_fibers s))" arbitrary: w s rule: wf_induct_rule [OF wf_mult [OF wf]])
  case 1
  show ?case
  proof (cases "list_all (other_thread (w_tid w)) (m_fibers s)")
    case True
    then have "drain dflt tick spawn out n w s = Inr ([], w, s)" for n by (cases n) simp_all
    then show ?thesis using True 1(2) by (intro exI [of _ 0] exI [of _ "[]"] exI [of _ w] exI [of _ s])
      (auto simp: list_all_iff cbs_for_others drained_def)
  next
    case False
    obtain pre ft post c where q: "m_fibers s = pre @ ft # post" "\<forall>t \<in> set pre. task_ok t \<and> other_thread (w_tid w) t"
      "cb_for (w_tid w) c ft" "only_cbs (pre @ post)" "cbs_for (w_tid w) (m_fibers s) = c # cbs_for (w_tid w) (pre @ post)"
      "filter (other_thread (w_tid w)) (m_fibers s) = filter (other_thread (w_tid w)) (pre @ post)"
      using first_own_task [OF 1(3) False] by metis
    obtain w1 s1 where t: "cb_turn dflt tick spawn out w s = Inr (c, w1, s1)" "at_rest w1 m (mem s1)" "w_tid w1 = w_tid w"
      "w_idle_fiber w1 = w_idle_fiber w" "m_fibers s1 = pre @ post @ map (\<lambda>d. FT_cb (Some d) (- 1)) (spawn c)"
      "m_activeThreadCount s1 = m_activeThreadCount s" "m_idleThreadCount s1 = m_idleThreadCount s"
      "m_stopping s1 = m_stopping s" "m_autoStop s1 = m_autoStop s"
      using cb_turn_ok [OF 1(2) q(1-3), of dflt spawn out] by blast
    have cbs: "cbs_for (w_tid w1) (m_fibers s1) = cbs_for (w_tid w) (pre @ post) @ spawn c" using t(3,5) by simp
    have less: "(mset (cbs_for (w_tid w1) (m_fibers s1)), mset (cbs_for (w_tid w) (m_fibers s))) \<in> mult {(d, c). d \<in> set (spawn c)}"
      using one_step_implies_mult [of "{#c#}" "mset (spawn c)" "{(d, c). d \<in> set (spawn c)}" "mset (cbs_for (w_tid w) (pre @ post))"]
      by (simp add: cbs q(5) add.assoc)
    have "only_cbs (m_fibers s1)" using q(4) t(5) new_cbs(2) [of "spawn c"] by (simp add: only_cbs_def del: new_cbs)
    from 1(1) [OF less t(2) this] obtain N order w' s'
      where r: "\<forall>n \<ge> N. drain dflt tick spawn out n w1 s1 = Inr (order, w', s')"
        "order = cbs_for (w_tid w1) (m_fibers s1) @ concat (map spawn order)"
        "drained w1 s1 s'" "at_rest w' m (mem s')" "w_tid w' = w_tid w1" "w_idle_fiber w' = w_idle_fiber w1"
      by blast
    have "drain dflt tick spawn out n w s = Inr (c # order, w', s')" if "Suc N \<le> n" for n
      using that r(1) False t(1) by (cases n) simp_all
    moreover have "c # order = cbs_for (w_tid w) (m_fibers s) @ concat (map spawn (c # order))"
      using r(2) by (simp add: cbs q(5))
    moreover have "drained w s s'" "w_tid w' = w_tid w" "w_idle_fiber w' = w_idle_fiber w"
      using r(3-6) t(3-9) q(6) by (simp_all add: drained_def)
    ultimately show ?thesis
      by (intro exI [of _ "Suc N"] exI [of _ "c # order"] exI [of _ w'] exI [of _ s'] conjI allI impI r(4))
  qed
qed

lemma nothing_left_idles:
  assumes "at_rest w m (mem s)" and "only_cbs (m_fibers s)" and "list_all (other_thread (w_tid w)) (m_fibers s)"
  shows "\<exists>w2 s2. run_turn dflt tick w s = Inr (w2, s2) \<and> in_idle w2 m (mem s2) \<and>
    w_idle_fiber w2 = w_idle_fiber w \<and> m_fibers s2 = m_fibers s \<and> m_idleThreadCount s2 = m_idleThreadCount s + 1 \<and>
    m_activeThreadCount s2 = m_activeThreadCount s \<and> m_stopping s2 = m_stopping s \<and> m_autoStop s2 = m_autoStop s"
proof -
  have rest: "w_pc w = AtTop" "t_scheduler_fiber (w_tls w) = Some m" "resumable (mem s) (w_idle_fiber w)"
    "m_fiber_cb (fibers (mem s) (w_idle_fiber w)) \<noteq> None" "m \<noteq> w_idle_fiber w"
    using assms(1) by (simp_all add: at_rest_def worker_at_top_def)
  have "\<forall>ft \<in> set (m_fibers s). task_ok ft \<and> \<not> eligible (w_tid w) (state_of (mem s)) ft"
    using assms(2,3) by (auto simp: only_cbs_def list_all_iff task_ok_def eligible_def)
  then show ?thesis
    using swapIn_resumable [OF rest(3,2)] rest
    by (auto simp: run_turn_def run_return_def run_pick_def run_scan_none run_dispatch_def worker_swapIn_def Let_def resumable_def in_idle_def)
qed

lemma drains_and_idles:
  assumes "wf {(d, c). d \<in> set (spawn c)}" and "at_rest w m (mem s)" and "only_cbs (m_fibers s)"
  shows "\<exists>N order w1 s1 w2 s2. (\<forall>n \<ge> N. drain dflt tick spawn out n w s = Inr (order, w1, s1)) \<and>
    order = cbs_for (w_tid w) (m_fibers s) @ concat (map spawn order) \<and> drained w s s1 \<and>
    run_turn dflt tick w1 s1 = Inr (w2, s2) \<and> in_idle w2 m (mem s2) \<and> w_idle_fiber w2 = w_idle_fiber w \<and>
    m_fibers s2 = m_fibers s1 \<and> m_idleThreadCount s2 = m_idleThreadCount s1 + 1 \<and>
    m_activeThreadCount s2 = m_activeThreadCount s1 \<and> m_stopping s2 = m_stopping s1 \<and> m_autoStop s2 = m_autoStop s1"
proof -
  from drain_ends [OF assms, of dflt out] obtain N order w1 s1
    where d: "\<forall>n \<ge> N. drain dflt tick spawn out n w s = Inr (order, w1, s1)"
      "order = cbs_for (w_tid w) (m_fibers s) @ concat (map spawn order)" "drained w s s1" "at_rest w1 m (mem s1)"
      "w_tid w1 = w_tid w" "w_idle_fiber w1 = w_idle_fiber w"
    by (elim exE conjE)
  have "only_cbs (m_fibers s1)" "list_all (other_thread (w_tid w1)) (m_fibers s1)"
    using assms(3) d(3,5) by (auto simp: only_cbs_def list_all_iff drained_def)
  from nothing_left_idles [OF d(4) this, of dflt] d obtain w2 s2 where i: "run_turn dflt tick w1 s1 = Inr (w2, s2)" "in_idle w2 m (mem s2)"
    "w_idle_fiber w2 = w_idle_fiber w" "m_fibers s2 = m_fibers s1" "m_idleThreadCount s2 = m_idleThreadCount s1 + 1"
    "m_activeThreadCount s2 = m_activeThreadCount s1" "m_stopping s2 = m_stopping s1" "m_autoStop s2 = m_autoStop s1"
    unfolding d(6) by (elim exE conjE)
  show ?thesis
    by (rule exI [of _ N], rule exI [of _ order], rule exI [of _ w1], rule exI [of _ s1], rule exI [of _ w2], rule exI [of _ s2])
      (intro conjI d(1-3) i)
qed

end

text \<open>A new thread that has entered \<^verbatim>\<open>run\<close> is ready for its first turn.\<close>

lemma run_enter_at_rest:
  assumes "tid \<noteq> m_rootThread s"
  shows "\<exists>w m mm. run_enter dflt idle this tid new_tls s = (w, s\<lparr>mem := mm\<rparr>) \<and> at_rest w m mm \<and> w_tid w = tid"
  using assms
  by (auto simp: run_enter_def new_tls_def GetThis_def new_Fiber_main_def new_Fiber_def SetThis_def Let_def at_rest_def worker_at_top_def
      cb_slot_def resumable_def)

text \<open>A worker of a stopped scheduler leaves its idle fiber and the loop.\<close>

lemma idle_worker_leaves:
  assumes "Scheduler_stopping s" and "in_idle w m (mem s)"
  shows "\<exists>w3 s3 w4 s4. Scheduler_idle base_stopping w s = Inr (w3, s3) \<and> state_of (mem s3) (w_idle_fiber w) = TERM' \<and>
    run_turn dflt Scheduler_tickle w3 s3 = Inr (w4, s4) \<and> w_pc w4 = Exited \<and>
    m_idleThreadCount s4 = m_idleThreadCount s - 1 \<and> Scheduler_stopping s4"
proof -
  from stopping_worker_exits [OF assms(1), of w "w_idle_fiber w" m dflt] assms(2)
  show ?thesis by (fastforce simp: in_idle_def run_turn_def)
qed

section \<open>Properties\<close>

text \<open>
  C3. A worker of the I/O manager empties its queue. Let the queue hold callbacks, some possibly bound to other threads, and let every
  callback schedule finitely many others, with no infinite chain of them. Then the worker, at the top of its loop, runs
  finitely many turns and all its work is done, whether callbacks return or throw: the callbacks run in
  first-in-first-out order, those of the queue first and then the ones each callback scheduled, in the order of the
  callbacks that scheduled them, each exactly once. What is left in the queue are the tasks of other threads, in
  their order; both counters are as before, and the worker then switches to its idle fiber.
\<close>

theorem worker_drains_queue:
  fixes s :: "'c iom"
  assumes "wf {(d, c). d \<in> set (spawn c)}" and "at_rest w m (mem s)" and "only_cbs (m_fibers s)"
  shows "\<exists>N order w1 s1 w2 s2. (\<forall>n \<ge> N. drain dflt IOManager_tickle spawn out n w s = Inr (order, w1, s1)) \<and>
    order = cbs_for (w_tid w) (m_fibers s) @ concat (map spawn order) \<and>
    m_fibers s1 = filter (other_thread (w_tid w)) (m_fibers s) \<and>
    m_activeThreadCount s1 = m_activeThreadCount s \<and> m_idleThreadCount s1 = m_idleThreadCount s \<and>
    run_turn dflt IOManager_tickle w1 s1 = Inr (w2, s2) \<and> in_idle w2 m (mem s2) \<and> m_fibers s2 = m_fibers s1 \<and>
    m_idleThreadCount s2 = m_idleThreadCount s + 1"
proof -
  from io.drains_and_idles [OF assms, of dflt out] obtain N order w1 s1 w2 s2 where d:
    "\<forall>n \<ge> N. drain dflt IOManager_tickle spawn out n w s = Inr (order, w1, s1)"
    "order = cbs_for (w_tid w) (m_fibers s) @ concat (map spawn order)" "drained w s s1"
    "run_turn dflt IOManager_tickle w1 s1 = Inr (w2, s2)" "in_idle w2 m (mem s2)"
    "m_fibers s2 = m_fibers s1" "m_idleThreadCount s2 = m_idleThreadCount s1 + 1"
    by (elim exE conjE)
  then show ?thesis unfolding drained_def
    by (intro exI [of _ N] exI [of _ order]) (rule exI [of _ w1], rule exI [of _ s1], rule exI [of _ w2], rule exI [of _ s2], simp)
qed

text \<open>
  C4. Stopping loses no work. A new thread enters \<^verbatim>\<open>run\<close> of a scheduler that is being stopped (both flags are set and no worker
  holds a task), with callbacks in the queue that are free or bound to this thread, and that schedule no infinite chain of others. The
  thread does not leave before everything ran: it takes the callbacks and all they schedule in first-in-first-out order, goes into its
  idle fiber, \<open>stopping\<close> holds there, the idle fiber ends and the thread leaves the loop, with an empty queue and the counters it
  found.
\<close>

theorem stopping_loses_no_work:
  fixes s :: "'c sched"
  assumes "wf {(d, c). d \<in> set (spawn c)}" and "only_cbs (m_fibers s)" and "\<forall>ft \<in> set (m_fibers s). \<not> other_thread tid ft"
    and "m_stopping s" and "m_autoStop s" and "m_activeThreadCount s = 0" and "tid \<noteq> m_rootThread s"
  shows "\<exists>w s0 N order w1 s1 w2 s2 w3 s3 w4 s4. run_enter dflt idle this tid new_tls s = (w, s0) \<and>
    (\<forall>n \<ge> N. drain dflt Scheduler_tickle spawn out n w s0 = Inr (order, w1, s1)) \<and>
    order = map (\<lambda>ft. the (ft_cb ft)) (m_fibers s) @ concat (map spawn order) \<and>
    run_turn dflt Scheduler_tickle w1 s1 = Inr (w2, s2) \<and> w_pc w2 = InIdle \<and>
    Scheduler_idle base_stopping w2 s2 = Inr (w3, s3) \<and> state_of (mem s3) (w_idle_fiber w) = TERM' \<and>
    run_turn dflt Scheduler_tickle w3 s3 = Inr (w4, s4) \<and> w_pc w4 = Exited \<and> m_fibers s4 = [] \<and>
    m_activeThreadCount s4 = 0 \<and> m_idleThreadCount s4 = m_idleThreadCount s"
proof -
  obtain w m mm where enter: "run_enter dflt idle this tid new_tls s = (w, s\<lparr>mem := mm\<rparr>)" and rest: "at_rest w m mm" and tid: "w_tid w = tid"
    using run_enter_at_rest [OF assms(7)] by blast
  let ?s0 = "s\<lparr>mem := mm\<rparr>"
  have "at_rest w m (mem ?s0)" "only_cbs (m_fibers ?s0)" using rest assms(2) by simp_all
  from base.drains_and_idles [OF assms(1) this, of dflt out] obtain N order w1 s1 w2 s2 where d:
    "\<forall>n \<ge> N. drain dflt Scheduler_tickle spawn out n w ?s0 = Inr (order, w1, s1)"
    "order = cbs_for (w_tid w) (m_fibers ?s0) @ concat (map spawn order)" "drained w ?s0 s1"
    "run_turn dflt Scheduler_tickle w1 s1 = Inr (w2, s2)" "in_idle w2 m (mem s2)" "w_idle_fiber w2 = w_idle_fiber w"
    "m_fibers s2 = m_fibers s1" "m_idleThreadCount s2 = m_idleThreadCount s1 + 1"
    "m_activeThreadCount s2 = m_activeThreadCount s1" "m_stopping s2 = m_stopping s1" "m_autoStop s2 = m_autoStop s1"
    by (elim exE conjE)
  have "cbs_for (w_tid w) (m_fibers ?s0) = map (\<lambda>ft. the (ft_cb ft)) (m_fibers s)"
    using assms(3) tid by (simp add: cbs_for_def)
  then have order: "order = map (\<lambda>ft. the (ft_cb ft)) (m_fibers s) @ concat (map spawn order)" using d(2) by argo
  have "m_fibers s1 = []" using d(3) assms(3) tid by (auto simp: drained_def filter_empty_conv)
  then have "Scheduler_stopping s2" "m_idleThreadCount s2 = m_idleThreadCount s + 1"
    using d(3,7-11) assms(4-6) by (simp_all add: Scheduler_stopping_def drained_def)
  with idle_worker_leaves [OF _ d(5), of dflt] d(6) obtain w3 s3 w4 s4 where e:
    "Scheduler_idle base_stopping w2 s2 = Inr (w3, s3)" "state_of (mem s3) (w_idle_fiber w) = TERM'"
    "run_turn dflt Scheduler_tickle w3 s3 = Inr (w4, s4)" "w_pc w4 = Exited"
    "m_idleThreadCount s4 = m_idleThreadCount s" "Scheduler_stopping s4"
    by auto
  have "w_pc w2 = InIdle" "m_fibers s4 = []" "m_activeThreadCount s4 = 0"
    using d(5) e(6) by (simp_all add: in_idle_def Scheduler_stopping_def)
  then show ?thesis
    by (intro exI conjI) (rule enter, rule d(1), rule order, rule d(4), assumption, rule e(1), rule e(2), rule e(3), rule e(4), assumption+, rule e(5))
qed

theorem stopping_loses_no_work_witness:
  "\<exists>w s0 N order w1 s1 w2 s2 w3 s3 w4 s4.
    run_enter 131072 0 9 12 new_tls (demo_sched\<lparr>m_fibers := [FT_cb (Some 3) (- 1), FT_cb (Some 4) 12], m_stopping := True, m_autoStop := True\<rparr>) = (w, s0) \<and>
    (\<forall>n \<ge> N. drain 131072 Scheduler_tickle (\<lambda>c. [0..<c]) (\<lambda>_. ThrewStdException) n w s0 = Inr (order, w1, s1)) \<and>
    order = [3, 4] @ concat (map (\<lambda>c. [0..<c]) order) \<and>
    run_turn 131072 Scheduler_tickle w1 s1 = Inr (w2, s2) \<and> Scheduler_idle base_stopping w2 s2 = Inr (w3, s3) \<and>
    run_turn 131072 Scheduler_tickle w3 s3 = Inr (w4, s4) \<and> w_pc w4 = Exited \<and> m_fibers s4 = []"
proof -
  let ?s = "demo_sched\<lparr>m_fibers := [FT_cb (Some 3) (- 1), FT_cb (Some 4) 12], m_stopping := True, m_autoStop := True\<rparr>"
  have "wf {(d, c). d \<in> set [0..<c]}" by (rule wf_subset [OF wf_less]) auto
  moreover have "only_cbs (m_fibers ?s)" "\<forall>ft \<in> set (m_fibers ?s). \<not> other_thread 12 ft"
    by (simp_all add: only_cbs_def FT_cb_def other_thread_def)
  moreover have "m_stopping ?s" "m_autoStop ?s" "m_activeThreadCount ?s = 0" "12 \<noteq> m_rootThread ?s"
    by (simp_all add: demo_sched_def)
  ultimately have "\<exists>w s0 N order w1 s1 w2 s2 w3 s3 w4 s4. run_enter 131072 0 9 12 new_tls ?s = (w, s0) \<and>
    (\<forall>n \<ge> N. drain 131072 Scheduler_tickle (\<lambda>c. [0..<c]) (\<lambda>_. ThrewStdException) n w s0 = Inr (order, w1, s1)) \<and>
    order = map (\<lambda>ft. the (ft_cb ft)) (m_fibers ?s) @ concat (map (\<lambda>c. [0..<c]) order) \<and>
    run_turn 131072 Scheduler_tickle w1 s1 = Inr (w2, s2) \<and> w_pc w2 = InIdle \<and>
    Scheduler_idle base_stopping w2 s2 = Inr (w3, s3) \<and> state_of (mem s3) (w_idle_fiber w) = TERM' \<and>
    run_turn 131072 Scheduler_tickle w3 s3 = Inr (w4, s4) \<and> w_pc w4 = Exited \<and> m_fibers s4 = [] \<and>
    m_activeThreadCount s4 = 0 \<and> m_idleThreadCount s4 = m_idleThreadCount ?s"
    by (rule stopping_loses_no_work)
  then show ?thesis by (simp add: FT_cb_def) metis
qed

definition demo_spawn :: "nat hook_cb callback \<Rightarrow> nat hook_cb callback list" where
  "demo_spawn c = (case c of Callback (User (Suc k)) \<Rightarrow> replicate k (Callback (User k)) | _ \<Rightarrow> [])"

definition demo_rank :: "nat hook_cb callback \<Rightarrow> nat" where
  "demo_rank c = (case c of Callback (User k) \<Rightarrow> k | _ \<Rightarrow> 0)"

lemma demo_spawn_wf: "wf {(d, c). d \<in> set (demo_spawn c)}"
  by (rule wf_subset [OF wf_measure [of demo_rank]])
    (auto simp: demo_spawn_def demo_rank_def split: callback.splits hook_cb.splits nat.splits)

definition demo_top :: "nat hook_cb callback worker" where
  "demo_top = demo_io_worker\<lparr>w_ft := FT_reset, w_pc := AtTop\<rparr>"

theorem worker_drains_queue_witness:
  "\<exists>N order w' s'. drain 131072 IOManager_tickle demo_spawn (\<lambda>_. Returned) N demo_top
       (demo_io\<lparr>mem := set_fiber 2 (\<lambda>f. f\<lparr>m_fiber_cb := Some (Callback (User 0))\<rparr>) (mem demo_io), m_fibers := [FT_cb (Some (Callback (User 3))) (- 1), FT_cb (Some (Callback (User 7))) 99, FT_cb (Some (Callback (User 0))) (w_tid demo_top)]\<rparr>) =
       Inr (order, w', s') \<and>
     order = [Callback (User 3), Callback (User 0)] @ concat (map demo_spawn order) \<and>
     m_fibers s' = [FT_cb (Some (Callback (User 7))) 99]"
proof -
  let ?s = "demo_io\<lparr>mem := set_fiber 2 (\<lambda>f. f\<lparr>m_fiber_cb := Some (Callback (User 0))\<rparr>) (mem demo_io), m_fibers := [FT_cb (Some (Callback (User 3))) (- 1), FT_cb (Some (Callback (User 7))) 99, FT_cb (Some (Callback (User 0))) (w_tid demo_top)]\<rparr>"
  have "at_rest demo_top 0 (mem ?s)"
    by (simp add: at_rest_def worker_at_top_def demo_top_def demo_io_worker_def demo_io_tls_def demo_io_def resumable_def cb_slot_def)
  moreover have "only_cbs (m_fibers ?s)" by (simp add: only_cbs_def FT_cb_def)
  moreover have "w_tid demo_top \<noteq> 99" by (simp add: demo_top_def demo_io_worker_def)
  ultimately show ?thesis
    using worker_drains_queue [OF demo_spawn_wf, of demo_top 0 ?s 131072 "\<lambda>_. Returned"]
    by (simp add: other_thread_def FT_cb_def) blast
qed

end
