(* ===== verification/Epoll_Text.thy ===== *)
theory Epoll_Text
  imports IOManager
begin

text \<open>
  The two stream operators at the head of \<^verbatim>\<open>sylar/iomanager.cpp\<close>, which print the operations and the event masks of epoll in
  the error messages of the I/O manager.
\<close>

unbundle bit_operations_syntax

section \<open>Operations\<close>

definition show_EpollCtlOp :: "int \<Rightarrow> string" where
  "show_EpollCtlOp op =
     (if op = 1 then ''EPOLL_CTL_ADD'' else if op = 3 then ''EPOLL_CTL_MOD'' else if op = 2 then ''EPOLL_CTL_DEL'' else show_int op)"

text \<open>The flags in the order in which they are printed, with their values in \<^verbatim>\<open>sys/epoll.h\<close>.\<close>

definition epoll_names :: "(u32 \<times> string) list" where
  "epoll_names =
     [(0x001, ''EPOLLIN''), (0x002, ''EPOLLPRI''), (0x004, ''EPOLLOUT''), (0x040, ''EPOLLRDNORM''), (0x080, ''EPOLLRDBAND''),
      (0x100, ''EPOLLWRNORM''), (0x200, ''EPOLLWRBAND''), (0x400, ''EPOLLMSG''), (0x008, ''EPOLLERR''), (0x010, ''EPOLLHUP''),
      (0x2000, ''EPOLLRDHUP''), (0x40000000, ''EPOLLONESHOT''), (0x80000000, ''EPOLLET'')]"

fun show_flags :: "u32 \<Rightarrow> bool \<Rightarrow> (u32 \<times> string) list \<Rightarrow> string" where
  "show_flags events first [] = []"
| "show_flags events first ((e, name) # es) =
     (if events AND e \<noteq> 0 then (if \<not> first then ''|'' else []) @ name @ show_flags events False es else show_flags events first es)"

definition show_EPOLL_EVENTS :: "u32 \<Rightarrow> string" where
  "show_EPOLL_EVENTS events = (if events = 0 then ''0'' else show_flags events True epoll_names)"

section \<open>The text determines the flags\<close>

text \<open>The reference: the names of the flags, with bars in between.\<close>

fun joined :: "string list \<Rightarrow> string" where
  "joined [] = []"
| "joined [x] = x"
| "joined (x # y # ys) = x @ ''|'' @ joined (y # ys)"

definition flag_names :: "u32 \<Rightarrow> (u32 \<times> string) list \<Rightarrow> string list" where
  "flag_names events es = map snd (filter (\<lambda>(e, name). events AND e \<noteq> 0) es)"

lemma joined_Cons: "joined (x # xs) = x @ (if xs = [] then [] else ''|'' @ joined xs)"
  by (cases xs) simp_all

lemma show_flags_joined:
  "show_flags events first es =
     (if flag_names events es = [] \<or> first then joined (flag_names events es) else ''|'' @ joined (flag_names events es))"
  by (induction events first es rule: show_flags.induct) (auto simp: flag_names_def joined_Cons)

definition part_ok :: "string \<Rightarrow> bool" where
  "part_ok x \<longleftrightarrow> x \<noteq> [] \<and> CHR ''|'' \<notin> set x"

lemma joined_head:
  assumes "part_ok x"
  shows "takeWhile (\<lambda>c. c \<noteq> CHR ''|'') (joined (x # xs)) = x"
proof -
  have "takeWhile (\<lambda>c. c \<noteq> CHR ''|'') (x @ z) = x @ takeWhile (\<lambda>c. c \<noteq> CHR ''|'') z" for z
    using assms by (intro takeWhile_append2) (auto simp: part_ok_def)
  then show ?thesis by (simp add: joined_Cons)
qed

lemma joined_inj:
  assumes "\<forall>x \<in> set xs. part_ok x" and "\<forall>y \<in> set ys. part_ok y" and "joined xs = joined ys"
  shows "xs = ys"
  using assms
proof (induction xs arbitrary: ys)
  case Nil
  then show ?case by (cases ys) (auto simp: joined_Cons part_ok_def)
next
  case (Cons x xs)
  from Cons.prems obtain y zs where ys: "ys = y # zs" by (cases ys) (auto simp: joined_Cons part_ok_def)
  have "x = y" using Cons.prems joined_head [of x xs] joined_head [of y zs] by (simp add: ys)
  moreover from this have "joined xs = joined zs \<and> (xs = [] \<longleftrightarrow> zs = [])"
    using Cons.prems(3) by (auto simp: ys joined_Cons split: if_splits)
  ultimately show ?case using Cons.IH [of zs] Cons.prems(1,2) by (simp add: ys)
qed

lemma flag_names_ok: "\<forall>x \<in> set (flag_names events epoll_names). part_ok x"
proof -
  have "\<forall>x \<in> set epoll_names. part_ok (snd x)" by (simp add: epoll_names_def part_ok_def)
  then show ?thesis unfolding flag_names_def by force
qed

lemma flag_names_iff:
  assumes "(e, name) \<in> set epoll_names"
  shows "name \<in> set (flag_names events epoll_names) \<longleftrightarrow> events AND e \<noteq> 0"
proof -
  have inj: "inj_on snd (set epoll_names)" by (simp add: epoll_names_def)
  have "a = e" if "(a, name) \<in> set epoll_names" for a using inj_onD [OF inj _ that assms] by simp
  note key = this
  show ?thesis
  proof
    assume "name \<in> set (flag_names events epoll_names)"
    then obtain a where "(a, name) \<in> set epoll_names" "events AND a \<noteq> 0" unfolding flag_names_def by auto
    then show "events AND e \<noteq> 0" using key by simp
  next
    assume "events AND e \<noteq> 0"
    then have "(e, name) \<in> set (filter (\<lambda>(e, name). events AND e \<noteq> 0) epoll_names)" using assms by simp
    from imageI [OF this, of snd] show "name \<in> set (flag_names events epoll_names)" by (simp add: flag_names_def)
  qed
qed

text \<open>
  The text of an event mask is the names of its flags with bars in between (0 for the empty mask), and two masks with the
  same text have the same named flags.
\<close>

theorem epoll_text_faithful:
  "show_EPOLL_EVENTS a = (if a = 0 then ''0'' else joined (flag_names a epoll_names)) \<and>
   (show_EPOLL_EVENTS a = show_EPOLL_EVENTS b \<longrightarrow> (\<forall>(e, name) \<in> set epoll_names. a AND e \<noteq> 0 \<longleftrightarrow> b AND e \<noteq> 0))"
proof -
  have shown: "show_EPOLL_EVENTS x = (if x = 0 then ''0'' else joined (flag_names x epoll_names))" for x
    by (simp add: show_EPOLL_EVENTS_def show_flags_joined)
  have not0: "joined (flag_names x epoll_names) \<noteq> ''0''" for x
  proof
    assume "joined (flag_names x epoll_names) = ''0''"
    then have "joined (flag_names x epoll_names) = joined [''0'']" by simp
    then have "flag_names x epoll_names = [''0'']" using joined_inj [OF flag_names_ok, of "[''0'']" x] by (simp add: part_ok_def)
    then have "''0'' \<in> set (flag_names x epoll_names)" by simp
    then obtain e where "(e, ''0'') \<in> set epoll_names" unfolding flag_names_def by auto
    then show False by (simp add: epoll_names_def)
  qed
  have "a AND e \<noteq> 0 \<longleftrightarrow> b AND e \<noteq> 0" if eq: "show_EPOLL_EVENTS a = show_EPOLL_EVENTS b" and e: "(e, name) \<in> set epoll_names" for e name
  proof (cases "a = 0 \<or> b = 0")
    case True
    then show ?thesis using eq not0 [of a] not0 [of b] by (auto simp: shown split: if_splits)
  next
    case False
    then have "flag_names a epoll_names = flag_names b epoll_names"
      using eq by (intro joined_inj flag_names_ok) (simp add: shown)
    then show ?thesis using flag_names_iff [OF e] by metis
  qed
  then show ?thesis using shown by blast
qed

end
