(* ===== verification/Log_Format.thy ===== *)
theory Log_Format
  imports Sylar_Prelude
begin

text \<open>
  The formatting half of \<^verbatim>\<open>sylar/log.h\<close> and \<^verbatim>\<open>sylar/log.cpp\<close>: levels, events, the thirteen format items and
  \<^verbatim>\<open>LogFormatter\<close>, whose \<^verbatim>\<open>init\<close> parses a pattern into items. A level is an \<open>int\<close>, because the code also uses
  values outside the enumeration. \<^verbatim>\<open>localtime_r\<close> and \<^verbatim>\<open>strftime\<close> depend on the time zone: together they
  are the parameter \<open>strftime\<close> (format and time to text).
\<close>

section \<open>Levels\<close>

type_synonym level = int

definition UNKNOW :: level where "UNKNOW = 0"
definition DEBUG :: level where "DEBUG = 1"
definition INFO :: level where "INFO = 2"
definition WARN :: level where "WARN = 3"
definition ERROR :: level where "ERROR = 4"
definition FATAL :: level where "FATAL = 5"

lemmas level_defs = UNKNOW_def DEBUG_def INFO_def WARN_def ERROR_def FATAL_def

definition ToString :: "level \<Rightarrow> string" where
  "ToString level =
     (if level = DEBUG then ''DEBUG'' else if level = INFO then ''INFO'' else if level = WARN then ''WARN''
      else if level = ERROR then ''ERROR'' else if level = FATAL then ''FATAL'' else ''UNKNOW'')"

definition FromString :: "string \<Rightarrow> level" where
  "FromString str =
     (if str = ''debug'' then DEBUG else if str = ''info'' then INFO else if str = ''warn'' then WARN
      else if str = ''error'' then ERROR else if str = ''fatal'' then FATAL
      else if str = ''DEBUG'' then DEBUG else if str = ''INFO'' then INFO else if str = ''WARN'' then WARN
      else if str = ''ERROR'' then ERROR else if str = ''FATAL'' then FATAL
      else UNKNOW)"

section \<open>Events and format items\<close>

type_synonym logger_ptr = nat

record log_event =
  m_file :: string
  m_line :: int
  m_elapse :: u32
  m_threadId :: u32
  m_fiberId :: u32
  m_time :: u64
  m_threadName :: string
  m_ss :: string
  m_logger :: logger_ptr
  m_event_level :: level

definition new_LogEvent ::
  "logger_ptr \<Rightarrow> level \<Rightarrow> string \<Rightarrow> int \<Rightarrow> u32 \<Rightarrow> u32 \<Rightarrow> u32 \<Rightarrow> u64 \<Rightarrow> string \<Rightarrow> log_event" where
  "new_LogEvent logger level file line elapse thread_id fiber_id time thread_name =
     \<lparr>m_file = file, m_line = line, m_elapse = elapse, m_threadId = thread_id, m_fiberId = fiber_id, m_time = time,
      m_threadName = thread_name, m_ss = [], m_logger = logger, m_event_level = level\<rparr>"

text \<open>\<^verbatim>\<open>LogEvent::format\<close>: \<open>text\<close> is what \<^verbatim>\<open>vasprintf\<close> produced, \<open>None\<close> when it failed.\<close>

definition LogEvent_format :: "string option \<Rightarrow> log_event \<Rightarrow> log_event" where
  "LogEvent_format out e = (case out of None \<Rightarrow> e | Some buf \<Rightarrow> e\<lparr>m_ss := m_ss e @ buf\<rparr>)"

datatype format_item =
    MessageFormatItem
  | LevelFormatItem
  | ElapseFormatItem
  | NameFormatItem
  | ThreadIdFormatItem
  | ThreadNameFormatItem
  | FiberIdFormatItem
  | DateTimeFormatItem string
  | FilenameFormatItem
  | LineFormatItem
  | NewLineFormatItem
  | StringFormatItem string
  | TabFormatItem

definition new_DateTimeFormatItem :: "string \<Rightarrow> format_item" where
  "new_DateTimeFormatItem format = DateTimeFormatItem (if format = [] then ''%Y-%m-%d %H:%M:%S'' else format)"

text \<open>
  The virtual \<open>format\<close> of the items. A date that does not fit the buffer of 64 bytes leaves it
  undefined, and the output then reads it.
\<close>

fun item_format ::
  "(string \<Rightarrow> u64 \<Rightarrow> string) \<Rightarrow> (logger_ptr \<Rightarrow> string) \<Rightarrow> format_item \<Rightarrow> level \<Rightarrow> log_event \<Rightarrow> string res" where
  "item_format strftime getName MessageFormatItem level e = Inr (m_ss e)"
| "item_format strftime getName LevelFormatItem level e = Inr (ToString level)"
| "item_format strftime getName ElapseFormatItem level e = Inr (show_nat (unat (m_elapse e)))"
| "item_format strftime getName NameFormatItem level e = Inr (getName (m_logger e))"
| "item_format strftime getName ThreadIdFormatItem level e = Inr (show_nat (unat (m_threadId e)))"
| "item_format strftime getName ThreadNameFormatItem level e = Inr (m_threadName e)"
| "item_format strftime getName FiberIdFormatItem level e = Inr (show_nat (unat (m_fiberId e)))"
| "item_format strftime getName (DateTimeFormatItem m_format) level e =
     (let buf = strftime m_format (m_time e) in if length buf < 64 then Inr buf else Inl (OutOfRange ''buf''))"
| "item_format strftime getName FilenameFormatItem level e = Inr (m_file e)"
| "item_format strftime getName LineFormatItem level e = Inr (show_int (m_line e))"
| "item_format strftime getName NewLineFormatItem level e = Inr [CHR 0x0A]"
| "item_format strftime getName (StringFormatItem m_string) level e = Inr m_string"
| "item_format strftime getName TabFormatItem level e = Inr [CHR 0x09]"

section \<open>The formatter\<close>

record log_formatter =
  m_error :: bool
  m_pattern :: string
  m_items :: "format_item list"

fun format_items ::
  "(string \<Rightarrow> u64 \<Rightarrow> string) \<Rightarrow> (logger_ptr \<Rightarrow> string) \<Rightarrow> level \<Rightarrow> log_event \<Rightarrow> string \<Rightarrow> format_item list \<Rightarrow> string res" where
  "format_items strftime getName level e ss [] = Inr ss"
| "format_items strftime getName level e ss (i # items) =
     bindE (item_format strftime getName i level e) (\<lambda>out. format_items strftime getName level e (ss @ out) items)"

definition LogFormatter_format ::
  "(string \<Rightarrow> u64 \<Rightarrow> string) \<Rightarrow> (logger_ptr \<Rightarrow> string) \<Rightarrow> level \<Rightarrow> log_event \<Rightarrow> log_formatter \<Rightarrow> string res" where
  "LogFormatter_format strftime getName level e f = format_items strftime getName level e [] (m_items f)"

definition isalpha :: "char \<Rightarrow> bool" where
  "isalpha c \<longleftrightarrow> (let n = (of_char c :: nat) in 65 \<le> n \<and> n \<le> 90 \<or> 97 \<le> n \<and> n \<le> 122)"

definition substr :: "string \<Rightarrow> nat \<Rightarrow> nat \<Rightarrow> string" where
  "substr s pos len = take len (drop pos s)"

text \<open>
  The inner loop: from position \<open>n\<close>, with \<^verbatim>\<open>fmt_status\<close>, \<^verbatim>\<open>fmt_begin\<close>, \<^verbatim>\<open>str\<close> and \<^verbatim>\<open>fmt\<close>; \<open>i\<close> is the position of
  the percent sign. The result is (\<open>n\<close>, \<^verbatim>\<open>fmt_status\<close>, \<^verbatim>\<open>str\<close>, \<^verbatim>\<open>fmt\<close>) at the end of the loop.
\<close>

function scan_loop :: "string \<Rightarrow> nat \<Rightarrow> nat \<Rightarrow> nat \<Rightarrow> nat \<Rightarrow> string \<Rightarrow> string \<Rightarrow> nat \<times> nat \<times> string \<times> string" where
  "scan_loop pat i n fmt_status fmt_begin str fmt =
     (if n < length pat then
        if fmt_status = 0 \<and> \<not> isalpha (pat ! n) \<and> pat ! n \<noteq> CHR ''{'' \<and> pat ! n \<noteq> CHR ''}''
        then (n, fmt_status, substr pat (i + 1) (n - i - 1), fmt)
        else if fmt_status = 0 \<and> pat ! n = CHR ''{''
        then scan_loop pat i (n + 1) 1 n (substr pat (i + 1) (n - i - 1)) fmt
        else if fmt_status = 1 \<and> pat ! n = CHR ''}''
        then (n + 1, 0, str, substr pat (fmt_begin + 1) (n - fmt_begin - 1))
        else scan_loop pat i (n + 1) fmt_status fmt_begin
               (if n + 1 = length pat \<and> str = [] then drop (i + 1) pat else str) fmt
      else (n, fmt_status, str, fmt))"
  by pat_completeness auto
termination by (relation "measure (\<lambda>(pat, i, n, _). length pat - n)") auto

declare scan_loop.simps [simp del]

text \<open>
  The outer loop over the pattern; \<^verbatim>\<open>i = n - 1\<close> followed by \<^verbatim>\<open>++i\<close> continues at \<open>n\<close>. An entry is (text, format, type),
  type 1 for a format item.
\<close>

partial_function (option) init_loop ::
  "string \<Rightarrow> nat \<Rightarrow> string \<Rightarrow> (string \<times> string \<times> nat) list \<Rightarrow> bool \<Rightarrow>
   ((string \<times> string \<times> nat) list \<times> string \<times> bool) option" where
  "init_loop pat i nstr vec err =
     (if i < length pat then
        if pat ! i \<noteq> CHR ''%'' then init_loop pat (i + 1) (nstr @ [pat ! i]) vec err
        else if i + 1 < length pat \<and> pat ! (i + 1) = CHR ''%'' then init_loop pat (i + 1) (nstr @ ''%'') vec err
        else (case scan_loop pat i (i + 1) 0 0 [] [] of (n, fmt_status, str, fmt) \<Rightarrow>
          if fmt_status = 0
          then init_loop pat n [] (vec @ (if nstr \<noteq> [] then [(nstr, [], 0)] else []) @ [(str, fmt, 1)]) err
          else init_loop pat (i + 1) nstr (vec @ [(''<<pattern_error>>'', fmt, 0)]) True)
      else Some (vec, nstr, err))"

definition s_format_items :: "string \<rightharpoonup> string \<Rightarrow> format_item" where
  "s_format_items = [
     ''m'' \<mapsto> (\<lambda>fmt. MessageFormatItem),
     ''p'' \<mapsto> (\<lambda>fmt. LevelFormatItem),
     ''r'' \<mapsto> (\<lambda>fmt. ElapseFormatItem),
     ''c'' \<mapsto> (\<lambda>fmt. NameFormatItem),
     ''t'' \<mapsto> (\<lambda>fmt. ThreadIdFormatItem),
     ''n'' \<mapsto> (\<lambda>fmt. NewLineFormatItem),
     ''d'' \<mapsto> new_DateTimeFormatItem,
     ''f'' \<mapsto> (\<lambda>fmt. FilenameFormatItem),
     ''l'' \<mapsto> (\<lambda>fmt. LineFormatItem),
     ''T'' \<mapsto> (\<lambda>fmt. TabFormatItem),
     ''F'' \<mapsto> (\<lambda>fmt. FiberIdFormatItem),
     ''N'' \<mapsto> (\<lambda>fmt. ThreadNameFormatItem)]"

definition build_item :: "string \<times> string \<times> nat \<Rightarrow> format_item \<times> bool" where
  "build_item entry =
     (case entry of (str, fmt, type) \<Rightarrow>
        if type = 0 then (StringFormatItem str, False)
        else case s_format_items str of
               None \<Rightarrow> (StringFormatItem (''<<error_format %'' @ str @ ''>>''), True)
             | Some C \<Rightarrow> (C fmt, False))"

fun build_items :: "(string \<times> string \<times> nat) list \<Rightarrow> log_formatter \<Rightarrow> log_formatter" where
  "build_items [] f = f"
| "build_items (entry # vec) f =
     (case build_item entry of (item, e) \<Rightarrow>
        build_items vec (f\<lparr>m_items := m_items f @ [item], m_error := m_error f \<or> e\<rparr>))"

definition LogFormatter_init :: "log_formatter \<Rightarrow> log_formatter option" where
  "LogFormatter_init f =
     (case init_loop (m_pattern f) 0 [] [] (m_error f) of
        None \<Rightarrow> None
      | Some (vec, nstr, err) \<Rightarrow>
          Some (build_items (vec @ (if nstr \<noteq> [] then [(nstr, [], 0)] else [])) (f\<lparr>m_error := err\<rparr>)))"

definition new_LogFormatter :: "string \<Rightarrow> log_formatter option" where
  "new_LogFormatter pattern = LogFormatter_init \<lparr>m_error = False, m_pattern = pattern, m_items = []\<rparr>"

section \<open>Lemmas\<close>

lemma scan_loop_advances:
  "scan_loop pat i n st b str fmt = (n', st', str', fmt') \<Longrightarrow> n \<le> length pat \<Longrightarrow> n \<le> n' \<and> n' \<le> length pat"
proof (induction pat i n st b str fmt rule: scan_loop.induct)
  case (1 pat i n st b str fmt)
  note step = "1.prems"(1) [unfolded scan_loop.simps [of pat i n st b str fmt]]
  show ?case using step "1.prems"(2) "1.IH" by (auto simp del: One_nat_def split: if_splits)
qed

abbreviation flush :: "string \<Rightarrow> (string \<times> string \<times> nat) list" where
  "flush nstr \<equiv> (if nstr \<noteq> [] then [(nstr, [], 0)] else [])"

definition collected :: "string \<Rightarrow> (string \<times> string \<times> nat) list \<Rightarrow>
    ((string \<times> string \<times> nat) list \<times> string \<times> bool) option \<Rightarrow> bool" where
  "collected pat vec r \<longleftrightarrow> (\<exists>vec' nstr' err'. r = Some (vec', nstr', err') \<and>
     length vec' + length (flush nstr') \<le> length pat \<and> (\<exists>w. vec' = vec @ w))"

lemma collected_append: "collected pat (vec @ v) r \<Longrightarrow> collected pat vec r"
  unfolding collected_def by (metis append.assoc)

lemma init_loop_total:
  assumes "length vec + length (flush nstr) \<le> i" and "i \<le> length pat"
  shows "collected pat vec (init_loop pat i nstr vec err)"
  using assms
proof (induction "length pat - i" arbitrary: i nstr vec err rule: less_induct)
  case less
  show ?case
  proof (cases "i < length pat")
    case False
    with less.prems show ?thesis by (subst init_loop.simps) (simp add: collected_def)
  next
    case True
    obtain n st str fmt where scan: "scan_loop pat i (i + 1) 0 0 [] [] = (n, st, str, fmt)" by (rule prod_cases4)
    have n: "i < n" "n \<le> length pat" using scan_loop_advances [OF scan] True by simp_all
    have one: "collected pat (vec @ v) (init_loop pat (i + 1) nstr2 (vec @ v) err2)"
      if "length v + length (flush nstr2) \<le> 1 + length (flush nstr)" for nstr2 v err2
      using that less.prems(1) True by (intro less.hyps) (simp_all split del: if_split)
    have spec: "collected pat (vec @ flush nstr @ [(str, fmt, 1)]) (init_loop pat n [] (vec @ flush nstr @ [(str, fmt, 1)]) err)"
      using n True less.prems(1) by (intro less.hyps) (simp_all split del: if_split)
    show ?thesis
      using True scan one [of "[]" "nstr @ [pat ! i]" err] one [of "[]" "nstr @ ''%''" err] collected_append [OF spec]
        collected_append [OF one [of "[(''<<pattern_error>>'', fmt, 0)]" nstr True]]
      by (subst init_loop.simps) auto
  qed
qed

section \<open>Patterns made of tokens\<close>

text \<open>
  The intended reading of a pattern: a sequence of literals, of names (\<^verbatim>\<open>%m\<close>) and of names with a
  format (\<^verbatim>\<open>%d{...}\<close>).
\<close>

datatype token = Lit string | Plain string | Fmt string string

fun render_token :: "token \<Rightarrow> string" where
  "render_token (Lit s) = s"
| "render_token (Plain s) = CHR ''%'' # s"
| "render_token (Fmt s f) = CHR ''%'' # s @ CHR ''{'' # f @ ''}''"

definition render :: "token list \<Rightarrow> string" where
  "render ts = concat (map render_token ts)"

fun entry :: "token \<Rightarrow> string \<times> string \<times> nat" where
  "entry (Lit s) = (s, [], 0)"
| "entry (Plain s) = (s, [], 1)"
| "entry (Fmt s f) = (s, f, 1)"

definition ends_name :: "char \<Rightarrow> bool" where
  "ends_name c \<longleftrightarrow> \<not> isalpha c \<and> c \<noteq> CHR ''{'' \<and> c \<noteq> CHR ''}''"

text \<open>Literals have no percent sign, stand apart, and do not continue the name before them.\<close>

fun toks_ok :: "token list \<Rightarrow> bool" where
  "toks_ok [] = True"
| "toks_ok (Lit s # ts) = (s \<noteq> [] \<and> CHR ''%'' \<notin> set s \<and> toks_ok ts \<and> (case ts of Lit r # _ \<Rightarrow> False | _ \<Rightarrow> True))"
| "toks_ok (Plain s # ts) =
     (s \<noteq> [] \<and> (\<forall>c \<in> set s. isalpha c) \<and> toks_ok ts \<and> (case ts of Lit r # _ \<Rightarrow> ends_name (hd r) | _ \<Rightarrow> True))"
| "toks_ok (Fmt s f # ts) = ((\<forall>c \<in> set s. isalpha c) \<and> CHR ''}'' \<notin> set f \<and> toks_ok ts)"

lemma isalpha_not [simp]: "\<not> isalpha (CHR ''%'')" "\<not> isalpha (CHR ''{'')" "\<not> isalpha (CHR ''}'')"
  by (simp_all add: isalpha_def)

lemma init_loop_char:
  "i < length pat \<Longrightarrow> pat ! i \<noteq> CHR ''%'' \<Longrightarrow>
   init_loop pat i nstr vec err = init_loop pat (i + 1) (nstr @ [pat ! i]) vec err"
  by (subst init_loop.simps) simp

lemma init_loop_spec:
  assumes "i < length pat" and "pat ! i = CHR ''%''" and "\<not> (i + 1 < length pat \<and> pat ! (i + 1) = CHR ''%'')"
    and "scan_loop pat i (i + 1) 0 0 [] [] = (n, 0, str, fmt)"
  shows "init_loop pat i nstr vec err = init_loop pat n [] (vec @ flush nstr @ [(str, fmt, 1)]) err"
  using assms by (subst init_loop.simps) auto

lemma init_loop_end: "length pat \<le> i \<Longrightarrow> init_loop pat i nstr vec err = Some (vec, nstr, err)"
  by (subst init_loop.simps) simp

lemma init_loop_literal:
  assumes "CHR ''%'' \<notin> set s"
  shows "init_loop (pre @ s @ rest) (length pre) nstr vec err =
    init_loop (pre @ s @ rest) (length pre + length s) (nstr @ s) vec err"
  using assms
proof (induction s arbitrary: pre nstr)
  case Nil
  then show ?case by simp
next
  case (Cons c s)
  have "init_loop (pre @ (c # s) @ rest) (length pre) nstr vec err =
      init_loop (pre @ (c # s) @ rest) (length pre + 1) (nstr @ [c]) vec err"
    using init_loop_char [of "length pre" "pre @ (c # s) @ rest" nstr vec err] Cons.prems by (auto simp: nth_append)
  also have "\<dots> = init_loop (pre @ (c # s) @ rest) (length pre + length (c # s)) (nstr @ c # s) vec err"
    using Cons.IH [of "pre @ [c]" "nstr @ [c]"] Cons.prems by simp
  finally show ?case .
qed

lemma scan_loop_name:
  assumes "\<forall>k < m. isalpha (pat ! (n + k))" and "n + m < length pat"
  shows "scan_loop pat i n 0 b str fmt = scan_loop pat i (n + m) 0 b str fmt"
  using assms
proof (induction m arbitrary: n)
  case (Suc m)
  have "isalpha (pat ! n)" using Suc.prems(1) by force
  then have "scan_loop pat i n 0 b str fmt = scan_loop pat i (n + 1) 0 b str fmt"
    using Suc.prems(2) by (subst scan_loop.simps) (auto simp del: One_nat_def)
  also have "\<dots> = scan_loop pat i (n + 1 + m) 0 b str fmt"
    using Suc.prems by (intro Suc.IH) (auto dest: spec [of _ "Suc _"])
  finally show ?case by simp
qed simp

lemma scan_loop_format:
  assumes "\<forall>k < m. pat ! (n + k) \<noteq> CHR ''}''" and "n + m < length pat"
  shows "scan_loop pat i n 1 b str fmt = scan_loop pat i (n + m) 1 b str fmt"
  using assms
proof (induction m arbitrary: n)
  case (Suc m)
  have "pat ! n \<noteq> CHR ''}''" using Suc.prems(1) by force
  then have "scan_loop pat i n 1 b str fmt = scan_loop pat i (n + 1) 1 b str fmt"
    using Suc.prems(2) by (subst scan_loop.simps) (auto simp del: One_nat_def)
  also have "\<dots> = scan_loop pat i (n + 1 + m) 1 b str fmt"
    using Suc.prems by (intro Suc.IH) (auto dest: spec [of _ "Suc _"])
  finally show ?case by simp
qed simp


text \<open>The three ways a name ends: at the end of the pattern, before a character of a literal, with a format.\<close>

lemma scan_loop_last:
  assumes "\<forall>c \<in> set s. isalpha c" and "s \<noteq> []"
  shows "scan_loop (pre @ CHR ''%'' # s) (length pre) (length pre + 1) 0 0 [] [] = (length pre + 1 + length s, 0, s, [])"
proof -
  obtain xs x where s: "s = xs @ [x]" using assms(2) by (cases s rule: rev_cases) auto
  let ?pat = "pre @ CHR ''%'' # xs @ [x]" and ?n = "length pre + 1"
  have x: "isalpha x" "x \<noteq> CHR ''{''" "\<forall>c \<in> set xs. isalpha c" using assms(1) s by auto
  have "scan_loop ?pat (length pre) ?n 0 0 [] [] = scan_loop ?pat (length pre) (?n + length xs) 0 0 [] []"
    using x(3) by (intro scan_loop_name) (simp_all add: nth_append)
  also have "\<dots> = scan_loop ?pat (length pre) (?n + length xs + 1) 0 0 s []"
    using x(1,2) by (subst scan_loop.simps) (simp add: nth_append s)
  also have "\<dots> = (?n + length s, 0, s, [])" by (subst scan_loop.simps) (simp add: s)
  finally show ?thesis by (simp add: s)
qed

lemma scan_loop_plain:
  assumes "\<forall>c \<in> set s. isalpha c" and "ends_name c"
  shows "scan_loop (pre @ CHR ''%'' # s @ c # rest) (length pre) (length pre + 1) 0 0 [] [] = (length pre + 1 + length s, 0, s, [])"
proof -
  let ?pat = "pre @ CHR ''%'' # s @ c # rest" and ?n = "length pre + 1"
  have "scan_loop ?pat (length pre) ?n 0 0 [] [] = scan_loop ?pat (length pre) (?n + length s) 0 0 [] []"
    using assms(1) by (intro scan_loop_name) (simp_all add: nth_append)
  also have "\<dots> = (?n + length s, 0, s, [])"
    using assms(2) by (subst scan_loop.simps) (simp add: nth_append ends_name_def substr_def)
  finally show ?thesis .
qed

lemma scan_loop_fmt:
  assumes "\<forall>c \<in> set s. isalpha c" and "CHR ''}'' \<notin> set f"
  shows "scan_loop (pre @ CHR ''%'' # s @ CHR ''{'' # f @ CHR ''}'' # rest) (length pre) (length pre + 1) 0 0 [] [] =
    (length pre + 3 + length s + length f, 0, s, f)"
proof -
  let ?pat = "pre @ CHR ''%'' # s @ CHR ''{'' # f @ CHR ''}'' # rest" and ?n = "length pre + 1"
  let ?b = "?n + length s"
  have "scan_loop ?pat (length pre) ?n 0 0 [] [] = scan_loop ?pat (length pre) ?b 0 0 [] []"
    using assms(1) by (intro scan_loop_name) (simp_all add: nth_append)
  also have "\<dots> = scan_loop ?pat (length pre) (?b + 1) 1 ?b s []"
    by (subst scan_loop.simps) (simp add: nth_append substr_def)
  also have "\<dots> = scan_loop ?pat (length pre) (?b + 1 + length f) 1 ?b s []"
    using assms(2) by (intro scan_loop_format) (auto simp: nth_append dest: nth_mem)
  also have "\<dots> = (length pre + 3 + length s + length f, 0, s, f)"
    by (subst scan_loop.simps) (simp add: nth_append substr_def)
  finally show ?thesis .
qed

text \<open>What the loop collects from tokens, with \<open>nstr\<close> pending.\<close>

fun collect :: "string \<Rightarrow> token list \<Rightarrow> (string \<times> string \<times> nat) list" where
  "collect nstr [] = flush nstr"
| "collect nstr (Lit s # ts) = collect (nstr @ s) ts"
| "collect nstr (t # ts) = flush nstr @ entry t # collect [] ts"

lemma render_Cons [simp]: "render (t # ts) = render_token t @ render ts" "render [] = []"
  by (simp_all add: render_def)

lemma render_follows:
  assumes "toks_ok (Plain s # ts)" and "ts \<noteq> []"
  shows "\<exists>c rest. render ts = c # rest \<and> ends_name c"
proof (cases "hd ts")
  case (Lit r)
  with assms obtain ts' where ts: "ts = Lit r # ts'" by (cases ts) auto
  with assms have "r \<noteq> []" "ends_name (hd r)" by auto
  then show ?thesis by (cases r) (simp_all add: ts)
next
  case (Plain r)
  with assms(2) show ?thesis by (cases ts) (auto simp: ends_name_def)
next
  case (Fmt r f)
  with assms(2) show ?thesis by (cases ts) (auto simp: ends_name_def)
qed

lemma init_loop_tokens:
  assumes "toks_ok ts"
  shows "\<exists>vec' nstr'. init_loop (pre @ render ts) (length pre) nstr vec err = Some (vec', nstr', err) \<and>
    vec' @ flush nstr' = vec @ collect nstr ts"
  using assms
proof (induction ts arbitrary: pre nstr vec)
  case Nil
  then show ?case by (simp add: init_loop_end)
next
  case (Cons t ts)
  show ?case
  proof (cases t)
    case (Lit s)
    with Cons.prems have "CHR ''%'' \<notin> set s" "toks_ok ts" by simp_all
    then show ?thesis
      using init_loop_literal [of s pre "render ts" nstr vec err] Cons.IH [of "pre @ s" "nstr @ s" vec] Lit by simp
  next
    case (Plain s)
    with Cons.prems have s: "s \<noteq> []" "\<forall>c \<in> set s. isalpha c" "toks_ok ts" by simp_all
    let ?pat = "pre @ CHR ''%'' # s @ render ts"
    have scan: "scan_loop ?pat (length pre) (length pre + 1) 0 0 [] [] = (length pre + 1 + length s, 0, s, [])"
    proof (cases "ts = []")
      case True
      with s show ?thesis using scan_loop_last [OF s(2,1)] by simp
    next
      case False
      then obtain c rest where "render ts = c # rest" "ends_name c" using render_follows [of s ts] Cons.prems Plain by blast
      then show ?thesis using scan_loop_plain [OF s(2)] by simp
    qed
    have "s ! 0 \<noteq> CHR ''%''" using s(1,2) by (cases s) auto
    then have "init_loop ?pat (length pre) nstr vec err =
        init_loop ?pat (length pre + 1 + length s) [] (vec @ flush nstr @ [(s, [], 1)]) err"
      using s(1) by (intro init_loop_spec [OF _ _ _ scan]) (simp_all add: nth_append)
    then show ?thesis
      using Cons.IH [of "pre @ CHR ''%'' # s" "[]" "vec @ flush nstr @ [(s, [], 1)]"] s(3) Plain by simp
  next
    case (Fmt s f)
    with Cons.prems have s: "\<forall>c \<in> set s. isalpha c" "CHR ''}'' \<notin> set f" "toks_ok ts" by simp_all
    let ?pat = "pre @ CHR ''%'' # s @ CHR ''{'' # f @ CHR ''}'' # render ts"
    have "(s @ CHR ''{'' # f @ CHR ''}'' # render ts) ! 0 \<noteq> CHR ''%''" using s(1) by (cases s) auto
    then have "init_loop ?pat (length pre) nstr vec err =
        init_loop ?pat (length pre + 3 + length s + length f) [] (vec @ flush nstr @ [(s, f, 1)]) err"
      by (intro init_loop_spec [OF _ _ _ scan_loop_fmt [OF s(1,2)]]) (simp_all add: nth_append)
    then show ?thesis
      using Cons.IH [of "pre @ CHR ''%'' # s @ CHR ''{'' # f @ ''}''" "[]" "vec @ flush nstr @ [(s, f, 1)]"] s(3) Fmt
      by (simp add: numeral_3_eq_3 add_ac split del: if_split)
  qed
qed

lemma collect_tokens:
  "toks_ok ts \<Longrightarrow> (case ts of Lit r # _ \<Rightarrow> nstr = [] | _ \<Rightarrow> True) \<Longrightarrow> collect nstr ts = flush nstr @ map entry ts"
proof (induction nstr ts rule: collect.induct)
  case (2 nstr s ts)
  then show ?case by (auto split: list.splits token.splits)
qed (auto split: list.splits token.splits)

lemma build_items_eq:
  "build_items vec f = f\<lparr>m_items := m_items f @ map (fst \<circ> build_item) vec, m_error := m_error f \<or> (\<exists>x \<in> set vec. snd (build_item x))\<rparr>"
  by (induction vec arbitrary: f) (auto split: prod.split)

lemma format_items_eq:
  "\<forall>i \<in> set items. item_format strftime getName i level e = Inr (out i) \<Longrightarrow>
   format_items strftime getName level e ss items = Inr (ss @ concat (map out items))"
  by (induction items arbitrary: ss) auto

section \<open>Properties of the formatter\<close>

text \<open>
  C24. Parsing a pattern ends for every text: the loop of \<open>LogFormatter::init\<close> returns, and makes at most
  one item for each character of the pattern.
\<close>

theorem init_terminates:
  "\<exists>f. new_LogFormatter pattern = Some f \<and> m_pattern f = pattern \<and> length (m_items f) \<le> length pattern"
proof -
  obtain vec nstr err where "init_loop pattern 0 [] [] False = Some (vec, nstr, err)"
    "length vec + length (flush nstr) \<le> length pattern"
    using init_loop_total [of "[]" "[]" 0 pattern False] by (auto simp: collected_def)
  then show ?thesis by (auto simp: new_LogFormatter_def LogFormatter_init_def build_items_eq)
qed

text \<open>
  C23. The parser reads a pattern as its tokens: from a text made of literals, names and names with
  format, \<open>init\<close> makes the item of each token, in order, and reports an error exactly when a name is unknown;
  formatting an event is then the concatenation of what the items print.
\<close>

theorem init_reads_tokens:
  assumes "toks_ok ts"
  shows "\<exists>f. new_LogFormatter (render ts) = Some f \<and> m_items f = map (fst \<circ> build_item \<circ> entry) ts \<and>
    (m_error f \<longleftrightarrow> (\<exists>s. s_format_items s = None \<and> (Plain s \<in> set ts \<or> (\<exists>fmt. Fmt s fmt \<in> set ts)))) \<and>
    ((\<forall>i \<in> set (m_items f). item_format strftime getName i level e = Inr (out i)) \<longrightarrow>
      LogFormatter_format strftime getName level e f = Inr (concat (map (out \<circ> fst \<circ> build_item \<circ> entry) ts)))"
proof -
  obtain vec nstr where l: "init_loop (render ts) 0 [] [] False = Some (vec, nstr, False)"
    "vec @ flush nstr = map entry ts"
    using init_loop_tokens [OF assms, of "[]" "[]" "[]" False] collect_tokens [OF assms, of "[]"]
    by (auto split: list.splits token.splits)
  have err: "snd (build_item (entry t)) \<longleftrightarrow> (\<exists>s. s_format_items s = None \<and> (t = Plain s \<or> (\<exists>fmt. t = Fmt s fmt)))" for t
    by (cases t) (auto simp: build_item_def split: option.splits)
  let ?f = "\<lparr>m_error = \<exists>t \<in> set ts. snd (build_item (entry t)), m_pattern = render ts, m_items = map (fst \<circ> build_item \<circ> entry) ts\<rparr>"
  have "new_LogFormatter (render ts) = Some ?f"
  proof -
    have "new_LogFormatter (render ts) = Some (build_items (vec @ flush nstr) \<lparr>m_error = False, m_pattern = render ts, m_items = []\<rparr>)"
      using l(1) by (simp add: new_LogFormatter_def LogFormatter_init_def)
    then show ?thesis unfolding l(2) build_items_eq by (simp add: comp_assoc)
  qed
  moreover have "LogFormatter_format strftime getName level e ?f = Inr (concat (map (out \<circ> fst \<circ> build_item \<circ> entry) ts))"
    if "\<forall>i \<in> set (m_items ?f). item_format strftime getName i level e = Inr (out i)"
    using format_items_eq [OF that, of "[]"] by (simp add: LogFormatter_format_def comp_assoc)
  moreover have "m_error ?f \<longleftrightarrow> (\<exists>s. s_format_items s = None \<and> (Plain s \<in> set ts \<or> (\<exists>fmt. Fmt s fmt \<in> set ts)))"
    by (auto simp: err)
  ultimately show ?thesis by (intro exI [of _ ?f]) auto
qed

text \<open>The default pattern of a logger, as tokens.\<close>

definition default_tokens :: "token list" where
  "default_tokens = [Fmt ''d'' ''%Y-%m-%d %H:%M:%S'', Plain ''T'', Plain ''t'', Plain ''T'', Plain ''N'', Plain ''T'', Plain ''F'',
     Plain ''T'', Lit ''['', Plain ''p'', Lit '']'', Plain ''T'', Lit ''['', Plain ''c'', Lit '']'', Plain ''T'', Plain ''f'', Lit '':'', Plain ''l'',
     Plain ''T'', Plain ''m'', Plain ''n'']"

lemma default_tokens_ok: "toks_ok default_tokens"
  by (simp add: default_tokens_def isalpha_def ends_name_def)

theorem init_reads_tokens_witness:
  "\<exists>f. new_LogFormatter ''%d{%Y-%m-%d %H:%M:%S}%T%t%T%N%T%F%T[%p]%T[%c]%T%f:%l%T%m%n'' = Some f \<and> \<not> m_error f \<and>
     m_items f = [DateTimeFormatItem ''%Y-%m-%d %H:%M:%S'', TabFormatItem, ThreadIdFormatItem, TabFormatItem, ThreadNameFormatItem,
       TabFormatItem, FiberIdFormatItem, TabFormatItem, StringFormatItem ''['', LevelFormatItem, StringFormatItem '']'', TabFormatItem,
       StringFormatItem ''['', NameFormatItem, StringFormatItem '']'', TabFormatItem, FilenameFormatItem, StringFormatItem '':'', LineFormatItem,
       TabFormatItem, MessageFormatItem, NewLineFormatItem]"
proof -
  have r: "render default_tokens = ''%d{%Y-%m-%d %H:%M:%S}%T%t%T%N%T%F%T[%p]%T[%c]%T%f:%l%T%m%n''"
    by (simp add: default_tokens_def)
  have known: "s_format_items s \<noteq> None" if "Plain s \<in> set default_tokens \<or> (\<exists>fmt. Fmt s fmt \<in> set default_tokens)" for s
    using that by (auto simp: default_tokens_def s_format_items_def)
  have items: "map (fst \<circ> build_item \<circ> entry) default_tokens = [DateTimeFormatItem ''%Y-%m-%d %H:%M:%S'', TabFormatItem, ThreadIdFormatItem, TabFormatItem, ThreadNameFormatItem,
       TabFormatItem, FiberIdFormatItem, TabFormatItem, StringFormatItem ''['', LevelFormatItem, StringFormatItem '']'', TabFormatItem,
       StringFormatItem ''['', NameFormatItem, StringFormatItem '']'', TabFormatItem, FilenameFormatItem, StringFormatItem '':'', LineFormatItem,
       TabFormatItem, MessageFormatItem, NewLineFormatItem]"
    by (simp add: default_tokens_def build_item_def s_format_items_def new_DateTimeFormatItem_def)
  from init_reads_tokens [OF default_tokens_ok, of "\<lambda>_ _. []" "\<lambda>_. []" DEBUG undefined "\<lambda>_. []"]
  obtain f where "new_LogFormatter (render default_tokens) = Some f" "m_items f = map (fst \<circ> build_item \<circ> entry) default_tokens"
    "m_error f \<longleftrightarrow> (\<exists>s. s_format_items s = None \<and> (Plain s \<in> set default_tokens \<or> (\<exists>fmt. Fmt s fmt \<in> set default_tokens)))"
    by blast
  with known show ?thesis unfolding r items by blast
qed

text \<open>
  The escape \<^verbatim>\<open>%%\<close> does not work: the first sign is taken as a literal but the second is not skipped and starts
  a name of its own, so that after a text without percent signs \<^verbatim>\<open>%%\<close> makes the pattern invalid, unless a
  name happens to follow.
\<close>

theorem escaped_percent_fails:
  assumes "CHR ''%'' \<notin> set pre" and "rest = [] \<or> ends_name (hd rest) \<and> hd rest \<noteq> CHR ''%''"
  shows "\<exists>f. new_LogFormatter (pre @ ''%%'' @ rest) = Some f \<and> m_error f"
proof -
  let ?pat = "pre @ ''%%'' @ rest" and ?vec = "[(pre @ ''%'', [], 0), ([], [], 1)]"
  have "init_loop ?pat 0 [] [] False = init_loop ?pat (length pre) pre [] False"
    using init_loop_literal [OF assms(1), of "[]" "''%%'' @ rest" "[]" "[]" False] by simp
  also have "\<dots> = init_loop ?pat (length pre + 1) (pre @ ''%'') [] False"
    by (subst init_loop.simps) (simp add: nth_append)
  also have "\<dots> = init_loop ?pat (length pre + 2) [] ([] @ flush (pre @ ''%'') @ [([], [], 1)]) False"
  proof (rule init_loop_spec)
    show "scan_loop ?pat (length pre + 1) (length pre + 1 + 1) 0 0 [] [] = (length pre + 2, 0, [], [])"
      using assms(2) by (subst scan_loop.simps) (auto simp: nth_append substr_def ends_name_def hd_conv_nth)
    show "\<not> (length pre + 1 + 1 < length ?pat \<and> ?pat ! (length pre + 1 + 1) = CHR ''%'')"
      using assms(2) by (auto simp: nth_append hd_conv_nth)
  qed (simp_all add: nth_append)
  finally have run: "init_loop ?pat 0 [] [] False = init_loop ?pat (length pre + 2) [] ?vec False" by simp
  obtain vec nstr err w where r: "init_loop ?pat (length pre + 2) [] ?vec False = Some (vec, nstr, err)" "vec = ?vec @ w"
    using init_loop_total [of ?vec "[]" "length pre + 2" ?pat False] by (auto simp: collected_def)
  have "s_format_items [] = None" by (simp add: s_format_items_def)
  then have "\<exists>x \<in> set vec. snd (build_item x)" by (simp add: r(2) build_item_def)
  with run r(1) show ?thesis by (auto simp: new_LogFormatter_def LogFormatter_init_def build_items_eq)
qed

theorem escaped_percent_fails_witness:
  "\<exists>f. new_LogFormatter ''100%% done'' = Some f \<and> m_error f"
  using escaped_percent_fails [of "''100''" "'' done''"] by (simp add: ends_name_def isalpha_def)

end
