(* ===== verification/Logger.thy ===== *)
theory Logger
  imports Log_Format
begin

text \<open>
  The other half of \<^verbatim>\<open>sylar/log.h\<close> and \<^verbatim>\<open>sylar/log.cpp\<close>: appenders, loggers, the logger manager and the
  listener that applies the configuration variable \<^verbatim>\<open>logs\<close>. Loggers and appenders are objects behind
  shared pointers: they live in a heap. Formatters never change once made and are values. The spin locks
  only serialise the operations, each of which is one step here. The environment of a
  call has the text of dates, the time in seconds and which files can be opened.
\<close>

section \<open>Data\<close>

type_synonym appender_ptr = nat

text \<open>The stream of a file appender: its position is the end of the file it opened; \<open>False\<close>: it failed.\<close>

datatype appender_kind = Stdout | File string bool u64

record appender =
  ap_kind :: appender_kind
  ap_level :: level
  m_hasFormatter :: bool
  ap_formatter :: "log_formatter option"

record logger =
  lg_name :: string
  lg_level :: level
  m_appenders :: "appender_ptr list"
  lg_formatter :: "log_formatter option"
  lg_root :: "logger_ptr option"

record log_mem =
  loggers :: "logger_ptr \<Rightarrow> logger"
  next_logger :: nat
  appenders :: "appender_ptr \<Rightarrow> appender"
  next_appender :: nat
  m_loggers :: "string \<rightharpoonup> logger_ptr"
  m_root :: logger_ptr
  cout :: string
  files :: "string \<Rightarrow> string"

record log_env =
  e_strftime :: "string \<Rightarrow> u64 \<Rightarrow> string"
  e_time :: u64
  e_can_open :: "string \<Rightarrow> bool"

definition set_logger :: "logger_ptr \<Rightarrow> (logger \<Rightarrow> logger) \<Rightarrow> log_mem \<Rightarrow> log_mem" where
  "set_logger l g m = m\<lparr>loggers := (loggers m)(l := g (loggers m l))\<rparr>"

definition set_appender :: "appender_ptr \<Rightarrow> (appender \<Rightarrow> appender) \<Rightarrow> log_mem \<Rightarrow> log_mem" where
  "set_appender p g m = m\<lparr>appenders := (appenders m)(p := g (appenders m p))\<rparr>"

definition getName :: "log_mem \<Rightarrow> logger_ptr \<Rightarrow> string" where
  "getName m l = lg_name (loggers m l)"

section \<open>Appenders\<close>

definition Appender_setFormatter :: "log_formatter option \<Rightarrow> appender_ptr \<Rightarrow> log_mem \<Rightarrow> log_mem" where
  "Appender_setFormatter formatter p m =
     set_appender p (\<lambda>a. a\<lparr>ap_formatter := formatter, m_hasFormatter := (formatter \<noteq> None)\<rparr>) m"

definition Appender_getFormatter :: "appender_ptr \<Rightarrow> log_mem \<Rightarrow> log_formatter option" where
  "Appender_getFormatter p m = ap_formatter (appenders m p)"

definition Appender_setLevel :: "level \<Rightarrow> appender_ptr \<Rightarrow> log_mem \<Rightarrow> log_mem" where
  "Appender_setLevel level p m = set_appender p (\<lambda>a. a\<lparr>ap_level := level\<rparr>) m"

definition new_appender :: "appender_kind \<Rightarrow> log_mem \<Rightarrow> appender_ptr \<times> log_mem" where
  "new_appender k m =
     (next_appender m, m\<lparr>next_appender := Suc (next_appender m),
        appenders := (appenders m)(next_appender m := \<lparr>ap_kind = k, ap_level = DEBUG, m_hasFormatter = False, ap_formatter = None\<rparr>)\<rparr>)"

text \<open>
  \<^verbatim>\<open>FileLogAppender::reopen\<close>: opening for output empties the file; the stream is good afterwards exactly when
  the file could be opened.
\<close>

definition reopen :: "log_env \<Rightarrow> appender_ptr \<Rightarrow> log_mem \<Rightarrow> bool \<times> log_mem" where
  "reopen env p m =
     (case ap_kind (appenders m p) of
        Stdout \<Rightarrow> (False, m)
      | File m_filename good m_lastTime \<Rightarrow>
          let ok = e_can_open env m_filename;
              m1 = set_appender p (\<lambda>a. a\<lparr>ap_kind := File m_filename ok m_lastTime\<rparr>) m
          in (ok, if ok then m1\<lparr>files := (files m1)(m_filename := [])\<rparr> else m1))"

definition new_FileLogAppender :: "log_env \<Rightarrow> string \<Rightarrow> log_mem \<Rightarrow> appender_ptr \<times> log_mem" where
  "new_FileLogAppender env filename m =
     (let (p, m1) = new_appender (File filename True 0) m in (p, snd (reopen env p m1)))"

text \<open>
  The bodies of the virtual \<open>log\<close>, once the level is admitted. A file appender opens its file again
  whenever the second has changed.
\<close>

definition stdout_write :: "log_env \<Rightarrow> level \<Rightarrow> log_event \<Rightarrow> appender_ptr \<Rightarrow> log_mem \<Rightarrow> log_mem res" where
  "stdout_write env level e p m =
     bindE (deref (ap_formatter (appenders m p)) ''m_formatter'') (\<lambda>f.
     bindE (LogFormatter_format (e_strftime env) (getName m) level e f) (\<lambda>out.
     Inr (m\<lparr>cout := cout m @ out\<rparr>)))"

definition file_tick :: "log_env \<Rightarrow> appender_ptr \<Rightarrow> log_mem \<Rightarrow> log_mem" where
  "file_tick env p m =
     (case ap_kind (appenders m p) of
        Stdout \<Rightarrow> m
      | File m_filename good m_lastTime \<Rightarrow>
          if e_time env \<noteq> m_lastTime
          then set_appender p (\<lambda>a. case ap_kind a of File n g t \<Rightarrow> a\<lparr>ap_kind := File n g (e_time env)\<rparr> | Stdout \<Rightarrow> a)
                 (snd (reopen env p m))
          else m)"

definition file_write :: "log_env \<Rightarrow> level \<Rightarrow> log_event \<Rightarrow> appender_ptr \<Rightarrow> log_mem \<Rightarrow> log_mem res" where
  "file_write env level e p m =
     bindE (deref (ap_formatter (appenders m p)) ''m_formatter'') (\<lambda>f.
     bindE (LogFormatter_format (e_strftime env) (getName m) level e f) (\<lambda>out.
     Inr (case ap_kind (appenders m p) of
            File n g t \<Rightarrow> if g then m\<lparr>files := (files m)(n := files m n @ out)\<rparr> else m
          | Stdout \<Rightarrow> m)))"

definition Appender_log :: "log_env \<Rightarrow> level \<Rightarrow> log_event \<Rightarrow> appender_ptr \<Rightarrow> log_mem \<Rightarrow> log_mem res" where
  "Appender_log env level e p m =
     (if level \<ge> ap_level (appenders m p) then
        case ap_kind (appenders m p) of
          Stdout \<Rightarrow> stdout_write env level e p m
        | File m_filename good m_lastTime \<Rightarrow> file_write env level e p (file_tick env p m)
      else Inr m)"

section \<open>Loggers\<close>

definition default_pattern :: string where
  "default_pattern = ''%d{%Y-%m-%d %H:%M:%S}%T%t%T%N%T%F%T[%p]%T[%c]%T%f:%l%T%m%n''"

text \<open>\<^verbatim>\<open>new LogFormatter(pattern)\<close>, which always returns (see \<^verbatim>\<open>Log_Format\<close>).\<close>

definition make_formatter :: "string \<Rightarrow> log_formatter" where
  "make_formatter pattern = the (new_LogFormatter pattern)"

definition new_Logger :: "string \<Rightarrow> log_mem \<Rightarrow> logger_ptr \<times> log_mem" where
  "new_Logger name m =
     (next_logger m, m\<lparr>next_logger := Suc (next_logger m),
        loggers := (loggers m)(next_logger m := \<lparr>lg_name = name, lg_level = DEBUG, m_appenders = [],
          lg_formatter = Some (make_formatter default_pattern), lg_root = None\<rparr>)\<rparr>)"

definition addAppender :: "appender_ptr \<Rightarrow> logger_ptr \<Rightarrow> log_mem \<Rightarrow> log_mem" where
  "addAppender p l m =
     (let m1 = (if Appender_getFormatter p m = None
                then set_appender p (\<lambda>a. a\<lparr>ap_formatter := lg_formatter (loggers m l)\<rparr>) m else m)
      in set_logger l (\<lambda>lg. lg\<lparr>m_appenders := m_appenders lg @ [p]\<rparr>) m1)"

definition delAppender :: "appender_ptr \<Rightarrow> logger_ptr \<Rightarrow> log_mem \<Rightarrow> log_mem" where
  "delAppender p l m = set_logger l (\<lambda>lg. lg\<lparr>m_appenders := remove1 p (m_appenders lg)\<rparr>) m"

definition clearAppenders :: "logger_ptr \<Rightarrow> log_mem \<Rightarrow> log_mem" where
  "clearAppenders l m = set_logger l (\<lambda>lg. lg\<lparr>m_appenders := []\<rparr>) m"

definition Logger_setLevel :: "level \<Rightarrow> logger_ptr \<Rightarrow> log_mem \<Rightarrow> log_mem" where
  "Logger_setLevel level l m = set_logger l (\<lambda>lg. lg\<lparr>lg_level := level\<rparr>) m"

fun give_formatter :: "log_formatter option \<Rightarrow> appender_ptr list \<Rightarrow> log_mem \<Rightarrow> log_mem" where
  "give_formatter val [] m = m"
| "give_formatter val (p # ps) m =
     give_formatter val ps
       (if \<not> m_hasFormatter (appenders m p) then set_appender p (\<lambda>a. a\<lparr>ap_formatter := val\<rparr>) m else m)"

definition Logger_setFormatter :: "log_formatter option \<Rightarrow> logger_ptr \<Rightarrow> log_mem \<Rightarrow> log_mem" where
  "Logger_setFormatter val l m =
     (let m1 = set_logger l (\<lambda>lg. lg\<lparr>lg_formatter := val\<rparr>) m
      in give_formatter val (m_appenders (loggers m1 l)) m1)"

definition Logger_setFormatter_str :: "string \<Rightarrow> logger_ptr \<Rightarrow> log_mem \<Rightarrow> log_mem" where
  "Logger_setFormatter_str val l m =
     (let new_val = make_formatter val
      in if m_error new_val
         then m\<lparr>cout := cout m @ ''Logger setFormatter name='' @ lg_name (loggers m l) @ '' value='' @ val @ '' invalid formatter'' @ [CHR 0x0A]\<rparr>
         else Logger_setFormatter (Some new_val) l m)"

fun log_appenders :: "log_env \<Rightarrow> level \<Rightarrow> log_event \<Rightarrow> appender_ptr list \<Rightarrow> log_mem \<Rightarrow> log_mem res" where
  "log_appenders env level e [] m = Inr m"
| "log_appenders env level e (p # ps) m = bindE (Appender_log env level e p m) (log_appenders env level e ps)"

partial_function (option) Logger_log ::
  "log_env \<Rightarrow> level \<Rightarrow> log_event \<Rightarrow> logger_ptr \<Rightarrow> log_mem \<Rightarrow> log_mem res option" where
  "Logger_log env level e l m =
     (if level \<ge> lg_level (loggers m l) then
        if m_appenders (loggers m l) \<noteq> [] then Some (log_appenders env level e (m_appenders (loggers m l)) m)
        else (case lg_root (loggers m l) of
                Some r \<Rightarrow> Logger_log env level e r m
              | None \<Rightarrow> Some (Inr m))
      else Some (Inr m))"

definition Logger_debug :: "log_env \<Rightarrow> log_event \<Rightarrow> logger_ptr \<Rightarrow> log_mem \<Rightarrow> log_mem res option" where
  "Logger_debug env e = Logger_log env DEBUG e"

definition Logger_info :: "log_env \<Rightarrow> log_event \<Rightarrow> logger_ptr \<Rightarrow> log_mem \<Rightarrow> log_mem res option" where
  "Logger_info env e = Logger_log env INFO e"

definition Logger_warn :: "log_env \<Rightarrow> log_event \<Rightarrow> logger_ptr \<Rightarrow> log_mem \<Rightarrow> log_mem res option" where
  "Logger_warn env e = Logger_log env WARN e"

definition Logger_fatal :: "log_env \<Rightarrow> log_event \<Rightarrow> logger_ptr \<Rightarrow> log_mem \<Rightarrow> log_mem res option" where
  "Logger_fatal env e = Logger_log env FATAL e"

definition Logger_error :: "log_env \<Rightarrow> log_event \<Rightarrow> logger_ptr \<Rightarrow> log_mem \<Rightarrow> log_mem res option" where
  "Logger_error env e = Logger_log env ERROR e"

definition Logger_getFormatter :: "logger_ptr \<Rightarrow> log_mem \<Rightarrow> log_formatter option" where
  "Logger_getFormatter l m = lg_formatter (loggers m l)"

text \<open>
  The macros \<^verbatim>\<open>SYLAR_LOG_LEVEL\<close> and \<^verbatim>\<open>SYLAR_LOG_FMT_LEVEL\<close>: the event is made when the level of the logger
  admits it, filled (by the stream operators with \<open>msg\<close>, or by \<^verbatim>\<open>LogEvent::format\<close> with what \<^verbatim>\<open>vasprintf\<close> gives), and logged by the
  destructor of its wrapper.
\<close>

definition delete_LogEventWrap :: "log_env \<Rightarrow> log_event \<Rightarrow> log_mem \<Rightarrow> log_mem res option" where
  "delete_LogEventWrap env e m = Logger_log env (m_event_level e) e (m_logger e) m"

definition SYLAR_LOG_LEVEL ::
  "log_env \<Rightarrow> logger_ptr \<Rightarrow> level \<Rightarrow> log_event \<Rightarrow> string \<Rightarrow> log_mem \<Rightarrow> log_mem res option" where
  "SYLAR_LOG_LEVEL env l level e msg m =
     (if lg_level (loggers m l) \<le> level
      then delete_LogEventWrap env (e\<lparr>m_logger := l, m_event_level := level, m_ss := msg\<rparr>) m
      else Some (Inr m))"

definition SYLAR_LOG_FMT_LEVEL ::
  "log_env \<Rightarrow> logger_ptr \<Rightarrow> level \<Rightarrow> log_event \<Rightarrow> string option \<Rightarrow> log_mem \<Rightarrow> log_mem res option" where
  "SYLAR_LOG_FMT_LEVEL env l level e out m =
     (if lg_level (loggers m l) \<le> level
      then delete_LogEventWrap env (LogEvent_format out (e\<lparr>m_logger := l, m_event_level := level, m_ss := []\<rparr>)) m
      else Some (Inr m))"

section \<open>The manager\<close>

definition empty_log_mem :: log_mem where
  "empty_log_mem =
     \<lparr>loggers = (\<lambda>_. \<lparr>lg_name = [], lg_level = UNKNOW, m_appenders = [], lg_formatter = None, lg_root = None\<rparr>), next_logger = 0,
      appenders = (\<lambda>_. \<lparr>ap_kind = Stdout, ap_level = DEBUG, m_hasFormatter = False, ap_formatter = None\<rparr>), next_appender = 0,
      m_loggers = Map.empty, m_root = 0, cout = [], files = (\<lambda>_. [])\<rparr>"

definition new_LoggerManager :: "log_mem \<Rightarrow> log_mem" where
  "new_LoggerManager m =
     (let (root, m1) = new_Logger ''root'' m;
          m2 = m1\<lparr>m_root := root\<rparr>;
          (p, m3) = new_appender Stdout m2;
          m4 = addAppender p root m3
      in m4\<lparr>m_loggers := (m_loggers m4)(lg_name (loggers m4 root) \<mapsto> root)\<rparr>)"

definition getLogger :: "string \<Rightarrow> log_mem \<Rightarrow> logger_ptr \<times> log_mem" where
  "getLogger name m =
     (case m_loggers m name of
        Some l \<Rightarrow> (l, m)
      | None \<Rightarrow>
          let (l, m1) = new_Logger name m;
              m2 = set_logger l (\<lambda>lg. lg\<lparr>lg_root := Some (m_root m1)\<rparr>) m1
          in (l, m2\<lparr>m_loggers := (m_loggers m2)(name \<mapsto> l)\<rparr>))"

section \<open>The configuration\<close>

record log_appender_define =
  lad_type :: int
  lad_level :: level
  lad_formatter :: string
  lad_file :: string

record log_define =
  ld_name :: string
  ld_level :: level
  ld_formatter :: string
  ld_appenders :: "log_appender_define list"

text \<open>The listener of \<^verbatim>\<open>LogIniter\<close>. A set of definitions is ordered by name: a list with distinct names.\<close>

definition make_appender :: "log_env \<Rightarrow> string \<Rightarrow> log_appender_define \<Rightarrow> log_mem \<Rightarrow> (appender_ptr \<times> log_mem) res" where
  "make_appender env name a m =
     (let (ap, m1) = (if lad_type a = 1 then (let (p, m') = new_FileLogAppender env (lad_file a) m in (Some p, m'))
                      else if lad_type a = 2 then (let (p, m') = new_appender Stdout m in (Some p, m'))
                      else (None, m))
      in bindE (deref ap ''ap'') (\<lambda>p.
         let m2 = Appender_setLevel (lad_level a) p m1
         in if lad_formatter a \<noteq> [] then
              let fmt = make_formatter (lad_formatter a)
              in if \<not> m_error fmt then Inr (p, Appender_setFormatter (Some fmt) p m2)
                 else Inr (p, m2\<lparr>cout := cout m2 @ ''log.name='' @ name @ '' appender type='' @ show_int (lad_type a)
                        @ '' formatter='' @ lad_formatter a @ '' is invalid'' @ [CHR 0x0A]\<rparr>)
            else Inr (p, m2)))"

fun make_appenders :: "log_env \<Rightarrow> string \<Rightarrow> logger_ptr \<Rightarrow> log_appender_define list \<Rightarrow> log_mem \<Rightarrow> log_mem res" where
  "make_appenders env name l [] m = Inr m"
| "make_appenders env name l (a # as) m =
     bindE (make_appender env name a m) (\<lambda>(p, m1). make_appenders env name l as (addAppender p l m1))"

definition apply_define :: "log_env \<Rightarrow> log_define list \<Rightarrow> log_define \<Rightarrow> log_mem \<Rightarrow> log_mem res" where
  "apply_define env old i m =
     (if find (\<lambda>d. ld_name d = ld_name i) old = Some i then Inr m
      else
        let (logger, m1) = getLogger (ld_name i) m;
            m2 = Logger_setLevel (ld_level i) logger m1;
            m3 = (if ld_formatter i \<noteq> [] then Logger_setFormatter_str (ld_formatter i) logger m2 else m2);
            m4 = clearAppenders logger m3
        in make_appenders env (ld_name i) logger (ld_appenders i) m4)"

fun apply_defines :: "log_env \<Rightarrow> log_define list \<Rightarrow> log_define list \<Rightarrow> log_mem \<Rightarrow> log_mem res" where
  "apply_defines env old [] m = Inr m"
| "apply_defines env old (i # is) m = bindE (apply_define env old i m) (apply_defines env old is)"

definition delete_define :: "log_define list \<Rightarrow> log_define \<Rightarrow> log_mem \<Rightarrow> log_mem" where
  "delete_define new i m =
     (if find (\<lambda>d. ld_name d = ld_name i) new = None then
        let (logger, m1) = getLogger (ld_name i) m
        in clearAppenders logger (Logger_setLevel 100 logger m1)
      else m)"

definition on_logger_conf_changed ::
  "log_env \<Rightarrow> log_event \<Rightarrow> log_define list \<Rightarrow> log_define list \<Rightarrow> log_mem \<Rightarrow> log_mem res option" where
  "on_logger_conf_changed env e old new m =
     (case SYLAR_LOG_LEVEL env (m_root m) INFO e ''on_logger_conf_changed'' m of
        None \<Rightarrow> None
      | Some r \<Rightarrow> Some (bindE r (\<lambda>m1. bindE (apply_defines env old new m1) (\<lambda>m2. Inr (fold (delete_define new) old m2)))))"

section \<open>Lemmas\<close>

lemma set_simps [simp]:
  "loggers (set_logger l g m) = (loggers m)(l := g (loggers m l))"
  "appenders (set_logger l g m) = appenders m" "next_logger (set_logger l g m) = next_logger m"
  "next_appender (set_logger l g m) = next_appender m" "m_loggers (set_logger l g m) = m_loggers m"
  "m_root (set_logger l g m) = m_root m" "cout (set_logger l g m) = cout m" "files (set_logger l g m) = files m"
  "appenders (set_appender p h m) = (appenders m)(p := h (appenders m p))"
  "loggers (set_appender p h m) = loggers m" "next_logger (set_appender p h m) = next_logger m"
  "next_appender (set_appender p h m) = next_appender m" "m_loggers (set_appender p h m) = m_loggers m"
  "m_root (set_appender p h m) = m_root m" "cout (set_appender p h m) = cout m" "files (set_appender p h m) = files m"
  by (simp_all add: set_logger_def set_appender_def)

text \<open>
  Every logger and every attached appender has a formatter; only the root logger is above another one;
  the map of loggers holds each under its name.
\<close>

definition logger_ok :: "log_mem \<Rightarrow> logger_ptr \<Rightarrow> bool" where
  "logger_ok m l \<longleftrightarrow> lg_formatter (loggers m l) \<noteq> None \<and> lg_root (loggers m l) \<in> {None, Some (m_root m)} \<and>
     (\<forall>p \<in> set (m_appenders (loggers m l)). p < next_appender m \<and> ap_formatter (appenders m p) \<noteq> None)"

definition log_inv :: "log_mem \<Rightarrow> bool" where
  "log_inv m \<longleftrightarrow> m_root m < next_logger m \<and> lg_root (loggers m (m_root m)) = None \<and>
     (\<forall>l < next_logger m. logger_ok m l) \<and>
     (\<forall>n l. m_loggers m n = Some l \<longrightarrow> l < next_logger m \<and> lg_name (loggers m l) = n)"

text \<open>
  What an operation that works on the logger \<open>l\<close> keeps: the other loggers, the appenders outside of \<open>A\<close>, and every name.
\<close>

definition keeps :: "logger_ptr \<Rightarrow> appender_ptr set \<Rightarrow> log_mem \<Rightarrow> log_mem \<Rightarrow> bool" where
  "keeps l A m m' \<longleftrightarrow> next_logger m \<le> next_logger m' \<and> next_appender m \<le> next_appender m' \<and> m_root m' = m_root m \<and>
     m_loggers m \<subseteq>\<^sub>m m_loggers m' \<and> (\<forall>k < next_logger m. k \<noteq> l \<longrightarrow> loggers m' k = loggers m k) \<and>
     (\<forall>p < next_appender m. p \<notin> A \<longrightarrow> appenders m' p = appenders m p)"

lemma keeps_refl [simp]: "keeps l A m m"
  by (simp add: keeps_def)

lemma keeps_trans: "keeps l A m m1 \<Longrightarrow> keeps l A m1 m2 \<Longrightarrow> keeps l A m m2"
  unfolding keeps_def by (metis (no_types, lifting) order.strict_trans2 map_le_trans order_trans)

lemma keeps_mono: "keeps l A m m' \<Longrightarrow> A \<subseteq> B \<Longrightarrow> keeps l B m m'"
  by (auto simp: keeps_def)

text \<open>Writing a line changes only the output and the streams of file appenders.\<close>

fun file_of :: "appender_kind \<Rightarrow> string option" where
  "file_of Stdout = None"
| "file_of (File m_filename good m_lastTime) = Some m_filename"

lemma file_of_None [simp]: "file_of k = None \<longleftrightarrow> k = Stdout"
  by (cases k) simp_all

definition same_setup :: "log_mem \<Rightarrow> log_mem \<Rightarrow> bool" where
  "same_setup m m' \<longleftrightarrow> loggers m' = loggers m \<and> next_logger m' = next_logger m \<and> next_appender m' = next_appender m \<and>
     m_loggers m' = m_loggers m \<and> m_root m' = m_root m \<and>
     (\<forall>p. ap_formatter (appenders m' p) = ap_formatter (appenders m p) \<and> ap_level (appenders m' p) = ap_level (appenders m p) \<and>
        m_hasFormatter (appenders m' p) = m_hasFormatter (appenders m p) \<and> file_of (ap_kind (appenders m' p)) = file_of (ap_kind (appenders m p)))"

lemma same_setup_Stdout: "same_setup m m' \<Longrightarrow> ap_kind (appenders m' p) = Stdout \<longleftrightarrow> ap_kind (appenders m p) = Stdout"
  unfolding same_setup_def by (metis file_of_None)

lemma same_setup_refl [simp]: "same_setup m m"
  by (simp add: same_setup_def)

lemma same_setup_trans: "same_setup m m1 \<Longrightarrow> same_setup m1 m2 \<Longrightarrow> same_setup m m2"
  by (simp add: same_setup_def)

lemma log_inv_same_setup: "same_setup m m' \<Longrightarrow> log_inv m \<Longrightarrow> log_inv m'"
  by (simp add: same_setup_def log_inv_def logger_ok_def)

lemma file_tick_setup: "same_setup m (file_tick env p m) \<and> cout (file_tick env p m) = cout m"
  by (auto simp: file_tick_def same_setup_def reopen_def Let_def split: appender_kind.splits)

lemma file_write_setup: "file_write env level e p m = Inr m' \<Longrightarrow> same_setup m m' \<and> cout m' = cout m"
  by (cases "ap_kind (appenders m p)") (auto simp: file_write_def same_setup_def bindE_eq_Inr split: if_splits)

lemma Appender_log_setup:
  assumes "Appender_log env level e p m = Inr m'"
  shows "same_setup m m' \<and> (ap_kind (appenders m p) \<noteq> Stdout \<longrightarrow> cout m' = cout m)"
proof (cases "ap_kind (appenders m p)")
  case Stdout
  with assms show ?thesis by (auto simp: Appender_log_def stdout_write_def bindE_eq_Inr same_setup_def split: if_splits)
next
  case (File n g t)
  with assms show ?thesis
    using file_tick_setup [of m env p] file_write_setup [of env level e p "file_tick env p m" m'] same_setup_trans
    by (auto simp: Appender_log_def split: if_splits)
qed

lemma log_appenders_setup: "log_appenders env level e ps m = Inr m' \<Longrightarrow> same_setup m m'"
  by (induction ps arbitrary: m) (auto simp: bindE_eq_Inr dest!: Appender_log_setup intro: same_setup_trans)

text \<open>The appenders that see an event: those of the logger, or, when it has none, those of the root.\<close>

definition sinks :: "log_mem \<Rightarrow> logger_ptr \<Rightarrow> level \<Rightarrow> appender_ptr list" where
  "sinks m l level =
     (if level < lg_level (loggers m l) then []
      else if m_appenders (loggers m l) \<noteq> [] then m_appenders (loggers m l)
      else case lg_root (loggers m l) of
             None \<Rightarrow> []
           | Some r \<Rightarrow> if level < lg_level (loggers m r) then [] else m_appenders (loggers m r))"

lemma Logger_log_sinks:
  assumes "log_inv m" and "l < next_logger m"
  shows "Logger_log env level e l m = Some (log_appenders env level e (sinks m l level) m)"
proof (cases "level < lg_level (loggers m l) \<or> m_appenders (loggers m l) \<noteq> []")
  case True
  then show ?thesis by (subst Logger_log.simps) (auto simp: sinks_def)
next
  case False
  show ?thesis
  proof (cases "lg_root (loggers m l)")
    case None
    with False show ?thesis by (subst Logger_log.simps) (simp add: sinks_def)
  next
    case (Some r)
    then have "r = m_root m" "lg_root (loggers m r) = None" using assms by (auto simp: log_inv_def logger_ok_def)
    then have "Logger_log env level e r m =
        Some (log_appenders env level e (if level < lg_level (loggers m r) then [] else m_appenders (loggers m r)) m)"
      by (subst Logger_log.simps) simp
    with False Some show ?thesis by (subst Logger_log.simps) (simp add: sinks_def)
  qed
qed

lemma log_inv_logger:
  assumes "log_inv m" and "lg_root (g (loggers m l)) = lg_root (loggers m l)" and "lg_name (g (loggers m l)) = lg_name (loggers m l)"
    and "lg_formatter (g (loggers m l)) \<noteq> None"
    and "\<forall>p \<in> set (m_appenders (g (loggers m l))). p < next_appender m \<and> ap_formatter (appenders m p) \<noteq> None"
  shows "log_inv (set_logger l g m)"
  using assms by (auto simp: log_inv_def logger_ok_def)

lemma log_inv_appender:
  assumes "log_inv m" and "ap_formatter (appenders m p) \<noteq> None \<longrightarrow> ap_formatter (h (appenders m p)) \<noteq> None"
  shows "log_inv (set_appender p h m)"
  using assms by (auto simp: log_inv_def logger_ok_def)

lemma log_inv_output: "log_inv (m\<lparr>cout := x\<rparr>) = log_inv m" "log_inv (m\<lparr>files := y\<rparr>) = log_inv m"
  by (simp_all add: log_inv_def logger_ok_def)

lemma log_inv_ok: "log_inv m \<Longrightarrow> l < next_logger m \<Longrightarrow> logger_ok m l"
  by (simp add: log_inv_def)

lemma getLogger_spec:
  assumes "log_inv m" and "getLogger n m = (l, m')"
  shows "log_inv m' \<and> l < next_logger m' \<and> m_loggers m' n = Some l \<and> keeps l {} m m' \<and> (\<forall>k < next_logger m'. k < next_logger m \<or> k = l) \<and>
    appenders m' = appenders m \<and> next_appender m' = next_appender m \<and>
    (if l < next_logger m then m' = m else m_appenders (loggers m' l) = [] \<and> m_loggers m n = None)"
proof (cases "m_loggers m n")
  case None
  have l: "l = next_logger m" and m': "loggers m' = (loggers m)(l := \<lparr>lg_name = n, lg_level = DEBUG, m_appenders = [],
        lg_formatter = Some (make_formatter default_pattern), lg_root = Some (m_root m)\<rparr>)"
    "next_logger m' = Suc l" "appenders m' = appenders m" "next_appender m' = next_appender m" "m_root m' = m_root m"
    "m_loggers m' = (m_loggers m)(n \<mapsto> l)"
    using assms(2) None by (auto simp: getLogger_def new_Logger_def)
  then show ?thesis using assms(1) None
    by (auto simp: log_inv_def logger_ok_def keeps_def map_le_def less_Suc_eq)
next
  case (Some k)
  with assms show ?thesis by (auto simp: getLogger_def log_inv_def)
qed

lemma Logger_setLevel_spec:
  assumes "log_inv m" and "l < next_logger m"
  shows "log_inv (Logger_setLevel v l m) \<and> keeps l {} m (Logger_setLevel v l m)"
  using log_inv_logger [OF assms(1), of "\<lambda>lg. lg\<lparr>lg_level := v\<rparr>" l] log_inv_ok [OF assms]
  by (simp add: Logger_setLevel_def logger_ok_def keeps_def)

lemma clearAppenders_spec:
  assumes "log_inv m" and "l < next_logger m"
  shows "log_inv (clearAppenders l m) \<and> keeps l {} m (clearAppenders l m)"
  using log_inv_logger [OF assms(1), of "\<lambda>lg. lg\<lparr>m_appenders := []\<rparr>" l] log_inv_ok [OF assms]
  by (simp add: clearAppenders_def logger_ok_def keeps_def)

lemma delAppender_spec:
  assumes "log_inv m" and "l < next_logger m"
  shows "log_inv (delAppender p l m) \<and> keeps l {} m (delAppender p l m)"
  using log_inv_logger [OF assms(1), of "\<lambda>lg. lg\<lparr>m_appenders := remove1 p (m_appenders lg)\<rparr>" l] log_inv_ok [OF assms]
  by (auto simp: delAppender_def logger_ok_def keeps_def dest: notin_set_remove1 [THEN contrapos_pp])

lemma addAppender_spec:
  assumes "log_inv m" and "l < next_logger m" and "p < next_appender m"
  shows "log_inv (addAppender p l m) \<and> keeps l {p} m (addAppender p l m)"
proof -
  let ?m1 = "if Appender_getFormatter p m = None
    then set_appender p (\<lambda>a. a\<lparr>ap_formatter := lg_formatter (loggers m l)\<rparr>) m else m"
  have f: "lg_formatter (loggers m l) \<noteq> None" using log_inv_ok [OF assms(1,2)] by (simp add: logger_ok_def)
  have inv: "log_inv ?m1" using log_inv_appender [OF assms(1)] assms(1) f by simp
  have p: "ap_formatter (appenders ?m1 p) \<noteq> None" using f by (simp add: Appender_getFormatter_def)
  have same: "loggers ?m1 = loggers m" "next_logger ?m1 = next_logger m" "next_appender ?m1 = next_appender m" by simp_all
  have "logger_ok ?m1 l" using log_inv_ok [OF inv] assms(2) same(2) by simp
  then have "log_inv (set_logger l (\<lambda>lg. lg\<lparr>m_appenders := m_appenders lg @ [p]\<rparr>) ?m1)"
    using p assms(3) same by (intro log_inv_logger [OF inv]) (auto simp: logger_ok_def)
  then show ?thesis by (simp add: addAppender_def Let_def keeps_def)
qed

lemma give_formatter_spec:
  "log_inv m \<Longrightarrow> val \<noteq> None \<Longrightarrow> log_inv (give_formatter val ps m) \<and> keeps l (set ps) m (give_formatter val ps m) \<and>
     loggers (give_formatter val ps m) = loggers m \<and> next_logger (give_formatter val ps m) = next_logger m"
proof (induction ps arbitrary: m)
  case (Cons p ps)
  let ?m1 = "if \<not> m_hasFormatter (appenders m p) then set_appender p (\<lambda>a. a\<lparr>ap_formatter := val\<rparr>) m else m"
  have "log_inv ?m1" using Cons.prems log_inv_appender [of m p] by simp
  moreover have "keeps l (set (p # ps)) m ?m1" by (simp add: keeps_def)
  moreover from Cons.IH [of ?m1] calculation(1) Cons.prems(2)
  have IH: "log_inv (give_formatter val ps ?m1) \<and> keeps l (set ps) ?m1 (give_formatter val ps ?m1) \<and>
     loggers (give_formatter val ps ?m1) = loggers ?m1 \<and> next_logger (give_formatter val ps ?m1) = next_logger ?m1" by blast
  then have "keeps l (set (p # ps)) ?m1 (give_formatter val ps ?m1)" by (auto intro: keeps_mono)
  ultimately have "keeps l (set (p # ps)) m (give_formatter val ps ?m1)" by (blast intro: keeps_trans)
  with IH show ?case by simp
qed simp

lemma Logger_setFormatter_spec:
  assumes "log_inv m" and "l < next_logger m" and "val \<noteq> None"
  shows "log_inv (Logger_setFormatter val l m) \<and> keeps l (set (m_appenders (loggers m l))) m (Logger_setFormatter val l m) \<and>
    loggers (Logger_setFormatter val l m) = (loggers m)(l := (loggers m l)\<lparr>lg_formatter := val\<rparr>) \<and>
    next_logger (Logger_setFormatter val l m) = next_logger m"
proof -
  let ?m1 = "set_logger l (\<lambda>lg. lg\<lparr>lg_formatter := val\<rparr>) m"
  have inv: "log_inv ?m1"
    using log_inv_ok [OF assms(1,2)] assms(3) by (intro log_inv_logger [OF assms(1)]) (simp_all add: logger_ok_def)
  have "keeps l (set (m_appenders (loggers m l))) m ?m1" by (simp add: keeps_def)
  then show ?thesis
    using give_formatter_spec [OF inv assms(3), of "m_appenders (loggers m l)" l]
    by (auto simp: Logger_setFormatter_def intro: keeps_trans)
qed

lemma Logger_setFormatter_str_spec:
  assumes "log_inv m" and "l < next_logger m"
  shows "log_inv (Logger_setFormatter_str val l m) \<and> keeps l (set (m_appenders (loggers m l))) m (Logger_setFormatter_str val l m) \<and>
    loggers (Logger_setFormatter_str val l m) = (loggers m)(l := (loggers m l)\<lparr>lg_formatter :=
      (if m_error (make_formatter val) then lg_formatter (loggers m l) else Some (make_formatter val))\<rparr>) \<and>
    next_logger (Logger_setFormatter_str val l m) = next_logger m"
  using Logger_setFormatter_spec [OF assms, of "Some (make_formatter val)"] assms(1)
  by (simp add: Logger_setFormatter_str_def log_inv_output keeps_def)

text \<open>An appender made from its definition.\<close>

definition own_formatter :: "log_appender_define \<Rightarrow> log_formatter option" where
  "own_formatter a =
     (if lad_formatter a \<noteq> [] \<and> \<not> m_error (make_formatter (lad_formatter a)) then Some (make_formatter (lad_formatter a)) else None)"

definition kind_matches :: "log_appender_define \<Rightarrow> appender_kind \<Rightarrow> bool" where
  "kind_matches a k \<longleftrightarrow> (case k of Stdout \<Rightarrow> lad_type a = 2 | File n g t \<Rightarrow> lad_type a = 1 \<and> n = lad_file a)"

lemma make_appender_spec:
  assumes "log_inv m" and "lad_type a = 1 \<or> lad_type a = 2"
  shows "\<exists>m'. make_appender env name a m = Inr (next_appender m, m') \<and> log_inv m' \<and> keeps l {} m m' \<and>
    loggers m' = loggers m \<and> next_logger m' = next_logger m \<and> next_appender m' = Suc (next_appender m) \<and> m_loggers m' = m_loggers m \<and>
    m_root m' = m_root m \<and>
    (let ap = appenders m' (next_appender m)
     in kind_matches a (ap_kind ap) \<and> ap_level ap = lad_level a \<and> ap_formatter ap = own_formatter a \<and> m_hasFormatter ap = (own_formatter a \<noteq> None))"
proof -
  have "\<exists>m'. make_appender env name a m = Inr (next_appender m, m')"
    using assms(2) by (auto simp: make_appender_def new_FileLogAppender_def new_appender_def Let_def)
  then obtain m' where m': "make_appender env name a m = Inr (next_appender m, m')" by blast
  have fields: "loggers m' = loggers m" "next_logger m' = next_logger m" "next_appender m' = Suc (next_appender m)"
    "m_loggers m' = m_loggers m" "m_root m' = m_root m" "\<forall>p < next_appender m. appenders m' p = appenders m p"
    using m' assms(2)
    by (auto simp: make_appender_def new_FileLogAppender_def new_appender_def reopen_def Let_def Appender_setLevel_def
        Appender_setFormatter_def split: if_splits)
  have new: "kind_matches a (ap_kind (appenders m' (next_appender m)))" "ap_level (appenders m' (next_appender m)) = lad_level a"
    "ap_formatter (appenders m' (next_appender m)) = own_formatter a"
    "m_hasFormatter (appenders m' (next_appender m)) = (own_formatter a \<noteq> None)"
    using m' assms(2)
    by (auto simp: make_appender_def new_FileLogAppender_def new_appender_def reopen_def Let_def Appender_setLevel_def
        Appender_setFormatter_def kind_matches_def own_formatter_def split: if_splits)
  have "logger_ok m' k" if "k < next_logger m" for k
    using log_inv_ok [OF assms(1) that] fields by (auto simp: logger_ok_def less_Suc_eq)
  then have "log_inv m'" using assms(1) fields by (simp add: log_inv_def)
  moreover have "keeps l {} m m'" using fields by (auto simp: keeps_def)
  ultimately show ?thesis using m' fields new by (auto simp: Let_def)
qed

definition ap_matches :: "log_mem \<Rightarrow> logger_ptr \<Rightarrow> appender_ptr \<Rightarrow> log_appender_define \<Rightarrow> bool" where
  "ap_matches m l p a \<longleftrightarrow> kind_matches a (ap_kind (appenders m p)) \<and> ap_level (appenders m p) = lad_level a \<and>
     m_hasFormatter (appenders m p) = (own_formatter a \<noteq> None) \<and>
     ap_formatter (appenders m p) = (case own_formatter a of Some f \<Rightarrow> Some f | None \<Rightarrow> lg_formatter (loggers m l))"

lemma make_appenders_spec:
  assumes "log_inv m" and "l < next_logger m" and "\<forall>a \<in> set as. lad_type a = 1 \<or> lad_type a = 2"
  shows "\<exists>m' ps. make_appenders env name l as m = Inr m' \<and> log_inv m' \<and> keeps l {} m m' \<and> next_logger m' = next_logger m \<and>
    m_loggers m' = m_loggers m \<and> loggers m' l = (loggers m l)\<lparr>m_appenders := m_appenders (loggers m l) @ ps\<rparr> \<and>
    list_all2 (ap_matches m' l) ps as \<and> set ps \<subseteq> {next_appender m..<next_appender m'}"
  using assms
proof (induction "as" arbitrary: m)
  case Nil
  then show ?case by simp
next
  case (Cons a as)
  let ?p = "next_appender m"
  obtain m1 where m1: "make_appender env name a m = Inr (?p, m1)" "log_inv m1" "keeps l {} m m1" "loggers m1 = loggers m"
    "next_logger m1 = next_logger m" "next_appender m1 = Suc ?p" "m_loggers m1 = m_loggers m"
    and new: "kind_matches a (ap_kind (appenders m1 ?p))" "ap_level (appenders m1 ?p) = lad_level a"
      "ap_formatter (appenders m1 ?p) = own_formatter a" "m_hasFormatter (appenders m1 ?p) = (own_formatter a \<noteq> None)"
    using make_appender_spec [OF Cons.prems(1), of a env name l] Cons.prems(3) by (auto simp: Let_def)
  let ?m2 = "addAppender ?p l m1"
  have m2: "log_inv ?m2" "keeps l {?p} m1 ?m2"
    using addAppender_spec [OF m1(2), of l ?p] Cons.prems(2) m1(5,6) by simp_all
  have f2: "loggers ?m2 l = (loggers m l)\<lparr>m_appenders := m_appenders (loggers m l) @ [?p]\<rparr>" "next_logger ?m2 = next_logger m"
    "next_appender ?m2 = Suc ?p" "m_loggers ?m2 = m_loggers m"
    using m1(4-7) by (simp_all add: addAppender_def Let_def)
  have k2: "keeps l {} m ?m2" using m1(3,6) m2(2) by (auto simp: keeps_def intro: map_le_trans)
  have p2: "ap_matches ?m2 l ?p a"
    using new m1(4) by (auto simp: ap_matches_def addAppender_def Appender_getFormatter_def Let_def split: option.splits)
  obtain m' ps where m': "make_appenders env name l as ?m2 = Inr m'" "log_inv m'" "keeps l {} ?m2 m'" "next_logger m' = next_logger ?m2"
    "m_loggers m' = m_loggers ?m2" "loggers m' l = (loggers ?m2 l)\<lparr>m_appenders := m_appenders (loggers ?m2 l) @ ps\<rparr>"
    "list_all2 (ap_matches m' l) ps as" "set ps \<subseteq> {next_appender ?m2..<next_appender m'}"
    using Cons.IH [OF m2(1)] f2(2) Cons.prems(2,3) by auto
  have "appenders m' ?p = appenders ?m2 ?p" "Suc ?p \<le> next_appender m'" using m'(3) f2(3) by (auto simp: keeps_def)
  moreover have "lg_formatter (loggers m' l) = lg_formatter (loggers ?m2 l)" using m'(6) by simp
  ultimately have "ap_matches m' l ?p a" using p2 unfolding ap_matches_def by metis
  moreover have "keeps l {} m m'" using keeps_trans [OF k2 m'(3)] .
  moreover have "make_appenders env name l (a # as) m = Inr m'" using m1(1) m'(1) by simp
  ultimately show ?case
    using m' f2 \<open>Suc ?p \<le> next_appender m'\<close> by (intro exI [of _ m'] exI [of _ "?p # ps"]) auto
qed

text \<open>The logger \<open>l\<close> is set up as its definition says.\<close>

definition matches :: "log_mem \<Rightarrow> logger_ptr \<Rightarrow> log_define \<Rightarrow> bool" where
  "matches m l d \<longleftrightarrow> lg_level (loggers m l) = ld_level d \<and>
     (ld_formatter d \<noteq> [] \<and> \<not> m_error (make_formatter (ld_formatter d)) \<longrightarrow>
        lg_formatter (loggers m l) = Some (make_formatter (ld_formatter d))) \<and>
     list_all2 (ap_matches m l) (m_appenders (loggers m l)) (ld_appenders d)"

definition types_ok :: "log_define \<Rightarrow> bool" where
  "types_ok d \<longleftrightarrow> (\<forall>a \<in> set (ld_appenders d). lad_type a = 1 \<or> lad_type a = 2)"

text \<open>Working on the logger \<open>l\<close> only: its old appenders may change, its new ones are fresh.\<close>

definition works_on :: "logger_ptr \<Rightarrow> log_mem \<Rightarrow> log_mem \<Rightarrow> bool" where
  "works_on l m m' \<longleftrightarrow> log_inv m' \<and> keeps l (if l < next_logger m then set (m_appenders (loggers m l)) else {}) m m' \<and>
     l < next_logger m' \<and> (\<forall>k < next_logger m'. k < next_logger m \<or> k = l) \<and>
     (\<forall>p \<in> set (m_appenders (loggers m' l)). next_appender m \<le> p)"

lemma apply_define_spec:
  assumes "log_inv m" and "types_ok i" and "find (\<lambda>d. ld_name d = ld_name i) old \<noteq> Some i"
  shows "\<exists>m' l. apply_define env old i m = Inr m' \<and> m_loggers m' (ld_name i) = Some l \<and> matches m' l i \<and> works_on l m m'"
proof -
  obtain l m1 where g: "getLogger (ld_name i) m = (l, m1)" by fastforce
  note m1 = getLogger_spec [OF assms(1) g]
  let ?A = "if l < next_logger m then set (m_appenders (loggers m l)) else {}"
  have A: "set (m_appenders (loggers m1 l)) = ?A" using m1 by (auto split: if_splits)
  define m2 where "m2 = Logger_setLevel (ld_level i) l m1"
  define m3 where "m3 = (if ld_formatter i \<noteq> [] then Logger_setFormatter_str (ld_formatter i) l m2 else m2)"
  define m4 where "m4 = clearAppenders l m3"
  have m2: "log_inv m2" "keeps l ?A m1 m2" "next_logger m2 = next_logger m1" "m_appenders (loggers m2 l) = m_appenders (loggers m1 l)"
    "lg_level (loggers m2 l) = ld_level i"
    using Logger_setLevel_spec [of m1 l] m1 keeps_mono [of l "{}" m1 m2 ?A] unfolding m2_def by (auto simp: Logger_setLevel_def)
  have "l < next_logger m2" using m1 m2(3) by simp
  note str = Logger_setFormatter_str_spec [OF m2(1) this, of "ld_formatter i", unfolded m2(4) A]
  have m3: "log_inv m3" "keeps l ?A m2 m3" "next_logger m3 = next_logger m2" "lg_level (loggers m3 l) = ld_level i"
    "ld_formatter i \<noteq> [] \<and> \<not> m_error (make_formatter (ld_formatter i)) \<longrightarrow> lg_formatter (loggers m3 l) = Some (make_formatter (ld_formatter i))"
    using str m2(1,5) unfolding m3_def by auto
  have m4: "log_inv m4" "keeps l ?A m3 m4" "next_logger m4 = next_logger m3" "m_appenders (loggers m4 l) = []"
    "lg_level (loggers m4 l) = ld_level i" "lg_formatter (loggers m4 l) = lg_formatter (loggers m3 l)"
    using clearAppenders_spec [OF m3(1), of l] m1 m2(3) m3(3,4) keeps_mono [of l "{}" m3 m4 ?A] unfolding m4_def
    by (auto simp: clearAppenders_def)
  have nl: "next_logger m4 = next_logger m1" using m2(3) m3(3) m4(3) by simp
  obtain m' ps where m': "make_appenders env (ld_name i) l (ld_appenders i) m4 = Inr m'" "log_inv m'" "keeps l {} m4 m'"
    "next_logger m' = next_logger m4" "m_loggers m' = m_loggers m4" "loggers m' l = (loggers m4 l)\<lparr>m_appenders := m_appenders (loggers m4 l) @ ps\<rparr>"
    "list_all2 (ap_matches m' l) ps (ld_appenders i)" "set ps \<subseteq> {next_appender m4..<next_appender m'}"
    using make_appenders_spec [OF m4(1), of l "ld_appenders i" env "ld_name i"] assms(2) m1 nl by (auto simp: types_ok_def)
  have "keeps l ?A m m1" "keeps l ?A m4 m'" using m1 m'(3) keeps_mono by blast+
  then have k: "keeps l ?A m m'" "keeps l ?A m m4" using m2(2) m3(2) m4(2) keeps_trans by meson+
  have "m_loggers m4 (ld_name i) = Some l"
    using m1 keeps_trans [OF m2(2) keeps_trans [OF m3(2) m4(2)]] unfolding keeps_def
    by (metis domI map_le_def)
  then have "m_loggers m' (ld_name i) = Some l" using m'(5) by simp
  moreover have "matches m' l i" using m'(6,7) m4(4-6) m3(5) by (simp add: matches_def)
  moreover have "next_appender m \<le> next_appender m4" using k(2) by (simp add: keeps_def)
  then have "works_on l m m'"
    using m'(2,4,6,8) k(1) m4(4) m1 nl by (auto simp: works_on_def keeps_def)
  moreover have "apply_define env old i m = Inr m'"
    using assms(3) g m'(1) unfolding m4_def m3_def m2_def by (simp add: apply_define_def Let_def)
  ultimately show ?thesis by blast
qed

text \<open>A logger set up as defined, whose appenders no other logger has.\<close>

definition settled :: "log_mem \<Rightarrow> log_define \<Rightarrow> bool" where
  "settled m d \<longleftrightarrow> (\<exists>l. m_loggers m (ld_name d) = Some l \<and> matches m l d \<and>
     (\<forall>p \<in> set (m_appenders (loggers m l)). \<forall>k < next_logger m. k \<noteq> l \<longrightarrow> p \<notin> set (m_appenders (loggers m k))))"

definition silenced :: "log_mem \<Rightarrow> log_define \<Rightarrow> bool" where
  "silenced m d \<longleftrightarrow> (\<exists>l. m_loggers m (ld_name d) = Some l \<and> lg_level (loggers m l) = 100 \<and> m_appenders (loggers m l) = [])"

lemma names_differ:
  assumes "log_inv m" and "m_loggers m n = Some l" and "m_loggers m n' = Some l'" and "n \<noteq> n'"
  shows "l \<noteq> l'"
  using assms unfolding log_inv_def by metis

lemma works_on_lookup: "works_on l m m' \<Longrightarrow> m_loggers m n = Some k \<Longrightarrow> m_loggers m' n = Some k"
  unfolding works_on_def keeps_def by (metis domI map_le_def)

lemma settled_works_on:
  assumes "log_inv m" and "works_on l m m'" and "m_loggers m' n = Some l" and "n \<noteq> ld_name d" and "settled m d"
  shows "settled m' d"
proof -
  obtain ld where ld: "m_loggers m (ld_name d) = Some ld" "matches m ld d"
    and priv: "\<forall>p \<in> set (m_appenders (loggers m ld)). \<forall>k < next_logger m. k \<noteq> ld \<longrightarrow> p \<notin> set (m_appenders (loggers m k))"
    using assms(5) by (auto simp: settled_def)
  have inv': "log_inv m'" using assms(2) by (simp add: works_on_def)
  have ld': "m_loggers m' (ld_name d) = Some ld" using works_on_lookup [OF assms(2) ld(1)] .
  have ne: "l \<noteq> ld" using names_differ [OF inv' assms(3) ld' assms(4)] .
  have lt: "ld < next_logger m" "\<forall>p \<in> set (m_appenders (loggers m ld)). p < next_appender m"
    using assms(1) ld(1) by (auto simp: log_inv_def logger_ok_def)
  then have lg: "loggers m' ld = loggers m ld" using assms(2) ne by (auto simp: works_on_def keeps_def)
  have ap: "appenders m' p = appenders m p" if "p \<in> set (m_appenders (loggers m ld))" for p
    using assms(2) that lt(2) priv ne by (auto simp: works_on_def keeps_def split: if_splits)
  have "ap_matches m' ld p a" if "p \<in> set (m_appenders (loggers m ld))" "ap_matches m ld p a" for p a
    using that(2) ap [OF that(1)] lg unfolding ap_matches_def by metis
  then have "list_all2 (ap_matches m' ld) (m_appenders (loggers m ld)) (ld_appenders d)"
    using ld(2) list.rel_mono_strong [of "ap_matches m ld" "m_appenders (loggers m ld)" "ld_appenders d" "ap_matches m' ld"]
    by (simp add: matches_def)
  then have "matches m' ld d" using ld(2) lg by (simp add: matches_def)
  moreover have "p \<notin> set (m_appenders (loggers m' k))"
    if "p \<in> set (m_appenders (loggers m ld))" "k < next_logger m'" "k \<noteq> ld" for p k
  proof (cases "k = l")
    case True
    with assms(2) have "\<forall>q \<in> set (m_appenders (loggers m' k)). next_appender m \<le> q" by (simp add: works_on_def)
    with that(1) lt(2) show ?thesis by (meson linorder_not_le)
  next
    case False
    with assms(2) that(2) have "k < next_logger m" "loggers m' k = loggers m k" by (auto simp: works_on_def keeps_def)
    with priv that show ?thesis by auto
  qed
  ultimately show ?thesis using ld' lg by (auto simp: settled_def)
qed

lemma settled_new:
  assumes "log_inv m" and "works_on l m m'" and "m_loggers m' (ld_name d) = Some l" and "matches m' l d"
  shows "settled m' d"
proof -
  have "p \<notin> set (m_appenders (loggers m' k))" if "p \<in> set (m_appenders (loggers m' l))" "k < next_logger m'" "k \<noteq> l" for p k
  proof -
    have k: "k < next_logger m" "loggers m' k = loggers m k" using assms(2) that(2,3) by (auto simp: works_on_def keeps_def)
    have "next_appender m \<le> p" using assms(2) that(1) by (simp add: works_on_def)
    moreover have "\<forall>q \<in> set (m_appenders (loggers m k)). q < next_appender m"
      using log_inv_ok [OF assms(1) k(1)] by (simp add: logger_ok_def)
    ultimately show ?thesis using k(2) by auto
  qed
  then show ?thesis using assms(3,4) by (auto simp: settled_def)
qed

text \<open>Definitions that were in force and did not change stay in force: \<open>U\<close>.\<close>

lemma apply_defines_spec:
  assumes "log_inv m" and "\<forall>d \<in> set new. types_ok d" and "distinct (map ld_name (new' @ new))" and "\<forall>d \<in> set new'. settled m d"
    and "\<forall>d \<in> U. settled m d"
  shows "\<exists>m'. apply_defines env old new m = Inr m' \<and> log_inv m' \<and> (\<forall>d \<in> set new'. settled m' d) \<and>
    (\<forall>d \<in> set new. find (\<lambda>x. ld_name x = ld_name d) old \<noteq> Some d \<or> d \<in> U \<longrightarrow> settled m' d)"
  using assms
proof (induction new arbitrary: m new' U)
  case Nil
  then show ?case by simp
next
  case (Cons i new)
  show ?case
  proof (cases "find (\<lambda>x. ld_name x = ld_name i) old = Some i")
    case True
    then have "apply_define env old i m = Inr m" by (simp add: apply_define_def)
    moreover have "\<exists>m'. apply_defines env old new m = Inr m' \<and> log_inv m' \<and>
        (\<forall>d \<in> set (if i \<in> U then new' @ [i] else new'). settled m' d) \<and>
        (\<forall>d \<in> set new. find (\<lambda>x. ld_name x = ld_name d) old \<noteq> Some d \<or> d \<in> U \<longrightarrow> settled m' d)"
      using Cons.prems by (intro Cons.IH) auto
    ultimately show ?thesis using True by (auto split: if_splits)
  next
    case False
    obtain m1 l where m1: "apply_define env old i m = Inr m1" "m_loggers m1 (ld_name i) = Some l" "matches m1 l i" "works_on l m m1"
      using apply_define_spec [OF Cons.prems(1) _ False, of env] Cons.prems(2) by auto
    have other: "settled m1 d" if "settled m d" "ld_name i \<noteq> ld_name d" for d
      using that by (intro settled_works_on [OF Cons.prems(1) m1(4,2)]) auto
    have "settled m1 d" if "d \<in> set new'" for d
      using that Cons.prems(3,4) by (intro other) auto
    then have old: "\<forall>d \<in> set (new' @ [i]). settled m1 d"
      using settled_new [OF Cons.prems(1) m1(4,2,3)] by simp
    have "\<exists>m'. apply_defines env old new m1 = Inr m' \<and> log_inv m' \<and> (\<forall>d \<in> set (new' @ [i]). settled m' d) \<and>
        (\<forall>d \<in> set new. find (\<lambda>x. ld_name x = ld_name d) old \<noteq> Some d \<or> d \<in> U \<inter> set new \<longrightarrow> settled m' d)"
    proof (rule Cons.IH)
      show "\<forall>d \<in> U \<inter> set new. settled m1 d"
      proof
        fix d
        assume "d \<in> U \<inter> set new"
        then show "settled m1 d" using Cons.prems(3,5) by (intro other) auto
      qed
    qed (use Cons.prems(2,3) m1(4) old in \<open>auto simp: works_on_def\<close>)
    with m1(1) show ?thesis by auto
  qed
qed

lemma delete_define_spec:
  assumes "log_inv m" and "find (\<lambda>x. ld_name x = ld_name d) new = None"
  shows "\<exists>l. works_on l m (delete_define new d m) \<and> m_loggers (delete_define new d m) (ld_name d) = Some l \<and>
    silenced (delete_define new d m) d"
proof -
  obtain l m1 where g: "getLogger (ld_name d) m = (l, m1)" by fastforce
  note m1 = getLogger_spec [OF assms(1) g]
  let ?m2 = "Logger_setLevel 100 l m1"
  let ?m' = "clearAppenders l ?m2"
  have eq: "delete_define new d m = ?m'" using assms(2) g by (simp add: delete_define_def)
  have m2: "log_inv ?m2" "keeps l {} m1 ?m2" "next_logger ?m2 = next_logger m1" "m_loggers ?m2 = m_loggers m1"
    using Logger_setLevel_spec [of m1 l 100] m1 by (simp_all add: Logger_setLevel_def)
  have m': "log_inv ?m'" "keeps l {} ?m2 ?m'"
    using clearAppenders_spec [OF m2(1), of l] m1 m2(3) by simp_all
  have "keeps l {} m ?m'" using m1 m2(2) m'(2) keeps_trans by meson
  then have "works_on l m ?m'"
    using m1 m'(1) keeps_mono [of l "{}" m ?m'] unfolding works_on_def by (simp add: clearAppenders_def Logger_setLevel_def)
  then show ?thesis
    unfolding eq using m1 by (auto simp: silenced_def clearAppenders_def Logger_setLevel_def)
qed

lemma silenced_works_on:
  assumes "log_inv m" and "works_on l m m'" and "m_loggers m' n = Some l" and "n \<noteq> ld_name d" and "silenced m d"
  shows "silenced m' d"
proof -
  obtain k where k: "m_loggers m (ld_name d) = Some k" "lg_level (loggers m k) = 100" "m_appenders (loggers m k) = []"
    using assms(5) by (auto simp: silenced_def)
  have k': "m_loggers m' (ld_name d) = Some k" using works_on_lookup [OF assms(2) k(1)] .
  have "log_inv m'" using assms(2) by (simp add: works_on_def)
  then have "l \<noteq> k" using names_differ [OF _ assms(3) k' assms(4)] by blast
  moreover have "k < next_logger m" using assms(1) k(1) by (auto simp: log_inv_def)
  ultimately have "loggers m' k = loggers m k" using assms(2) by (auto simp: works_on_def keeps_def)
  with k k' show ?thesis by (simp add: silenced_def)
qed

lemma delete_defines_spec:
  assumes "log_inv m" and "distinct (map ld_name (done @ old))" and "S \<subseteq> set new" and "\<forall>d \<in> S. settled m d"
    and "\<forall>d \<in> set done. find (\<lambda>x. ld_name x = ld_name d) new = None \<longrightarrow> silenced m d"
  shows "log_inv (fold (delete_define new) old m) \<and> (\<forall>d \<in> S. settled (fold (delete_define new) old m) d) \<and>
    (\<forall>d \<in> set (done @ old). find (\<lambda>x. ld_name x = ld_name d) new = None \<longrightarrow> silenced (fold (delete_define new) old m) d)"
  using assms
proof (induction old arbitrary: m "done")
  case Nil
  then show ?case by simp
next
  case (Cons i old)
  let ?m1 = "delete_define new i m"
  have "log_inv ?m1 \<and> (\<forall>d \<in> S. settled ?m1 d) \<and>
      (\<forall>d \<in> set (done @ [i]). find (\<lambda>x. ld_name x = ld_name d) new = None \<longrightarrow> silenced ?m1 d)"
  proof (cases "find (\<lambda>x. ld_name x = ld_name i) new")
    case None
    obtain l where l: "works_on l m ?m1" "m_loggers ?m1 (ld_name i) = Some l" "silenced ?m1 i"
      using delete_define_spec [OF Cons.prems(1) None] by blast
    have "settled ?m1 d" if "d \<in> S" for d
      using that Cons.prems(3,4) None
      by (intro settled_works_on [OF Cons.prems(1) l(1,2)]) (auto simp: find_None_iff)
    moreover have "silenced ?m1 d" if "d \<in> set done" "find (\<lambda>x. ld_name x = ld_name d) new = None" for d
      using that Cons.prems(2,5) by (intro silenced_works_on [OF Cons.prems(1) l(1,2)]) auto
    ultimately show ?thesis using l by (auto simp: works_on_def)
  next
    case (Some x)
    then have "?m1 = m" by (simp add: delete_define_def)
    with Some Cons.prems show ?thesis by auto
  qed
  then show ?case using Cons.IH [of ?m1 "done @ [i]"] Cons.prems(2,3) by auto
qed

section \<open>Reachable states\<close>

inductive log_step :: "log_mem \<Rightarrow> log_mem \<Rightarrow> bool" where
  g_get: "getLogger n m = (l, m') \<Longrightarrow> log_step m m'"
| g_new: "log_step m (snd (new_appender Stdout m))"
| g_new_file: "log_step m (snd (new_FileLogAppender env fn m))"
| g_add: "l < next_logger m \<Longrightarrow> p < next_appender m \<Longrightarrow> log_step m (addAppender p l m)"
| g_del: "l < next_logger m \<Longrightarrow> log_step m (delAppender p l m)"
| g_clear: "l < next_logger m \<Longrightarrow> log_step m (clearAppenders l m)"
| g_level: "l < next_logger m \<Longrightarrow> log_step m (Logger_setLevel v l m)"
| g_format: "l < next_logger m \<Longrightarrow> log_step m (Logger_setFormatter (Some f) l m)"
| g_format_str: "l < next_logger m \<Longrightarrow> log_step m (Logger_setFormatter_str s l m)"
| a_format: "log_step m (Appender_setFormatter (Some f) p m)"
| a_level: "log_step m (Appender_setLevel v p m)"
| g_log: "l < next_logger m \<Longrightarrow> Logger_log env level e l m = Some (Inr m') \<Longrightarrow> log_step m m'"

lemma log_inv_new_appender:
  assumes "log_inv m"
  shows "log_inv (snd (new_appender k m))"
proof -
  have "logger_ok (snd (new_appender k m)) l" if "l < next_logger m" for l
    using log_inv_ok [OF assms that] by (auto simp: logger_ok_def new_appender_def less_Suc_eq)
  with assms show ?thesis by (simp add: log_inv_def new_appender_def)
qed

lemma log_inv_init: "log_inv (new_LoggerManager empty_log_mem)"
  by (simp add: log_inv_def logger_ok_def new_LoggerManager_def new_Logger_def new_appender_def addAppender_def
      Appender_getFormatter_def empty_log_mem_def Let_def)

lemma log_inv_reopen: "log_inv m \<Longrightarrow> log_inv (snd (reopen env p m))"
  using log_inv_appender [of m p]
  by (auto simp: reopen_def log_inv_output Let_def split: appender_kind.split)

lemma log_inv_step: "log_step m m' \<Longrightarrow> log_inv m \<Longrightarrow> log_inv m'"
proof (induction rule: log_step.induct)
  case (g_new_file m env fn)
  then show ?case
    using log_inv_new_appender [of m "File fn True 0"] log_inv_reopen
    by (auto simp: new_FileLogAppender_def split: prod.split)
next
  case (g_log l m env level e m')
  then show ?case using Logger_log_sinks log_appenders_setup log_inv_same_setup by (metis option.inject)
qed (simp_all add: getLogger_spec log_inv_new_appender addAppender_spec delAppender_spec clearAppenders_spec Logger_setLevel_spec
      Logger_setFormatter_spec Logger_setFormatter_str_spec Appender_setFormatter_def Appender_setLevel_def log_inv_appender)

interpretation logs: inductive_invariant "\<lambda>m. m = new_LoggerManager empty_log_mem" log_step log_inv
  by unfold_locales (auto simp: log_inv_init intro: log_inv_step)

section \<open>Properties of the loggers\<close>

text \<open>Dates fit the buffer of the date item.\<close>

definition dates_fit :: "log_env \<Rightarrow> bool" where
  "dates_fit env \<longleftrightarrow> (\<forall>fmt t. length (e_strftime env fmt t) < 64)"

lemma format_total:
  assumes "dates_fit env"
  shows "\<exists>out. LogFormatter_format (e_strftime env) names level e f = Inr out"
proof -
  have "\<exists>out. item_format (e_strftime env) names i level e = Inr out" for i
    using assms by (cases i) (auto simp: dates_fit_def Let_def)
  then have "\<exists>out. \<forall>i. item_format (e_strftime env) names i level e = Inr (out i)" by metis
  then show ?thesis using format_items_eq by (metis LogFormatter_format_def)
qed

text \<open>The line an appender prints for an event.\<close>

definition line_of :: "log_env \<Rightarrow> level \<Rightarrow> log_event \<Rightarrow> log_mem \<Rightarrow> appender_ptr \<Rightarrow> string" where
  "line_of env level e m p =
     (case ap_formatter (appenders m p) of
        None \<Rightarrow> []
      | Some f \<Rightarrow> (case LogFormatter_format (e_strftime env) (getName m) level e f of Inr out \<Rightarrow> out | Inl err \<Rightarrow> []))"

definition prints :: "log_mem \<Rightarrow> level \<Rightarrow> appender_ptr \<Rightarrow> bool" where
  "prints m level p \<longleftrightarrow> ap_kind (appenders m p) = Stdout \<and> ap_level (appenders m p) \<le> level"

lemma getName_same: "same_setup m m' \<Longrightarrow> getName m' = getName m"
  by (auto simp: same_setup_def getName_def)

lemma Appender_log_total:
  assumes "dates_fit env" and "ap_formatter (appenders m p) \<noteq> None"
  shows "\<exists>m'. Appender_log env level e p m = Inr m' \<and> same_setup m m' \<and>
    cout m' = cout m @ (if prints m level p then line_of env level e m p else [])"
proof -
  obtain f where f: "ap_formatter (appenders m p) = Some f" using assms(2) by blast
  have fmt: "\<exists>out. LogFormatter_format (e_strftime env) names level e g = Inr out" for names g
    using format_total [OF assms(1)] .
  have "\<exists>m'. Appender_log env level e p m = Inr m' \<and> (ap_kind (appenders m p) = Stdout \<longrightarrow>
      cout m' = cout m @ (if prints m level p then line_of env level e m p else []))"
  proof (cases "ap_kind (appenders m p)")
    case Stdout
    with f fmt [of "getName m" f] show ?thesis by (auto simp: Appender_log_def stdout_write_def prints_def line_of_def)
  next
    case (File fn good lt)
    have "ap_formatter (appenders (file_tick env p m) p) = Some f"
      using f file_tick_setup [of m env p] by (simp add: same_setup_def)
    with fmt [of "getName (file_tick env p m)" f] have "\<exists>m'. file_write env level e p (file_tick env p m) = Inr m'"
      by (auto simp: file_write_def)
    then have "\<exists>m'. Appender_log env level e p m = Inr m'" using File by (simp add: Appender_log_def)
    with File show ?thesis by auto
  qed
  then show ?thesis using Appender_log_setup [of env level e p m] by (auto simp: prints_def)
qed

lemma log_appenders_deliver:
  assumes "dates_fit env" and "same_setup m0 m" and "\<forall>p \<in> set ps. ap_formatter (appenders m0 p) \<noteq> None"
  shows "\<exists>m'. log_appenders env level e ps m = Inr m' \<and> same_setup m0 m' \<and>
    cout m' = cout m @ concat (map (line_of env level e m0) (filter (prints m0 level) ps))"
  using assms(2,3)
proof (induction ps arbitrary: m)
  case Nil
  then show ?case by simp
next
  case (Cons p ps)
  have same: "ap_formatter (appenders m p) = ap_formatter (appenders m0 p)" "prints m level p = prints m0 level p"
    using Cons.prems(1) same_setup_Stdout [OF Cons.prems(1), of p] by (simp_all add: same_setup_def prints_def)
  have line: "line_of env level e m p = line_of env level e m0 p"
    unfolding line_of_def same(1) getName_same [OF Cons.prems(1)] ..
  obtain m1 where m1: "Appender_log env level e p m = Inr m1" "same_setup m m1"
    "cout m1 = cout m @ (if prints m level p then line_of env level e m p else [])"
    using Appender_log_total [OF assms(1), of m p level e] Cons.prems(2) same(1) by auto
  from Cons.IH [OF same_setup_trans [OF Cons.prems(1) m1(2)]] Cons.prems(2)
  obtain m' where "log_appenders env level e ps m1 = Inr m'" "same_setup m0 m'"
    "cout m' = cout m1 @ concat (map (line_of env level e m0) (filter (prints m0 level) ps))" by auto
  with m1 same line show ?case by auto
qed

lemma sinks_ok:
  assumes "log_inv m" and "l < next_logger m"
  shows "\<forall>p \<in> set (sinks m l level). ap_formatter (appenders m p) \<noteq> None"
proof -
  have "set (sinks m l level) \<subseteq> set (m_appenders (loggers m l)) \<union> set (m_appenders (loggers m (m_root m)))"
    using log_inv_ok [OF assms] by (auto simp: sinks_def logger_ok_def split: if_splits option.splits)
  moreover have "m_root m < next_logger m" using assms(1) by (simp add: log_inv_def)
  ultimately show ?thesis
    using log_inv_ok [OF assms] log_inv_ok [OF assms(1), of "m_root m"] unfolding logger_ok_def by blast
qed


definition demo_env :: log_env where
  "demo_env = \<lparr>e_strftime = (\<lambda>_ _. ''2024''), e_time = 100, e_can_open = (\<lambda>_. True)\<rparr>"

lemma demo_fit: "dates_fit demo_env"
  by (simp add: dates_fit_def demo_env_def)

abbreviation demo_logs :: log_mem where
  "demo_logs \<equiv> new_LoggerManager empty_log_mem"

lemma demo_logs_reachable: "reachable (\<lambda>m. m = demo_logs) log_step demo_logs"
  by (rule reachable_init) simp


text \<open>The test of the level in the macros changes nothing, since \<open>log\<close> makes it again; a failed \<^verbatim>\<open>vasprintf\<close> logs an empty message.\<close>

lemma log_macros:
  "SYLAR_LOG_LEVEL env l level e msg m = Logger_log env level (e\<lparr>m_logger := l, m_event_level := level, m_ss := msg\<rparr>) l m"
  "SYLAR_LOG_FMT_LEVEL env l level e out m =
     SYLAR_LOG_LEVEL env l level e (case out of Some buf \<Rightarrow> buf | None \<Rightarrow> []) m"
  by (subst Logger_log.simps)
    (simp_all add: SYLAR_LOG_LEVEL_def SYLAR_LOG_FMT_LEVEL_def delete_LogEventWrap_def LogEvent_format_def Logger_log.simps split: option.split)

text \<open>A message to the log leaves the set-up as it is.\<close>

lemma log_message_setup:
  assumes "log_inv m" and "l < next_logger m" and "dates_fit env"
  shows "\<exists>m'. SYLAR_LOG_LEVEL env l level e msg m = Some (Inr m') \<and> same_setup m m'"
proof (cases "lg_level (loggers m l) \<le> level")
  case True
  let ?e = "e\<lparr>m_logger := l, m_event_level := level, m_ss := msg\<rparr>"
  have "\<forall>p \<in> set (sinks m l level). ap_formatter (appenders m p) \<noteq> None" using sinks_ok [OF assms(1,2)] by blast
  from log_appenders_deliver [OF assms(3) same_setup_refl this, of level ?e]
  show ?thesis using True Logger_log_sinks [OF assms(1,2), of env level ?e] by (auto simp: SYLAR_LOG_LEVEL_def delete_LogEventWrap_def)
next
  case False
  then show ?thesis by (simp add: SYLAR_LOG_LEVEL_def)
qed

lemma matches_same_setup:
  assumes "same_setup m m'" and "matches m l d"
  shows "matches m' l d"
proof -
  have k: "kind_matches a k \<longleftrightarrow> kind_matches a k'" if "file_of k = file_of k'" for a k k'
    using that by (cases k; cases k') (simp_all add: kind_matches_def)
  have lg: "loggers m' = loggers m" using assms(1) by (simp add: same_setup_def)
  have "ap_matches m l p a \<longleftrightarrow> ap_matches m' l p a" for p a
    using assms(1) k [of "ap_kind (appenders m p)" "ap_kind (appenders m' p)" a]
    unfolding ap_matches_def lg by (simp add: same_setup_def)
  then have "ap_matches m' l = ap_matches m l" by (intro ext) simp
  then show ?thesis using assms(2) unfolding matches_def lg by simp
qed

lemma settled_same_setup: "same_setup m m' \<Longrightarrow> settled m d \<Longrightarrow> settled m' d"
  using matches_same_setup unfolding settled_def same_setup_def by metis

lemma conf_changed_spec:
  assumes "log_inv m" and "dates_fit env" and "distinct (map ld_name old)" and "distinct (map ld_name new)" and "\<forall>d \<in> set new. types_ok d"
  shows "\<exists>m'. on_logger_conf_changed env e old new m = Some (Inr m') \<and> log_inv m' \<and>
    (\<forall>d \<in> set new. d \<notin> set old \<or> settled m d \<longrightarrow> settled m' d) \<and>
    (\<forall>d \<in> set old. ld_name d \<notin> ld_name ` set new \<longrightarrow> silenced m' d)"
proof -
  have root: "m_root m < next_logger m" using assms(1) by (simp add: log_inv_def)
  obtain m1 where m1: "SYLAR_LOG_LEVEL env (m_root m) INFO e ''on_logger_conf_changed'' m = Some (Inr m1)" "same_setup m m1"
    using log_message_setup [OF assms(1) root assms(2)] by blast
  have inv1: "log_inv m1" using log_inv_same_setup [OF m1(2) assms(1)] .
  let ?U = "{d. settled m d}"
  have U: "\<forall>d \<in> ?U. settled m1 d" using settled_same_setup [OF m1(2)] by blast
  obtain m2 where m2: "apply_defines env old new m1 = Inr m2" "log_inv m2"
    "\<forall>d \<in> set new. find (\<lambda>x. ld_name x = ld_name d) old \<noteq> Some d \<or> d \<in> ?U \<longrightarrow> settled m2 d"
    using apply_defines_spec [OF inv1 assms(5), of "[]" ?U env old] assms(4) U by auto
  let ?S = "{d \<in> set new. find (\<lambda>x. ld_name x = ld_name d) old \<noteq> Some d \<or> d \<in> ?U}" and ?m' = "fold (delete_define new) old m2"
  have fin: "log_inv ?m' \<and> (\<forall>d \<in> ?S. settled ?m' d) \<and>
      (\<forall>d \<in> set old. find (\<lambda>x. ld_name x = ld_name d) new = None \<longrightarrow> silenced ?m' d)"
    using delete_defines_spec [OF m2(2), of "[]" old ?S new] assms(3) m2(3) by auto
  have "settled ?m' d" if "d \<in> set new" "d \<notin> set old \<or> settled m d" for d
  proof -
    have "d \<notin> set old \<Longrightarrow> find (\<lambda>x. ld_name x = ld_name d) old \<noteq> Some d" by (auto simp: find_Some_iff)
    with fin that show ?thesis by blast
  qed
  moreover have "silenced ?m' d" if "d \<in> set old" "ld_name d \<notin> ld_name ` set new" for d
  proof -
    have "find (\<lambda>x. ld_name x = ld_name d) new = None" using that(2) unfolding find_None_iff by (metis imageI)
    with fin that(1) show ?thesis by blast
  qed
  moreover have "on_logger_conf_changed env e old new m = Some (Inr ?m')"
    using m1(1) m2(1) by (simp add: on_logger_conf_changed_def)
  ultimately show ?thesis using fin by blast
qed

text \<open>
  C18. Applying the configuration: from every reachable state, when the set of definitions changes (its appenders of the two
  known types), every new or changed definition has its logger set up exactly as it says -- level, formatter,
  appenders in order with their kind, level and formatter -- and every definition that disappeared has its logger
  silenced.
\<close>

theorem configuration_applied:
  assumes "reachable (\<lambda>m. m = new_LoggerManager empty_log_mem) log_step m" and "dates_fit env"
    and "distinct (map ld_name old)" and "distinct (map ld_name new)" and "\<forall>d \<in> set new. types_ok d"
  shows "\<exists>m'. on_logger_conf_changed env e old new m = Some (Inr m') \<and> log_inv m' \<and>
    (\<forall>d \<in> set new. d \<notin> set old \<longrightarrow> (\<exists>l. m_loggers m' (ld_name d) = Some l \<and> matches m' l d)) \<and>
    (\<forall>d \<in> set old. ld_name d \<notin> ld_name ` set new \<longrightarrow> silenced m' d)"
proof -
  obtain m' where "on_logger_conf_changed env e old new m = Some (Inr m')" "log_inv m'"
    "\<forall>d \<in> set new. d \<notin> set old \<or> settled m d \<longrightarrow> settled m' d" "\<forall>d \<in> set old. ld_name d \<notin> ld_name ` set new \<longrightarrow> silenced m' d"
    using conf_changed_spec [OF logs.reachable_inv [OF assms(1)] assms(2-5)] by blast
  then show ?thesis unfolding settled_def by blast
qed

definition demo_define :: log_define where
  "demo_define = \<lparr>ld_name = ''app'', ld_level = WARN, ld_formatter = ''%m%n'', ld_appenders =
     [\<lparr>lad_type = 1, lad_level = UNKNOW, lad_formatter = [], lad_file = ''app.log''\<rparr>,
      \<lparr>lad_type = 2, lad_level = ERROR, lad_formatter = ''%p'', lad_file = []\<rparr>]\<rparr>"

theorem configuration_applied_witness:
  "\<exists>m' l. on_logger_conf_changed demo_env (new_LogEvent 0 INFO ''a.cpp'' 7 0 1 2 5 ''main'') [] [demo_define] demo_logs = Some (Inr m') \<and>
     m_loggers m' ''app'' = Some l \<and> lg_level (loggers m' l) = WARN \<and> length (m_appenders (loggers m' l)) = 2"
proof -
  have "types_ok demo_define" by (simp add: types_ok_def demo_define_def)
  then obtain m' l where "on_logger_conf_changed demo_env (new_LogEvent 0 INFO ''a.cpp'' 7 0 1 2 5 ''main'') [] [demo_define] demo_logs = Some (Inr m')"
    "m_loggers m' (ld_name demo_define) = Some l" "matches m' l demo_define"
    using configuration_applied [OF demo_logs_reachable demo_fit, of "[]" "[demo_define]" "new_LogEvent 0 INFO ''a.cpp'' 7 0 1 2 5 ''main''"]
    by auto
  moreover from this(3) have "lg_level (loggers m' l) = WARN" "length (m_appenders (loggers m' l)) = 2"
    by (auto simp: matches_def demo_define_def dest: list_all2_lengthD)
  ultimately show ?thesis by (auto simp: demo_define_def)
qed

text \<open>
  A file appender keeps one second of the log: while the second does not change, lines are appended to the
  file; the first line of another second opens the file again, which empties it, so that the file then
  holds that line only.
\<close>

theorem file_log_truncates:
  assumes "ap_kind (appenders m p) = File fn good lt" and "ap_level (appenders m p) \<le> level" and "ap_formatter (appenders m p) = Some f"
    and "LogFormatter_format (e_strftime env) (getName m) level e f = Inr out" and "e_can_open env fn"
  shows "\<exists>m'. Appender_log env level e p m = Inr m' \<and>
    (e_time env \<noteq> lt \<longrightarrow> files m' fn = out \<and> ap_kind (appenders m' p) = File fn True (e_time env)) \<and>
    (e_time env = lt \<longrightarrow> files m' fn = (if good then files m fn @ out else files m fn))"
proof -
  have "getName (file_tick env p m) = getName m" using getName_same file_tick_setup by blast
  moreover have "ap_formatter (appenders (file_tick env p m) p) = Some f"
    using assms(3) file_tick_setup [of m env p] by (simp add: same_setup_def)
  ultimately show ?thesis
    using assms by (auto simp: Appender_log_def file_write_def) (auto simp: file_tick_def reopen_def Let_def)
qed

theorem file_log_truncates_witness:
  "\<exists>m'. Appender_log demo_env INFO (new_LogEvent 0 INFO ''a.cpp'' 7 0 1 2 5 ''main'') 0
     (demo_logs\<lparr>files := (\<lambda>_. ''earlier lines''), appenders := (\<lambda>_. \<lparr>ap_kind = File ''a.log'' True 99, ap_level = DEBUG,
        m_hasFormatter = True, ap_formatter = Some \<lparr>m_error = False, m_pattern = ''%p'', m_items = [LevelFormatItem]\<rparr>\<rparr>)\<rparr>) = Inr m' \<and>
     files m' ''a.log'' = ''INFO''"
proof -
  let ?m = "demo_logs\<lparr>files := (\<lambda>_. ''earlier lines''), appenders := (\<lambda>_. \<lparr>ap_kind = File ''a.log'' True 99, ap_level = DEBUG,
        m_hasFormatter = True, ap_formatter = Some \<lparr>m_error = False, m_pattern = ''%p'', m_items = [LevelFormatItem]\<rparr>\<rparr>)\<rparr>"
  show ?thesis
    using file_log_truncates [of ?m 0 "''a.log''" True 99 INFO _ demo_env "new_LogEvent 0 INFO ''a.cpp'' 7 0 1 2 5 ''main''" "''INFO''"]
    by (auto simp: level_defs LogFormatter_format_def ToString_def demo_env_def)
qed

end
