(* ===== verification/Config.thy ===== *)
theory Config
  imports Logger Std_Set "HOL-Library.List_Lexorder" "HOL-Library.Char_ord"
begin

text \<open>
  \<^verbatim>\<open>sylar/config.h\<close> and \<^verbatim>\<open>sylar/config.cpp\<close>: the conversions between values and text, configuration variables with
  their listeners, and the registry of all variables, which a YAML document updates; with the two
  conversions of logger definitions of \<^verbatim>\<open>sylar/log.cpp\<close>. The library yaml-cpp is the parameter
  \<open>yaml\<close>: parsing, printing and access to a node. \<^verbatim>\<open>boost::lexical_cast\<close> is the pair of conversions of the element type.
\<close>

section \<open>YAML\<close>

datatype node = Null | Scalar string | Sequence "node list" | Map "(string \<times> node) list"

text \<open>
  \<open>y_elems\<close>: the nodes \<^verbatim>\<open>node[0]\<close> up to \<^verbatim>\<open>node[node.size() - 1]\<close>; \<open>y_pairs\<close>: what an iterator over a node visits;
  \<open>y_field\<close>: \<^verbatim>\<open>node[key]\<close>, \<open>None\<close> when it is not defined; \<open>y_string\<close>: \<^verbatim>\<open>node.as<std::string>()\<close>.
\<close>

record yaml =
  y_load :: "string \<Rightarrow> node res"
  y_emit :: "node \<Rightarrow> string"
  y_elems :: "node \<Rightarrow> node list"
  y_pairs :: "node \<Rightarrow> (string \<times> node) list"
  y_field :: "node \<Rightarrow> string \<Rightarrow> node option"
  y_string :: "node \<Rightarrow> string res"

text \<open>The documented behaviour of the access functions on nodes of the right kind.\<close>

definition yaml_access :: "yaml \<Rightarrow> bool" where
  "yaml_access Y \<longleftrightarrow> y_elems Y Null = [] \<and> (\<forall>ns. y_elems Y (Sequence ns) = ns) \<and> y_pairs Y Null = [] \<and>
     (\<forall>kvs. y_pairs Y (Map kvs) = kvs) \<and> (\<forall>kvs k. y_field Y (Map kvs) k = map_of kvs k) \<and> (\<forall>s. y_string Y (Scalar s) = Inr s)"

text \<open>\<^verbatim>\<open>node.push_back(x)\<close> and \<^verbatim>\<open>node[key] = x\<close>, starting from a new node.\<close>

fun node_push :: "node \<Rightarrow> node \<Rightarrow> node" where
  "node_push x (Sequence ns) = Sequence (ns @ [x])"
| "node_push x n = Sequence [x]"

fun node_put :: "string \<Rightarrow> node \<Rightarrow> node \<Rightarrow> node" where
  "node_put k x (Map kvs) =
     Map (if k \<in> fst ` set kvs then map (\<lambda>(k', n). (k', if k' = k then x else n)) kvs else kvs @ [(k, x)])"
| "node_put k x n = Map [(k, x)]"

section \<open>Conversions\<close>

fun cast_all :: "('n \<Rightarrow> 'a res) \<Rightarrow> ('a \<Rightarrow> 'c \<Rightarrow> 'c) \<Rightarrow> 'n list \<Rightarrow> 'c \<Rightarrow> 'c res" where
  "cast_all f ins [] c = Inr c"
| "cast_all f ins (n # ns) c = bindE (f n) (\<lambda>x. cast_all f ins ns (ins x c))"

text \<open>From text to a container: one conversion per element of the node, collected by \<open>ins\<close>.\<close>

definition seq_of_string :: "yaml \<Rightarrow> (string \<Rightarrow> 'a res) \<Rightarrow> ('a \<Rightarrow> 'a list \<Rightarrow> 'a list) \<Rightarrow> string \<Rightarrow> 'a list res" where
  "seq_of_string Y from ins v =
     bindE (y_load Y v) (\<lambda>node. cast_all (\<lambda>n. from (y_emit Y n)) ins (y_elems Y node) [])"

definition vector_of_string :: "yaml \<Rightarrow> (string \<Rightarrow> 'a res) \<Rightarrow> string \<Rightarrow> 'a list res" where
  "vector_of_string Y from = seq_of_string Y from (\<lambda>x vec. vec @ [x])"

definition list_of_string :: "yaml \<Rightarrow> (string \<Rightarrow> 'a res) \<Rightarrow> string \<Rightarrow> 'a list res" where
  "list_of_string Y from = seq_of_string Y from (\<lambda>x vec. vec @ [x])"

definition set_of_string :: "yaml \<Rightarrow> ('a \<Rightarrow> 'a \<Rightarrow> bool) \<Rightarrow> (string \<Rightarrow> 'a res) \<Rightarrow> string \<Rightarrow> 'a list res" where
  "set_of_string Y lt from = seq_of_string Y from (std_insert lt)"

text \<open>An unordered container is the list of its elements in some iteration order.\<close>

definition unordered_set_of_string :: "yaml \<Rightarrow> (string \<Rightarrow> 'a res) \<Rightarrow> string \<Rightarrow> 'a list res" where
  "unordered_set_of_string Y from = seq_of_string Y from (\<lambda>x vec. if x \<in> set vec then vec else vec @ [x])"

definition pairs_of_string ::
  "yaml \<Rightarrow> (string \<Rightarrow> 'a res) \<Rightarrow> (string \<times> 'a \<Rightarrow> (string \<times> 'a) list \<Rightarrow> (string \<times> 'a) list) \<Rightarrow> string \<Rightarrow> (string \<times> 'a) list res" where
  "pairs_of_string Y from ins v =
     bindE (y_load Y v) (\<lambda>node.
     cast_all (\<lambda>(k, n). bindE (from (y_emit Y n)) (\<lambda>x. Inr (k, x))) ins (y_pairs Y node) [])"

definition key_less :: "string \<times> 'a \<Rightarrow> string \<times> 'a \<Rightarrow> bool" where
  "key_less a b \<longleftrightarrow> fst a < fst b"

definition map_of_string :: "yaml \<Rightarrow> (string \<Rightarrow> 'a res) \<Rightarrow> string \<Rightarrow> (string \<times> 'a) list res" where
  "map_of_string Y from = pairs_of_string Y from (std_insert key_less)"

definition unordered_map_of_string :: "yaml \<Rightarrow> (string \<Rightarrow> 'a res) \<Rightarrow> string \<Rightarrow> (string \<times> 'a) list res" where
  "unordered_map_of_string Y from =
     pairs_of_string Y from (\<lambda>x vec. if fst x \<in> fst ` set vec then vec else vec @ [x])"

text \<open>From a container to text, the same for all containers of one kind.\<close>

definition string_of_seq :: "yaml \<Rightarrow> ('a \<Rightarrow> string res) \<Rightarrow> 'a list \<Rightarrow> string res" where
  "string_of_seq Y to v =
     bindE (cast_all (\<lambda>i. bindE (to i) (y_load Y)) node_push v Null) (\<lambda>node. Inr (y_emit Y node))"

definition string_of_pairs :: "yaml \<Rightarrow> ('a \<Rightarrow> string res) \<Rightarrow> (string \<times> 'a) list \<Rightarrow> string res" where
  "string_of_pairs Y to v =
     bindE (cast_all (\<lambda>(k, i). bindE (to i) (\<lambda>s. bindE (y_load Y s) (\<lambda>n. Inr (k, n)))) (\<lambda>(k, n). node_put k n) v Null) (\<lambda>node.
     Inr (y_emit Y node))"

definition string_of_vector :: "yaml \<Rightarrow> ('a \<Rightarrow> string res) \<Rightarrow> 'a list \<Rightarrow> string res" where
  "string_of_vector = string_of_seq"

definition string_of_list :: "yaml \<Rightarrow> ('a \<Rightarrow> string res) \<Rightarrow> 'a list \<Rightarrow> string res" where
  "string_of_list = string_of_seq"

definition string_of_set :: "yaml \<Rightarrow> ('a \<Rightarrow> string res) \<Rightarrow> 'a list \<Rightarrow> string res" where
  "string_of_set = string_of_seq"

definition string_of_unordered_set :: "yaml \<Rightarrow> ('a \<Rightarrow> string res) \<Rightarrow> 'a list \<Rightarrow> string res" where
  "string_of_unordered_set = string_of_seq"

definition string_of_map :: "yaml \<Rightarrow> ('a \<Rightarrow> string res) \<Rightarrow> (string \<times> 'a) list \<Rightarrow> string res" where
  "string_of_map = string_of_pairs"

definition string_of_unordered_map :: "yaml \<Rightarrow> ('a \<Rightarrow> string res) \<Rightarrow> (string \<times> 'a) list \<Rightarrow> string res" where
  "string_of_unordered_map = string_of_pairs"

section \<open>Definitions of loggers as text\<close>

definition field_or :: "yaml \<Rightarrow> node \<Rightarrow> string \<Rightarrow> string \<Rightarrow> string res" where
  "field_or Y n k d = (case y_field Y n k of Some x \<Rightarrow> y_string Y x | None \<Rightarrow> Inr d)"

text \<open>One element of \<^verbatim>\<open>appenders\<close>; \<open>None\<close>: it is reported and skipped.\<close>

definition appender_of_node :: "yaml \<Rightarrow> node \<Rightarrow> log_appender_define option res" where
  "appender_of_node Y a =
     (case y_field Y a ''type'' of
        None \<Rightarrow> Inr None
      | Some t \<Rightarrow>
          bindE (y_string Y t) (\<lambda>type.
          if type = ''FileLogAppender'' then
            (case y_field Y a ''file'' of
               None \<Rightarrow> Inr None
             | Some f \<Rightarrow>
                 bindE (y_string Y f) (\<lambda>file.
                 bindE (field_or Y a ''formatter'' []) (\<lambda>formatter.
                 Inr (Some \<lparr>lad_type = 1, lad_level = UNKNOW, lad_formatter = formatter, lad_file = file\<rparr>))))
          else if type = ''StdoutLogAppender'' then
            bindE (field_or Y a ''formatter'' []) (\<lambda>formatter.
            Inr (Some \<lparr>lad_type = 2, lad_level = UNKNOW, lad_formatter = formatter, lad_file = []\<rparr>))
          else Inr None))"

definition define_of_node :: "yaml \<Rightarrow> node \<Rightarrow> log_define res" where
  "define_of_node Y n =
     (case y_field Y n ''name'' of
        None \<Rightarrow> Inl (Thrown ''log config name is null'')
      | Some x \<Rightarrow>
          bindE (y_string Y x) (\<lambda>name.
          bindE (field_or Y n ''level'' []) (\<lambda>level.
          bindE (field_or Y n ''formatter'' []) (\<lambda>formatter.
          bindE (case y_field Y n ''appenders'' of
                   None \<Rightarrow> Inr []
                 | Some as \<Rightarrow> cast_all (appender_of_node Y) (\<lambda>a acc. case a of None \<Rightarrow> acc | Some d \<Rightarrow> acc @ [d]) (y_elems Y as) [])
            (\<lambda>apps. Inr \<lparr>ld_name = name, ld_level = FromString level, ld_formatter = formatter, ld_appenders = apps\<rparr>)))))"

definition define_of_string :: "yaml \<Rightarrow> string \<Rightarrow> log_define res" where
  "define_of_string Y v = bindE (y_load Y v) (define_of_node Y)"

definition node_of_appender :: "log_appender_define \<Rightarrow> node" where
  "node_of_appender a =
     (let na = (if lad_type a = 1 then node_put ''file'' (Scalar (lad_file a)) (node_put ''type'' (Scalar ''FileLogAppender'') Null)
                else if lad_type a = 2 then node_put ''type'' (Scalar ''StdoutLogAppender'') Null else Null);
          na1 = (if lad_level a \<noteq> UNKNOW then node_put ''level'' (Scalar (ToString (lad_level a))) na else na)
      in if lad_formatter a \<noteq> [] then node_put ''formatter'' (Scalar (lad_formatter a)) na1 else na1)"

definition node_of_define :: "log_define \<Rightarrow> node" where
  "node_of_define i =
     (let n = node_put ''name'' (Scalar (ld_name i)) Null;
          n1 = (if ld_level i \<noteq> UNKNOW then node_put ''level'' (Scalar (ToString (ld_level i))) n else n);
          n2 = (if ld_formatter i \<noteq> [] then node_put ''formatter'' (Scalar (ld_formatter i)) n1 else n1)
      in if ld_appenders i = [] then n2
         else node_put ''appenders'' (fold (\<lambda>a. node_push (node_of_appender a)) (ld_appenders i) Null) n2)"

definition string_of_define :: "yaml \<Rightarrow> log_define \<Rightarrow> string" where
  "string_of_define Y i = y_emit Y (node_of_define i)"

section \<open>Variables\<close>

text \<open>
  The value types of the program are a universe \<open>'v\<close>; \<open>type_ops\<close> are the conversions of one type \<^verbatim>\<open>T\<close>, and
  which values belong to it. \<open>'cb\<close> are the listeners: calling one is recorded with its arguments.
\<close>

type_synonym tag = string

record 'v type_ops =
  t_from :: "string \<Rightarrow> 'v res"
  t_to :: "'v \<Rightarrow> string res"
  t_ok :: "'v \<Rightarrow> bool"

record ('v, 'cb) config_var =
  cv_name :: string
  m_description :: string
  cv_tag :: tag
  m_val :: 'v
  m_cbs :: "(u64 \<times> 'cb) list"

definition tolower :: "char \<Rightarrow> char" where
  "tolower c = (let n = (of_char c :: nat) in if 65 \<le> n \<and> n \<le> 90 then char_of (n + 32) else c)"

definition new_ConfigVar :: "tag \<Rightarrow> string \<Rightarrow> 'v \<Rightarrow> string \<Rightarrow> ('v, 'cb) config_var" where
  "new_ConfigVar t name default_value description =
     \<lparr>cv_name = map tolower name, m_description = description, cv_tag = t, m_val = default_value, m_cbs = []\<rparr>"

definition toString :: "(tag \<Rightarrow> 'v type_ops) \<Rightarrow> ('v, 'cb) config_var \<Rightarrow> string" where
  "toString T v = (case t_to (T (cv_tag v)) (m_val v) of Inr s \<Rightarrow> s | Inl e \<Rightarrow> [])"

definition getValue :: "('v, 'cb) config_var \<Rightarrow> 'v" where
  "getValue v = m_val v"

text \<open>\<open>setValue\<close> with the calls of the listeners, in the order of their keys.\<close>

definition setValue :: "'v \<Rightarrow> ('v, 'cb) config_var \<Rightarrow> ('v, 'cb) config_var \<times> ('cb \<times> 'v \<times> 'v) list" where
  "setValue val v =
     (if val = m_val v then (v, [])
      else (v\<lparr>m_val := val\<rparr>, map (\<lambda>(key, cb). (cb, m_val v, val)) (m_cbs v)))"

definition fromString ::
  "(tag \<Rightarrow> 'v type_ops) \<Rightarrow> string \<Rightarrow> ('v, 'cb) config_var \<Rightarrow> bool \<times> ('v, 'cb) config_var \<times> ('cb \<times> 'v \<times> 'v) list" where
  "fromString T s v =
     (case t_from (T (cv_tag v)) s of
        Inr val \<Rightarrow> (False, setValue val v)
      | Inl e \<Rightarrow> (False, v, []))"

text \<open>
  The counter \<^verbatim>\<open>s_fun_id\<close> is one for each type. The map of listeners is the list of its entries by key.
\<close>

definition cb_less :: "u64 \<times> 'cb \<Rightarrow> u64 \<times> 'cb \<Rightarrow> bool" where
  "cb_less a b \<longleftrightarrow> fst a < fst b"

definition addListener :: "'cb \<Rightarrow> u64 \<Rightarrow> ('v, 'cb) config_var \<Rightarrow> u64 \<times> u64 \<times> ('v, 'cb) config_var" where
  "addListener cb s_fun_id v =
     (let key = s_fun_id + 1
      in (key, key, v\<lparr>m_cbs := std_insert cb_less (key, cb) (filter (\<lambda>x. fst x \<noteq> key) (m_cbs v))\<rparr>))"

definition delListener :: "u64 \<Rightarrow> ('v, 'cb) config_var \<Rightarrow> ('v, 'cb) config_var" where
  "delListener key v = v\<lparr>m_cbs := filter (\<lambda>x. fst x \<noteq> key) (m_cbs v)\<rparr>"

definition getListener :: "u64 \<Rightarrow> ('v, 'cb) config_var \<Rightarrow> 'cb option" where
  "getListener key v = map_of (m_cbs v) key"

definition clearListener :: "('v, 'cb) config_var \<Rightarrow> ('v, 'cb) config_var" where
  "clearListener v = v\<lparr>m_cbs := []\<rparr>"

section \<open>The registry\<close>

type_synonym var_ptr = nat

record ('v, 'cb) config =
  vars :: "var_ptr \<Rightarrow> ('v, 'cb) config_var"
  next_var :: nat
  s_datas :: "string \<rightharpoonup> var_ptr"
  calls :: "('cb \<times> 'v \<times> 'v) list"

definition name_chars :: string where
  "name_chars = ''abcdefghijklmnopqrstuvwxyz._123456789''"

definition valid_name :: "string \<Rightarrow> bool" where
  "valid_name name \<longleftrightarrow> set name \<subseteq> set name_chars"

text \<open>\<^verbatim>\<open>Config::Lookup<T>(name, default, description)\<close>; a null pointer is \<open>None\<close>.\<close>

definition Lookup_default ::
  "tag \<Rightarrow> string \<Rightarrow> 'v \<Rightarrow> string \<Rightarrow> ('v, 'cb) config \<Rightarrow> (var_ptr option \<times> ('v, 'cb) config) res" where
  "Lookup_default t name default_value description s =
     (case s_datas s name of
        Some p \<Rightarrow> Inr (if cv_tag (vars s p) = t then Some p else None, s)
      | None \<Rightarrow>
          if \<not> valid_name name then Inl (Thrown name)
          else
            let p = next_var s
            in Inr (Some p, s\<lparr>vars := (vars s)(p := new_ConfigVar t name default_value description), next_var := Suc p,
                 s_datas := (s_datas s)(name \<mapsto> p)\<rparr>))"

definition Lookup :: "tag \<Rightarrow> string \<Rightarrow> ('v, 'cb) config \<Rightarrow> var_ptr option" where
  "Lookup t name s =
     (case s_datas s name of
        None \<Rightarrow> None
      | Some p \<Rightarrow> if cv_tag (vars s p) = t then Some p else None)"

definition LookupBase :: "string \<Rightarrow> ('v, 'cb) config \<Rightarrow> var_ptr option" where
  "LookupBase name s = s_datas s name"

text \<open>
  \<^verbatim>\<open>Config::Visit\<close> with a callback that changes a state of its own; \<open>order\<close> is the order in which the unordered map enumerates its keys.
\<close>

definition Visit :: "(var_ptr \<Rightarrow> 'z \<Rightarrow> 'z) \<Rightarrow> string list \<Rightarrow> ('v, 'cb) config \<Rightarrow> 'z \<Rightarrow> 'z" where
  "Visit cb order s = fold (\<lambda>n. case s_datas s n of Some p \<Rightarrow> cb p | None \<Rightarrow> id) order"

definition join :: "string \<Rightarrow> string \<Rightarrow> string" where
  "join prefix key = (if prefix = [] then key else prefix @ ''.'' @ key)"

fun ListAllMember :: "string \<Rightarrow> node \<Rightarrow> (string \<times> node) list \<Rightarrow> (string \<times> node) list"
  and ListAllMembers :: "string \<Rightarrow> (string \<times> node) list \<Rightarrow> (string \<times> node) list \<Rightarrow> (string \<times> node) list" where
  "ListAllMember prefix node output =
     (if \<not> valid_name prefix then output
      else
        (let output1 = output @ [(prefix, node)]
         in case node of Map kvs \<Rightarrow> ListAllMembers prefix kvs output1 | _ \<Rightarrow> output1))"
| "ListAllMembers prefix [] output = output"
| "ListAllMembers prefix ((k, n) # kvs) output = ListAllMembers prefix kvs (ListAllMember (join prefix k) n output)"

declare ListAllMember.simps [simp del]

definition set_var :: "var_ptr \<Rightarrow> ('v, 'cb) config_var \<times> ('cb \<times> 'v \<times> 'v) list \<Rightarrow> ('v, 'cb) config \<Rightarrow> ('v, 'cb) config" where
  "set_var p r s = s\<lparr>vars := (vars s)(p := fst r), calls := calls s @ snd r\<rparr>"

definition node_text :: "yaml \<Rightarrow> node \<Rightarrow> string" where
  "node_text Y n = (case n of Scalar t \<Rightarrow> t | _ \<Rightarrow> y_emit Y n)"

definition load_one :: "yaml \<Rightarrow> (tag \<Rightarrow> 'v type_ops) \<Rightarrow> string \<times> node \<Rightarrow> ('v, 'cb) config \<Rightarrow> ('v, 'cb) config" where
  "load_one Y T i s =
     (if fst i = [] then s
      else
        let key = map tolower (fst i)
        in case LookupBase key s of
             None \<Rightarrow> s
           | Some p \<Rightarrow> set_var p (snd (fromString T (node_text Y (snd i)) (vars s p))) s)"

definition LoadFromYaml :: "yaml \<Rightarrow> (tag \<Rightarrow> 'v type_ops) \<Rightarrow> node \<Rightarrow> ('v, 'cb) config \<Rightarrow> ('v, 'cb) config" where
  "LoadFromYaml Y T root s = fold (load_one Y T) (ListAllMember [] root []) s"

section \<open>Lemmas on the conversions\<close>

text \<open>An element survives its own conversion to text and back through a node.\<close>

definition elem_ok :: "yaml \<Rightarrow> ('a \<Rightarrow> string res) \<Rightarrow> (string \<Rightarrow> 'a res) \<Rightarrow> ('a \<Rightarrow> node) \<Rightarrow> 'a \<Rightarrow> bool" where
  "elem_ok Y to from nd x \<longleftrightarrow> (\<exists>s. to x = Inr s \<and> y_load Y s = Inr (nd x)) \<and> from (y_emit Y (nd x)) = Inr x"

lemma cast_all_push:
  "\<forall>x \<in> set xs. elem_ok Y to from nd x \<Longrightarrow>
   cast_all (\<lambda>i. bindE (to i) (y_load Y)) node_push xs (Sequence ns) = Inr (Sequence (ns @ map nd xs))"
  by (induction xs arbitrary: ns) (auto simp: elem_ok_def)

lemma cast_all_seq_node:
  assumes "\<forall>x \<in> set xs. elem_ok Y to from nd x"
  shows "cast_all (\<lambda>i. bindE (to i) (y_load Y)) node_push xs Null = Inr (if xs = [] then Null else Sequence (map nd xs))"
proof (cases xs)
  case (Cons x ys)
  then obtain s where "to x = Inr s" "y_load Y s = Inr (nd x)" using assms by (auto simp: elem_ok_def)
  then show ?thesis using assms Cons cast_all_push [of ys Y to "from" nd "[nd x]"] by simp
qed simp

lemma cast_all_from:
  "\<forall>x \<in> set xs. f (nd x) = Inr x \<Longrightarrow> cast_all f ins (map nd xs) c = Inr (fold ins xs c)"
  by (induction xs arbitrary: c) auto

lemma fold_append: "fold (\<lambda>x v. v @ [x]) xs c = c @ xs"
  by (induction xs arbitrary: c) auto

lemma std_insert_last: "\<forall>y \<in> set c. lt y x \<and> \<not> lt x y \<Longrightarrow> std_insert lt x c = c @ [x]"
  by (induction c) auto

lemma fold_std_insert:
  assumes "\<And>x y. lt x y \<Longrightarrow> \<not> lt y x" and "sorted_wrt lt (c @ xs)"
  shows "fold (std_insert lt) xs c = c @ xs"
  using assms(2)
proof (induction xs arbitrary: c)
  case (Cons x xs)
  then have "std_insert lt x c = c @ [x]" using assms(1) by (intro std_insert_last) (auto simp: sorted_wrt_append)
  with Cons show ?case by simp
qed simp

lemma fold_distinct:
  "distinct (map g (c @ xs)) \<Longrightarrow> fold (\<lambda>x v. if g x \<in> g ` set v then v else v @ [x]) xs c = c @ xs"
proof (induction xs arbitrary: c)
  case (Cons x xs)
  then have "g x \<notin> g ` set c" by auto
  with Cons.IH [of "c @ [x]"] Cons.prems show ?case by simp
qed simp

lemma cast_all_put:
  "\<forall>(k, x) \<in> set kvs. elem_ok Y to from nd x \<Longrightarrow> distinct (map fst (ms @ map (map_prod id nd) kvs)) \<Longrightarrow>
   cast_all (\<lambda>(k, i). bindE (to i) (\<lambda>s. bindE (y_load Y s) (\<lambda>n. Inr (k, n)))) (\<lambda>(k, n). node_put k n) kvs (Map ms) =
   Inr (Map (ms @ map (map_prod id nd) kvs))"
proof (induction kvs arbitrary: ms)
  case (Cons kv kvs)
  obtain k x where kv: "kv = (k, x)" by fastforce
  then obtain s where "to x = Inr s" "y_load Y s = Inr (nd x)" using Cons.prems by (auto simp: elem_ok_def)
  moreover have "k \<notin> fst ` set ms" using Cons.prems(2) kv by auto
  ultimately show ?case using Cons.IH [of "ms @ [(k, nd x)]"] Cons.prems kv by simp
qed simp

lemma cast_all_pairs_node:
  assumes "\<forall>(k, x) \<in> set kvs. elem_ok Y to from nd x" and "distinct (map fst kvs)"
  shows "cast_all (\<lambda>(k, i). bindE (to i) (\<lambda>s. bindE (y_load Y s) (\<lambda>n. Inr (k, n)))) (\<lambda>(k, n). node_put k n) kvs Null =
    Inr (if kvs = [] then Null else Map (map (map_prod id nd) kvs))"
proof (cases kvs)
  case (Cons kv kvs')
  obtain k x where kv: "kv = (k, x)" by fastforce
  then obtain s where "to x = Inr s" "y_load Y s = Inr (nd x)" using assms Cons by (auto simp: elem_ok_def)
  then show ?thesis
    using assms Cons kv cast_all_put [of kvs' Y to "from" nd "[(k, nd x)]"] by (simp add: comp_def)
qed simp

lemma key_less_asym: "key_less a b \<Longrightarrow> \<not> key_less b a"
  by (auto simp: key_less_def)

section \<open>Properties of the conversions\<close>

text \<open>
  Containers survive the way through text: when every element does, and the library reads back the node that
  is printed, then a vector, a list, a set (its elements in order) and an unordered set (distinct elements) come back from their text
  as they were, and so do maps and unordered maps with distinct keys.
\<close>

theorem container_roundtrip:
  assumes "yaml_access Y" and "\<forall>x \<in> set xs. elem_ok Y to from nd x" and "\<forall>(k, x) \<in> set kvs. elem_ok Y to from nd x"
    and "node = (if xs = [] then Null else Sequence (map nd xs))" and "y_load Y (y_emit Y node) = Inr node"
    and "node' = (if kvs = [] then Null else Map (map (map_prod id nd) kvs))" and "y_load Y (y_emit Y node') = Inr node'"
    and "distinct (map fst kvs)"
  shows "bindE (string_of_vector Y to xs) (vector_of_string Y from) = Inr xs \<and>
    bindE (string_of_list Y to xs) (list_of_string Y from) = Inr xs \<and>
    ((\<forall>x y. lt x y \<longrightarrow> \<not> lt y x) \<and> sorted_wrt lt xs \<longrightarrow> bindE (string_of_set Y to xs) (set_of_string Y lt from) = Inr xs) \<and>
    (distinct xs \<longrightarrow> bindE (string_of_unordered_set Y to xs) (unordered_set_of_string Y from) = Inr xs) \<and>
    (sorted_wrt key_less kvs \<longrightarrow> bindE (string_of_map Y to kvs) (map_of_string Y from) = Inr kvs) \<and>
    bindE (string_of_unordered_map Y to kvs) (unordered_map_of_string Y from) = Inr kvs"
proof -
  have seq: "string_of_seq Y to xs = Inr (y_emit Y node)"
    using cast_all_seq_node [OF assms(2)] assms(4) by (simp add: string_of_seq_def)
  have elems: "y_elems Y node = map nd xs" using assms(1,4) by (simp add: yaml_access_def)
  have "seq_of_string Y from ins (y_emit Y node) = Inr (fold ins xs [])" for ins
    using cast_all_from [of xs "\<lambda>n. from (y_emit Y n)" nd ins "[]"] assms(2,5) elems by (simp add: seq_of_string_def elem_ok_def)
  note from_seq = this
  have pairs: "string_of_pairs Y to kvs = Inr (y_emit Y node')"
    using cast_all_pairs_node [OF assms(3,8)] assms(6) by (simp add: string_of_pairs_def)
  have elems': "y_pairs Y node' = map (map_prod id nd) kvs" using assms(1,6) by (simp add: yaml_access_def)
  have "pairs_of_string Y from ins (y_emit Y node') = Inr (fold ins kvs [])" for ins
  proof -
    have "\<forall>kx \<in> set kvs. (\<lambda>(k, n). bindE (from (y_emit Y n)) (\<lambda>x. Inr (k, x))) (map_prod id nd kx) = Inr kx"
      using assms(3) by (auto simp: elem_ok_def)
    then have "cast_all (\<lambda>(k, n). bindE (from (y_emit Y n)) (\<lambda>x. Inr (k, x))) ins (map (map_prod id nd) kvs) [] = Inr (fold ins kvs [])"
      by (rule cast_all_from)
    then show ?thesis using assms(7) elems' by (simp add: pairs_of_string_def)
  qed
  note from_pairs = this
  have "fold (\<lambda>x v. if x \<in> set v then v else v @ [x]) xs [] = xs" if "distinct xs"
    using that fold_distinct [of id "[]" xs] by simp
  moreover have "fold (\<lambda>x v. if fst x \<in> fst ` set v then v else v @ [x]) kvs [] = kvs"
    using fold_distinct [of fst "[]" kvs] assms(8) by simp
  moreover have "fold (std_insert key_less) kvs [] = kvs" if "sorted_wrt key_less kvs"
    using that fold_std_insert [of key_less "[]" kvs] key_less_asym by auto
  moreover have "fold (std_insert lt) xs [] = xs" if "\<forall>x y. lt x y \<longrightarrow> \<not> lt y x" "sorted_wrt lt xs"
    using that fold_std_insert [of lt "[]" xs] by auto
  ultimately show ?thesis
    using seq pairs from_seq from_pairs
    by (simp add: vector_of_string_def list_of_string_def set_of_string_def unordered_set_of_string_def
          map_of_string_def unordered_map_of_string_def fold_append string_of_vector_def string_of_list_def string_of_set_def
          string_of_unordered_set_def string_of_map_def string_of_unordered_map_def)
qed

text \<open>A library for one document, with the texts of its parts.\<close>

definition demo_yaml :: yaml where
  "demo_yaml = \<lparr>y_load = (\<lambda>s. if s = ''[a, b]'' then Inr (Sequence [Scalar ''a'', Scalar ''b''])
       else if s = ''{k: a}'' then Inr (Map [(''k'', Scalar ''a'')]) else Inr (Scalar s)),
     y_emit = (\<lambda>n. case n of Scalar s \<Rightarrow> s | Sequence ns \<Rightarrow> ''[a, b]'' | Map kvs \<Rightarrow> ''{k: a}'' | Null \<Rightarrow> ''~''),
     y_elems = (\<lambda>n. case n of Sequence ns \<Rightarrow> ns | _ \<Rightarrow> []), y_pairs = (\<lambda>n. case n of Map kvs \<Rightarrow> kvs | _ \<Rightarrow> []),
     y_field = (\<lambda>n k. case n of Map kvs \<Rightarrow> map_of kvs k | _ \<Rightarrow> None),
     y_string = (\<lambda>n. case n of Scalar s \<Rightarrow> Inr s | _ \<Rightarrow> Inl (Thrown ''bad conversion''))\<rparr>"

lemma demo_yaml_access: "yaml_access demo_yaml"
  by (simp add: yaml_access_def demo_yaml_def)

theorem container_roundtrip_witness:
  "string_of_vector demo_yaml Inr [''a'', ''b''] = Inr ''[a, b]'' \<and> vector_of_string demo_yaml Inr ''[a, b]'' = Inr [''a'', ''b''] \<and>
   string_of_map demo_yaml Inr [(''k'', ''a'')] = Inr ''{k: a}'' \<and> map_of_string demo_yaml Inr ''{k: a}'' = Inr [(''k'', ''a'')]"
proof -
  have e: "string_of_vector demo_yaml Inr [''a'', ''b''] = Inr ''[a, b]''" "string_of_map demo_yaml Inr [(''k'', ''a'')] = Inr ''{k: a}''"
    by (simp_all add: string_of_vector_def string_of_map_def string_of_seq_def string_of_pairs_def demo_yaml_def)
  show ?thesis
    using container_roundtrip [OF demo_yaml_access, of "[''a'', ''b'']" Inr Inr Scalar "[(''k'', ''a'')]" "Sequence [Scalar ''a'', Scalar ''b'']"
        "Map [(''k'', Scalar ''a'')]" "\<lambda>_ _. False"] e
    by (simp add: elem_ok_def) (simp add: demo_yaml_def)
qed

lemma node_put_Map [simp]:
  "k \<notin> fst ` set kvs \<Longrightarrow> node_put k x (Map kvs) = Map (kvs @ [(k, x)])"
  by simp

lemma appender_roundtrip:
  assumes "yaml_access Y" and "lad_type a = 1 \<or> lad_type a = 2"
  shows "appender_of_node Y (node_of_appender a) =
    Inr (Some (a\<lparr>lad_level := UNKNOW, lad_file := (if lad_type a = 1 then lad_file a else [])\<rparr>))"
  using assms
  by (auto simp: appender_of_node_def node_of_appender_def field_or_def yaml_access_def Let_def)

lemma cast_appenders:
  assumes "yaml_access Y" and "\<forall>a \<in> set as. lad_type a = 1 \<or> lad_type a = 2"
  shows "cast_all (appender_of_node Y) (\<lambda>a acc. case a of None \<Rightarrow> acc | Some d \<Rightarrow> acc @ [d]) (map node_of_appender as) acc =
    Inr (acc @ map (\<lambda>a. a\<lparr>lad_level := UNKNOW, lad_file := (if lad_type a = 1 then lad_file a else [])\<rparr>) as)"
  using assms(2) by (induction "as" arbitrary: acc) (simp_all add: appender_roundtrip [OF assms(1)])

lemma fold_push: "fold (\<lambda>a. node_push (g a)) as (Sequence ns) = Sequence (ns @ map g as)"
  by (induction "as" arbitrary: ns) simp_all

lemma fold_push_Null: "as \<noteq> [] \<Longrightarrow> fold (\<lambda>a. node_push (g a)) as Null = Sequence (map g as)"
  by (cases "as") (simp_all add: fold_push)

lemma FromString_ToString: "0 < l \<Longrightarrow> l \<le> 5 \<Longrightarrow> FromString (ToString l) = l"
  by (auto simp: FromString_def ToString_def level_defs)

text \<open>
  A definition of a logger comes back from its text with its name, level, formatter and appenders in order, except that the
  levels of the appenders are lost: they are written but never read.
\<close>

theorem log_define_roundtrip:
  assumes "yaml_access Y" and "types_ok d" and "0 \<le> ld_level d \<and> ld_level d \<le> 5"
    and "y_load Y (y_emit Y (node_of_define d)) = Inr (node_of_define d)"
  shows "define_of_string Y (string_of_define Y d) =
    Inr (d\<lparr>ld_appenders := map (\<lambda>a. a\<lparr>lad_level := UNKNOW, lad_file := (if lad_type a = 1 then lad_file a else [])\<rparr>) (ld_appenders d)\<rparr>)"
proof -
  let ?as = "map (\<lambda>a. a\<lparr>lad_level := UNKNOW, lad_file := (if lad_type a = 1 then lad_file a else [])\<rparr>) (ld_appenders d)"
  let ?n = "node_of_define d"
  have lev: "FromString (ToString (ld_level d)) = ld_level d" if "ld_level d \<noteq> UNKNOW"
    using that assms(3) FromString_ToString [of "ld_level d"] by (simp add: UNKNOW_def)
  have f: "y_field Y ?n ''name'' = Some (Scalar (ld_name d))"
    "y_field Y ?n ''level'' = (if ld_level d \<noteq> UNKNOW then Some (Scalar (ToString (ld_level d))) else None)"
    "y_field Y ?n ''formatter'' = (if ld_formatter d \<noteq> [] then Some (Scalar (ld_formatter d)) else None)"
    "y_field Y ?n ''appenders'' = (if ld_appenders d \<noteq> [] then Some (Sequence (map node_of_appender (ld_appenders d))) else None)"
    using assms(1) by (auto simp: node_of_define_def yaml_access_def Let_def fold_push_Null)
  have acc: "\<And>ns. y_elems Y (Sequence ns) = ns" "\<And>s. y_string Y (Scalar s) = Inr s" using assms(1) by (simp_all add: yaml_access_def)
  have apps: "cast_all (appender_of_node Y) (\<lambda>a acc. case a of None \<Rightarrow> acc | Some d \<Rightarrow> acc @ [d]) (map node_of_appender (ld_appenders d)) [] = Inr ?as"
    using cast_appenders [OF assms(1), of "ld_appenders d" "[]"] assms(2) by (simp add: types_ok_def)
  have empty: "FromString [] = UNKNOW" by (simp add: FromString_def)
  have "define_of_node Y ?n = Inr (d\<lparr>ld_appenders := ?as\<rparr>)"
    using lev by (simp add: define_of_node_def field_or_def f acc apps empty)
  then show ?thesis using assms(4) by (simp add: define_of_string_def string_of_define_def)
qed

theorem log_define_roundtrip_witness:
  "define_of_string (demo_yaml\<lparr>y_load := (\<lambda>_. Inr (node_of_define demo_define))\<rparr>)
     (string_of_define (demo_yaml\<lparr>y_load := (\<lambda>_. Inr (node_of_define demo_define))\<rparr>) demo_define) =
   Inr (demo_define\<lparr>ld_appenders := [\<lparr>lad_type = 1, lad_level = UNKNOW, lad_formatter = [], lad_file = ''app.log''\<rparr>,
      \<lparr>lad_type = 2, lad_level = UNKNOW, lad_formatter = ''%p'', lad_file = []\<rparr>]\<rparr>)"
proof -
  let ?Y = "demo_yaml\<lparr>y_load := (\<lambda>_. Inr (node_of_define demo_define))\<rparr>"
  have "yaml_access ?Y" using demo_yaml_access by (simp add: yaml_access_def)
  moreover have "types_ok demo_define" "0 \<le> ld_level demo_define \<and> ld_level demo_define \<le> 5"
    by (simp_all add: types_ok_def demo_define_def WARN_def)
  ultimately show ?thesis using log_define_roundtrip [of ?Y demo_define] by (simp add: demo_define_def)
qed

section \<open>The registry: invariant\<close>

text \<open>The conversions of a type give values of that type.\<close>

definition typed :: "(tag \<Rightarrow> 'v type_ops) \<Rightarrow> bool" where
  "typed T \<longleftrightarrow> (\<forall>t s v. t_from (T t) s = Inr v \<longrightarrow> t_ok (T t) v)"

definition empty_config :: "('v, 'cb) config" where
  "empty_config = \<lparr>vars = (\<lambda>_. \<lparr>cv_name = [], m_description = [], cv_tag = [], m_val = undefined, m_cbs = []\<rparr>), next_var = 0,
     s_datas = Map.empty, calls = []\<rparr>"

definition var_ok :: "(tag \<Rightarrow> 'v type_ops) \<Rightarrow> ('v, 'cb) config_var \<Rightarrow> bool" where
  "var_ok T v \<longleftrightarrow> t_ok (T (cv_tag v)) (m_val v)"

definition config_inv :: "(tag \<Rightarrow> 'v type_ops) \<Rightarrow> ('v, 'cb) config \<Rightarrow> bool" where
  "config_inv T s \<longleftrightarrow> (\<forall>p < next_var s. var_ok T (vars s p)) \<and>
     (\<forall>n p. s_datas s n = Some p \<longrightarrow> p < next_var s \<and> cv_name (vars s p) = n \<and> valid_name n)"

inductive config_step :: "(tag \<Rightarrow> 'v type_ops) \<Rightarrow> ('v, 'cb) config \<Rightarrow> ('v, 'cb) config \<Rightarrow> bool" for T :: "tag \<Rightarrow> 'v type_ops" where
  c_lookup: "t_ok (T t) d \<Longrightarrow> Lookup_default t name d desc s = Inr (r, s') \<Longrightarrow> config_step T s s'"
| c_set: "t_ok (T (cv_tag (vars s p))) val \<Longrightarrow> config_step T s (set_var p (setValue val (vars s p)) s)"
| c_from: "config_step T s (set_var p (snd (fromString T str (vars s p))) s)"
| c_load: "config_step T s (LoadFromYaml Y T root s)"
| c_add: "addListener cb i (vars s p) = (i', key, v) \<Longrightarrow> config_step T s (set_var p (v, []) s)"
| c_del: "config_step T s (set_var p (delListener key (vars s p), []) s)"
| c_clear: "config_step T s (set_var p (clearListener (vars s p), []) s)"

lemma tolower_valid: "valid_name n \<Longrightarrow> map tolower n = n"
proof -
  have "\<forall>c \<in> set name_chars. tolower c = c" by (simp add: name_chars_def tolower_def)
  then show "valid_name n \<Longrightarrow> map tolower n = n" by (auto simp: valid_name_def intro: map_idI)
qed

lemma config_inv_set_var:
  assumes "config_inv T s" and "cv_name (fst r) = cv_name (vars s p)" and "var_ok T (vars s p) \<longrightarrow> var_ok T (fst r)"
  shows "config_inv T (set_var p r s)"
  using assms by (auto simp: config_inv_def set_var_def)

lemma setValue_fields:
  "cv_name (fst (setValue val v)) = cv_name v" "cv_tag (fst (setValue val v)) = cv_tag v" "m_val (fst (setValue val v)) = val"
  by (simp_all add: setValue_def)

lemma fromString_eq:
  "snd (fromString T str v) = (case t_from (T (cv_tag v)) str of Inr val \<Rightarrow> setValue val v | Inl e \<Rightarrow> (v, []))"
  by (simp add: fromString_def split: sum.split)

lemma fromString_ok:
  assumes "typed T"
  shows "cv_name (fst (snd (fromString T str v))) = cv_name v \<and> (var_ok T v \<longrightarrow> var_ok T (fst (snd (fromString T str v))))"
  using assms by (auto simp: fromString_eq var_ok_def setValue_fields typed_def split: sum.split)

lemma load_one_inv: "typed T \<Longrightarrow> config_inv T s \<Longrightarrow> config_inv T (load_one Y T i s)"
  using fromString_ok [of T] by (auto simp: load_one_def Let_def intro!: config_inv_set_var split: option.split)

lemma fold_load_inv: "typed T \<Longrightarrow> config_inv T s \<Longrightarrow> config_inv T (fold (load_one Y T) L s)"
  by (induction L arbitrary: s) (simp_all add: load_one_inv)

lemma Lookup_default_inv:
  assumes "config_inv T s" and "t_ok (T t) d" and "Lookup_default t name d desc s = Inr (r, s')"
  shows "config_inv T s'"
proof (cases "s_datas s name")
  case None
  with assms(3) have v: "valid_name name" and s': "s' = s\<lparr>vars := (vars s)(next_var s := new_ConfigVar t name d desc), next_var := Suc (next_var s),
      s_datas := (s_datas s)(name \<mapsto> next_var s)\<rparr>"
    by (auto simp: Lookup_default_def Let_def split: if_splits)
  have "var_ok T (new_ConfigVar t name d desc)" using assms(2) by (simp add: var_ok_def new_ConfigVar_def)
  moreover have "cv_name (new_ConfigVar t name d desc) = name" using tolower_valid [OF v] by (simp add: new_ConfigVar_def)
  ultimately show ?thesis using assms(1) v by (auto simp: config_inv_def s' less_Suc_eq)
next
  case (Some p)
  with assms show ?thesis by (simp add: Lookup_default_def)
qed

lemma config_inv_step: "config_step T s s' \<Longrightarrow> typed T \<Longrightarrow> config_inv T s \<Longrightarrow> config_inv T s'"
proof (induction rule: config_step.induct)
  case (c_lookup t d name desc s r s')
  show ?case by (rule Lookup_default_inv [OF c_lookup(4,1,2)])
next
  case (c_from s p str)
  then show ?case using fromString_ok by (intro config_inv_set_var) blast+
next
  case (c_load s Y root)
  then show ?case by (simp add: LoadFromYaml_def fold_load_inv)
qed (auto intro!: config_inv_set_var simp: var_ok_def setValue_fields fromString_ok addListener_def delListener_def clearListener_def Let_def)

interpretation cfg: inductive_invariant "\<lambda>s. s = empty_config" "config_step T" "\<lambda>s. typed T \<longrightarrow> config_inv T s" for T :: "tag \<Rightarrow> 'v type_ops"
proof unfold_locales
  show "s = empty_config \<Longrightarrow> typed T \<longrightarrow> config_inv T s" for s :: "('v, 'b) config" and T :: "tag \<Rightarrow> 'v type_ops"
    by (simp add: config_inv_def empty_config_def)
  show "typed T \<longrightarrow> config_inv T s \<Longrightarrow> config_step T s t \<Longrightarrow> typed T \<longrightarrow> config_inv T t"
    for s t :: "('v, 'b) config" and T :: "tag \<Rightarrow> 'v type_ops"
    using config_inv_step by blast
qed

text \<open>
  \<^verbatim>\<open>Visit\<close> calls its callback once for each registered variable, whatever the order of the map.
\<close>

theorem visit_all:
  assumes "config_inv T s" and "distinct order" and "set order = dom (s_datas s)"
  shows "\<exists>ps. distinct ps \<and> set ps = ran (s_datas s) \<and> (\<forall>cb z. Visit cb order s z = fold cb ps z)"
proof -
  let ?p = "\<lambda>n. the (s_datas s n)"
  have reg: "s_datas s n = Some (?p n)" if "n \<in> set order" for n using that assms(3) by auto
  have "inj_on ?p (set order)"
    using assms(1) reg by (intro inj_on_inverseI [of _ "\<lambda>p. cv_name (vars s p)"]) (auto simp: config_inv_def)
  then have "distinct (map ?p order)" using assms(2) by (simp add: distinct_map)
  moreover have "set (map ?p order) = ran (s_datas s)" unfolding set_map assms(3) by (force simp: ran_def)
  moreover have "Visit cb order s z = fold cb (map ?p order) z" for cb :: "nat \<Rightarrow> 'z \<Rightarrow> 'z" and z
    using assms(3) unfolding Visit_def fold_map by (intro fold_cong) (auto simp: comp_def split: option.split)
  ultimately show ?thesis by blast
qed


section \<open>Properties of the registry\<close>


definition demo_types :: "tag \<Rightarrow> string type_ops" where
  "demo_types t = \<lparr>t_from = (\<lambda>s. if t = ''string'' then Inr s else Inl (Thrown ''bad cast'')), t_to = Inr, t_ok = (\<lambda>_. t = ''string'')\<rparr>"

lemma demo_typed: "typed demo_types"
  by (simp add: typed_def demo_types_def)


text \<open>What a path of keys leads to in a document.\<close>

fun at_path :: "node \<Rightarrow> string list \<Rightarrow> node \<Rightarrow> bool" where
  "at_path n [] m = (n = m)"
| "at_path (Map kvs) (k # ks) m = (\<exists>kc \<in> set kvs. fst kc = k \<and> at_path (snd kc) ks m)"
| "at_path n (k # ks) m = False"

lemma valid_join: "valid_name (join p k) \<Longrightarrow> valid_name p"
  by (auto simp: valid_name_def join_def split: if_splits)

lemma valid_foldl_join: "valid_name (foldl join p ks) \<Longrightarrow> valid_name p"
  by (induction ks arbitrary: p) (auto dest: valid_join)

text \<open>From the prefix \<open>p\<close> some path through \<open>node\<close> has the name \<open>k\<close> and leads to \<open>n\<close>.\<close>

definition leads :: "string \<Rightarrow> node \<Rightarrow> string \<Rightarrow> node \<Rightarrow> bool" where
  "leads p node k n \<longleftrightarrow> (\<exists>ks. at_path node ks n \<and> k = foldl join p ks)"

lemma leads_unfold:
  "leads p node k n \<longleftrightarrow> k = p \<and> n = node \<or> (case node of Map kvs \<Rightarrow> (\<exists>kc \<in> set kvs. leads (join p (fst kc)) (snd kc) k n) | _ \<Rightarrow> False)"
proof -
  have path: "(\<exists>ks. at_path node ks n \<and> k = foldl join p ks) \<longleftrightarrow>
      (at_path node [] n \<and> k = p) \<or> (\<exists>key ks. at_path node (key # ks) n \<and> k = foldl join (join p key) ks)"
    by (metis foldl_Cons foldl_Nil list.exhaust)
  show ?thesis unfolding leads_def path by (cases node) auto
qed

lemma leads_valid: "leads p node k n \<Longrightarrow> valid_name k \<Longrightarrow> valid_name p"
  using valid_foldl_join by (auto simp: leads_def)

lemma ListAllMember_paths:
  "(k, n) \<in> set (ListAllMember p node out) \<longleftrightarrow> (k, n) \<in> set out \<or> valid_name k \<and> leads p node k n"
  "(k, n) \<in> set (ListAllMembers p kvs out) \<longleftrightarrow>
     (k, n) \<in> set out \<or> valid_name k \<and> (\<exists>kc \<in> set kvs. leads (join p (fst kc)) (snd kc) k n)"
proof (induction p node out and p kvs out rule: ListAllMember_ListAllMembers.induct)
  case (1 p node out)
  show ?case
  proof (cases "valid_name p")
    case False
    then show ?thesis using leads_valid by (auto simp: ListAllMember.simps)
  next
    case True
    with "1.IH" show ?thesis
      by (subst leads_unfold) (cases node; auto simp: ListAllMember.simps)
  qed
next
  case (2 p out)
  then show ?case by simp
next
  case (3 p key c kvs out)
  then show ?case by auto
qed

lemma load_one_datas: "s_datas (load_one Y T i s) = s_datas s"
  by (simp add: load_one_def set_var_def Let_def split: option.split)

lemma load_one_var:
  assumes "config_inv T s" and "s_datas s name = Some p" and "valid_name (fst i)"
  shows "vars (load_one Y T i s) p =
    (if fst i = name \<and> name \<noteq> [] then fst (snd (fromString T (node_text Y (snd i)) (vars s p))) else vars s p)"
proof (cases "fst i = [] \<or> s_datas s (fst i) = None")
  case True
  then show ?thesis using assms by (auto simp: load_one_def LookupBase_def tolower_valid)
next
  case False
  then obtain q where q: "s_datas s (fst i) = Some q" by auto
  then have "fst i = name \<longleftrightarrow> q = p" using assms(1,2) unfolding config_inv_def by (metis option.inject)
  with q False assms(3) show ?thesis by (auto simp: load_one_def LookupBase_def tolower_valid set_var_def)
qed

lemma fold_load_var:
  assumes "typed T" and "config_inv T s" and "s_datas s name = Some p" and "name \<noteq> []"
    and "\<forall>i \<in> set L. valid_name (fst i)" and "distinct (map fst L)"
  shows "s_datas (fold (load_one Y T) L s) = s_datas s \<and> vars (fold (load_one Y T) L s) p =
    (case map_of L name of None \<Rightarrow> vars s p | Some n \<Rightarrow> fst (snd (fromString T (node_text Y n) (vars s p))))"
  using assms(2,3,5,6)
proof (induction L arbitrary: s)
  case Nil
  then show ?case by simp
next
  case (Cons i L)
  let ?s1 = "load_one Y T i s"
  have s1: "config_inv T ?s1" "s_datas ?s1 name = Some p" using load_one_inv [OF assms(1) Cons.prems(1)] load_one_datas [of Y T i s] Cons.prems(2) by simp_all
  have v: "vars ?s1 p = (if fst i = name then fst (snd (fromString T (node_text Y (snd i)) (vars s p))) else vars s p)"
    using load_one_var [OF Cons.prems(1,2), of i Y] Cons.prems(3) assms(4) by simp
  have IH: "s_datas (fold (load_one Y T) L ?s1) = s_datas ?s1 \<and> vars (fold (load_one Y T) L ?s1) p =
      (case map_of L name of None \<Rightarrow> vars ?s1 p | Some n \<Rightarrow> fst (snd (fromString T (node_text Y n) (vars ?s1 p))))"
    using Cons.prems(3,4) by (intro Cons.IH s1) auto
  have "map_of L name = None" if "fst i = name" using that Cons.prems(4) by (auto simp: map_of_eq_None_iff)
  with IH v load_one_datas [of Y T i s] show ?case by (cases i) (auto split: option.splits)
qed



end
