(* ===== verification/Startup.thy ===== *)
theory Startup
  imports Config
begin

text \<open>
  The program as its static initialisers leave it: the registry of \<^verbatim>\<open>config.h\<close> with the variables of \<^verbatim>\<open>log.cpp\<close>, \<^verbatim>\<open>fiber.cpp\<close> and
  \<^verbatim>\<open>hook.cpp\<close>, the loggers, and the two listeners that carry a change of a variable to the part of the program it configures.
  Here the listeners are run, where \<open>Config\<close> only records their calls.
\<close>

section \<open>Data\<close>

type_synonym i32 = "32 word"

datatype conf_value = IntV i32 | UIntV u32 | LogsV "log_define list"

datatype listener = OnLogConf | OnConnectTimeout

text \<open>\<^verbatim>\<open>boost::lexical_cast\<close> between text and the two integer types.\<close>

record casts =
  int_of_string :: "string \<Rightarrow> i32 res"
  string_of_int :: "i32 \<Rightarrow> string"
  uint_of_string :: "string \<Rightarrow> u32 res"
  string_of_uint :: "u32 \<Rightarrow> string"

definition define_less :: "log_define \<Rightarrow> log_define \<Rightarrow> bool" where
  "define_less a b \<longleftrightarrow> ld_name a < ld_name b"

definition defines_ok :: "log_define list \<Rightarrow> bool" where
  "defines_ok ds \<longleftrightarrow> sorted_wrt define_less ds \<and> (\<forall>d \<in> set ds. types_ok d)"

abbreviation logs_tag :: tag where "logs_tag \<equiv> ''std::set<LogDefine>''"

text \<open>The conversions of the types the variables have.\<close>

definition conf_types :: "yaml \<Rightarrow> casts \<Rightarrow> tag \<Rightarrow> conf_value type_ops" where
  "conf_types Y B t =
     (if t = ''int'' then
        \<lparr>t_from = (\<lambda>s. bindE (int_of_string B s) (\<lambda>n. Inr (IntV n))),
         t_to = (\<lambda>v. case v of IntV n \<Rightarrow> Inr (string_of_int B n) | _ \<Rightarrow> Inl (Thrown t)),
         t_ok = (\<lambda>v. case v of IntV n \<Rightarrow> True | _ \<Rightarrow> False)\<rparr>
      else if t = ''uint32_t'' then
        \<lparr>t_from = (\<lambda>s. bindE (uint_of_string B s) (\<lambda>n. Inr (UIntV n))),
         t_to = (\<lambda>v. case v of UIntV n \<Rightarrow> Inr (string_of_uint B n) | _ \<Rightarrow> Inl (Thrown t)),
         t_ok = (\<lambda>v. case v of UIntV n \<Rightarrow> True | _ \<Rightarrow> False)\<rparr>
      else if t = logs_tag then
        \<lparr>t_from = (\<lambda>s. bindE (set_of_string Y define_less (define_of_string Y) s) (\<lambda>ds. Inr (LogsV ds))),
         t_to = (\<lambda>v. case v of LogsV ds \<Rightarrow> string_of_set Y (\<lambda>d. Inr (string_of_define Y d)) ds | _ \<Rightarrow> Inl (Thrown t)),
         t_ok = (\<lambda>v. case v of LogsV ds \<Rightarrow> defines_ok ds | _ \<Rightarrow> False)\<rparr>
      else \<lparr>t_from = (\<lambda>s. Inl (Thrown t)), t_to = (\<lambda>v. Inl (Thrown t)), t_ok = (\<lambda>v. False)\<rparr>)"

text \<open>
  \<open>p_fun_id\<close> are the counters \<^verbatim>\<open>s_fun_id\<close>, one for each type; \<open>g_logger\<close> is the logger \<^verbatim>\<open>system\<close> that the sources keep in a variable of
  that name.
\<close>

record program =
  p_conf :: "(conf_value, listener) config"
  p_fun_id :: "tag \<Rightarrow> u64"
  p_logs :: log_mem
  g_logger :: logger_ptr
  s_connect_timeout :: u64

section \<open>Static initialisation\<close>

definition lookup_var :: "tag \<Rightarrow> string \<Rightarrow> conf_value \<Rightarrow> string \<Rightarrow> program \<Rightarrow> (var_ptr \<times> program) res" where
  "lookup_var t name d desc s =
     bindE (Lookup_default t name d desc (p_conf s)) (\<lambda>(v, c). bindE (deref v name) (\<lambda>p. Inr (p, s\<lparr>p_conf := c\<rparr>)))"

definition add_listener :: "tag \<Rightarrow> listener \<Rightarrow> var_ptr \<Rightarrow> program \<Rightarrow> program" where
  "add_listener t cb p s =
     (let (i, key, v) = addListener cb (p_fun_id s t) (vars (p_conf s) p)
      in s\<lparr>p_fun_id := (p_fun_id s)(t := i), p_conf := set_var p (v, []) (p_conf s)\<rparr>)"

definition LogIniter :: "program \<Rightarrow> program res" where
  "LogIniter s = bindE (lookup_var logs_tag ''logs'' (LogsV []) ''logs config'' s) (\<lambda>(g_log_defines, s1).
     Inr (add_listener logs_tag OnLogConf g_log_defines s1))"

definition init_stack_size :: "program \<Rightarrow> program res" where
  "init_stack_size s = bindE (lookup_var ''uint32_t'' ''fiber.stack_size'' (UIntV (128 * 1024)) ''fiber stack size'' s) (\<lambda>(p, s1). Inr s1)"

definition HookIniter :: "program \<Rightarrow> program res" where
  "HookIniter s =
     bindE (lookup_var ''int'' ''tcp.connect.timeout'' (IntV 5000) ''tcp connect timeout'' s) (\<lambda>(g_tcp_connect_timeout, s1).
     case m_val (vars (p_conf s1) g_tcp_connect_timeout) of
       IntV n \<Rightarrow> Inr (add_listener ''int'' OnConnectTimeout g_tcp_connect_timeout (s1\<lparr>s_connect_timeout := scast n\<rparr>))
     | _ \<Rightarrow> Inl (Thrown ''int''))"

text \<open>The three initialisers touch different variables; their order, that of the translation units, is not fixed by the language.\<close>

definition startup :: "program res" where
  "startup =
     (let (system, m) = getLogger ''system'' (new_LoggerManager empty_log_mem)
      in bindE (LogIniter \<lparr>p_conf = empty_config, p_fun_id = (\<lambda>_. 0), p_logs = m, g_logger = system, s_connect_timeout = - 1\<rparr>) (\<lambda>s1.
         bindE (init_stack_size s1) HookIniter))"

section \<open>The listeners\<close>

definition on_connect_timeout :: "log_env \<Rightarrow> log_event \<Rightarrow> i32 \<Rightarrow> i32 \<Rightarrow> program \<Rightarrow> program res option" where
  "on_connect_timeout env e old_value new_value s =
     (case SYLAR_LOG_LEVEL env (g_logger s) INFO e
             (''tcp connect timeout changed from '' @ show_int (sint old_value) @ '' to '' @ show_int (sint new_value)) (p_logs s) of
        None \<Rightarrow> None
      | Some r \<Rightarrow> Some (bindE r (\<lambda>m. Inr (s\<lparr>p_logs := m, s_connect_timeout := scast new_value\<rparr>))))"

text \<open>A call of a listener; the types of its arguments are those of its variable.\<close>

fun on_change :: "log_env \<Rightarrow> log_event \<Rightarrow> listener \<times> conf_value \<times> conf_value \<Rightarrow> program \<Rightarrow> program res option" where
  "on_change env e (OnLogConf, LogsV old, LogsV new) s =
     (case on_logger_conf_changed env e old new (p_logs s) of
        None \<Rightarrow> None
      | Some r \<Rightarrow> Some (bindE r (\<lambda>m. Inr (s\<lparr>p_logs := m\<rparr>))))"
| "on_change env e (OnConnectTimeout, IntV old, IntV new) s = on_connect_timeout env e old new s"
| "on_change env e c s = Some (Inl (Thrown ''type''))"

fun run_calls :: "log_env \<Rightarrow> log_event \<Rightarrow> (listener \<times> conf_value \<times> conf_value) list \<Rightarrow> program \<Rightarrow> program res option" where
  "run_calls env e [] s = Some (Inr s)"
| "run_calls env e (c # cs) s =
     (case on_change env e c s of Some (Inr s1) \<Rightarrow> run_calls env e cs s1 | r \<Rightarrow> r)"

text \<open>
  The registry after a change that recorded calls, with the calls made. The code makes them before it stores the
  value; the listeners do not read the variable.
\<close>

definition commit :: "log_env \<Rightarrow> log_event \<Rightarrow> (conf_value, listener) config \<Rightarrow> program \<Rightarrow> program res option" where
  "commit env e c s = run_calls env e (calls c) (s\<lparr>p_conf := c\<lparr>calls := []\<rparr>\<rparr>)"

definition set_value :: "log_env \<Rightarrow> log_event \<Rightarrow> var_ptr \<Rightarrow> conf_value \<Rightarrow> program \<Rightarrow> program res option" where
  "set_value env e p val s = commit env e (set_var p (setValue val (vars (p_conf s) p)) (p_conf s)) s"

fun load_members ::
  "yaml \<Rightarrow> casts \<Rightarrow> log_env \<Rightarrow> log_event \<Rightarrow> (string \<times> node) list \<Rightarrow> program \<Rightarrow> program res option" where
  "load_members Y B env e [] s = Some (Inr s)"
| "load_members Y B env e (i # is) s =
     (case commit env e (load_one Y (conf_types Y B) i (p_conf s)) s of
        Some (Inr s1) \<Rightarrow> load_members Y B env e is s1
      | r \<Rightarrow> r)"

text \<open>\<^verbatim>\<open>Config::LoadFromYaml\<close> in the running program.\<close>

definition load_yaml :: "yaml \<Rightarrow> casts \<Rightarrow> log_env \<Rightarrow> log_event \<Rightarrow> node \<Rightarrow> program \<Rightarrow> program res option" where
  "load_yaml Y B env e root s = load_members Y B env e (ListAllMember [] root []) s"

section \<open>The values read are well formed\<close>

lemma appender_of_node_type:
  "appender_of_node Y a = Inr (Some d) \<Longrightarrow> lad_type d = 1 \<or> lad_type d = 2"
  by (auto simp: appender_of_node_def bindE_eq_Inr split: option.splits if_splits)

lemma cast_all_inv:
  assumes "cast_all f ins ns c = Inr c'" and "P c" and "\<And>n x c. f n = Inr x \<Longrightarrow> P c \<Longrightarrow> P (ins x c)"
  shows "P c'"
  using assms(1,2)
proof (induction ns arbitrary: c)
  case (Cons n ns)
  then show ?case using assms(3) by (auto simp: bindE_eq_Inr)
qed simp

lemma define_types_ok: "define_of_string Y v = Inr d \<Longrightarrow> types_ok d"
proof -
  have "\<forall>a \<in> set as'. lad_type a = 1 \<or> lad_type a = 2"
    if "cast_all (appender_of_node Y) (\<lambda>a acc. case a of None \<Rightarrow> acc | Some d \<Rightarrow> acc @ [d]) ns [] = Inr as'" for ns as'
    by (rule cast_all_inv [OF that]) (auto dest: appender_of_node_type split: option.splits)
  then show "define_of_string Y v = Inr d \<Longrightarrow> types_ok d"
    by (fastforce simp: define_of_string_def define_of_node_def types_ok_def bindE_eq_Inr split: option.splits)
qed

lemma std_insert_subset: "set (std_insert lt x xs) \<subseteq> insert x (set xs)"
  by (induction xs) auto

lemma define_less_names: "define_less = (\<lambda>a b. ld_name a < ld_name b)"
  by (intro ext) (simp add: define_less_def)

lemma sorted_std_insert_define: "sorted_wrt define_less ds \<Longrightarrow> sorted_wrt define_less (std_insert define_less d ds)"
proof (induction ds)
  case (Cons y ys)
  then show ?case using std_insert_subset [of define_less d ys] unfolding define_less_names by (auto dest: order.strict_trans)
qed simp

lemma set_of_string_ok:
  assumes "set_of_string Y define_less (define_of_string Y) v = Inr ds"
  shows "defines_ok ds"
proof -
  obtain ns where "cast_all (\<lambda>n. define_of_string Y (y_emit Y n)) (std_insert define_less) ns [] = Inr ds"
    using assms by (auto simp: set_of_string_def seq_of_string_def bindE_eq_Inr)
  then show ?thesis
  proof (rule cast_all_inv)
    show "defines_ok (std_insert define_less d c)" if "define_of_string Y (y_emit Y n) = Inr d" "defines_ok c" for n d c
      using that sorted_std_insert_define std_insert_subset [of define_less d c] define_types_ok [OF that(1)]
      unfolding defines_ok_def by blast
  qed (simp add: defines_ok_def)
qed

lemma conf_typed: "typed (conf_types Y B)"
  using set_of_string_ok by (auto simp: typed_def conf_types_def bindE_eq_Inr)

lemma defines_distinct: "defines_ok ds \<Longrightarrow> distinct (map ld_name ds)"
proof -
  have "sorted_wrt (<) (map ld_name ds)" if "sorted_wrt define_less ds" using that by (simp add: sorted_wrt_map define_less_names)
  then show "defines_ok ds \<Longrightarrow> distinct (map ld_name ds)" by (simp add: defines_ok_def strict_sorted_iff)
qed

section \<open>Invariant\<close>

text \<open>
  The variables \<^verbatim>\<open>logs\<close> and \<^verbatim>\<open>tcp.connect.timeout\<close> have the addresses the initialisers gave them; no other variable has listeners. What
  they say is in force.
\<close>

definition wired :: "(conf_value, listener) config \<Rightarrow> bool" where
  "wired c \<longleftrightarrow> s_datas c ''logs'' = Some 0 \<and> cv_tag (vars c 0) = logs_tag \<and> m_cbs (vars c 0) = [(1, OnLogConf)] \<and>
     s_datas c ''tcp.connect.timeout'' = Some 2 \<and> cv_tag (vars c 2) = ''int'' \<and> m_cbs (vars c 2) = [(1, OnConnectTimeout)] \<and>
     (\<forall>p. p \<noteq> 0 \<and> p \<noteq> 2 \<longrightarrow> m_cbs (vars c p) = []) \<and> calls c = [] \<and> 2 < next_var c"

definition logs_in_force :: "program \<Rightarrow> bool" where
  "logs_in_force s \<longleftrightarrow> (\<exists>ds. m_val (vars (p_conf s) 0) = LogsV ds \<and> defines_ok ds \<and> (\<forall>d \<in> set ds. settled (p_logs s) d))"

definition timeout_in_force :: "program \<Rightarrow> bool" where
  "timeout_in_force s \<longleftrightarrow> (\<exists>n. m_val (vars (p_conf s) 2) = IntV n \<and> s_connect_timeout s = scast n)"

definition program_inv :: "yaml \<Rightarrow> casts \<Rightarrow> program \<Rightarrow> bool" where
  "program_inv Y B s \<longleftrightarrow> config_inv (conf_types Y B) (p_conf s) \<and> wired (p_conf s) \<and> log_inv (p_logs s) \<and>
     g_logger s < next_logger (p_logs s) \<and> logs_in_force s \<and> timeout_in_force s"

lemma settled_getLogger:
  assumes "log_inv m" and "getLogger n m = (l, m')" and "settled m d"
  shows "settled m' d"
proof (cases "l < next_logger m")
  case True
  with assms getLogger_spec [OF assms(1,2)] show ?thesis by simp
next
  case False
  then have "works_on l m m'" and new: "m_loggers m' n = Some l" "m_loggers m n = None"
    using getLogger_spec [OF assms(1,2)] by (simp_all add: works_on_def)
  from new(2) have "n \<noteq> ld_name d" using assms(3) by (auto simp: settled_def)
  then show ?thesis using settled_works_on [OF assms(1) \<open>works_on l m m'\<close> new(1) _ assms(3)] by blast
qed

section \<open>Loggers are never lost\<close>

lemma getLogger_mono: "getLogger n m = (l, m') \<Longrightarrow> next_logger m \<le> next_logger m'"
  by (auto simp: getLogger_def new_Logger_def split: option.splits)

lemma give_formatter_next [simp]: "next_logger (give_formatter val ps m) = next_logger m"
  by (induction ps arbitrary: m) simp_all

lemma setup_next [simp]:
  "next_logger (Logger_setLevel v l m) = next_logger m" "next_logger (clearAppenders l m) = next_logger m"
  "next_logger (addAppender p l m) = next_logger m" "next_logger (Logger_setFormatter_str val l m) = next_logger m"
  by (simp_all add: Logger_setLevel_def clearAppenders_def addAppender_def Logger_setFormatter_str_def Logger_setFormatter_def Let_def)

lemma make_appender_next: "make_appender env name a m = Inr (p, m') \<Longrightarrow> next_logger m' = next_logger m"
  by (auto simp: make_appender_def new_FileLogAppender_def new_appender_def reopen_def Appender_setLevel_def Appender_setFormatter_def
      deref_def Let_def split: if_splits)

lemma make_appenders_next: "make_appenders env name l as m = Inr m' \<Longrightarrow> next_logger m' = next_logger m"
  by (induction "as" arbitrary: m) (auto simp: bindE_eq_Inr dest: make_appender_next)

lemma apply_define_mono: "apply_define env old i m = Inr m' \<Longrightarrow> next_logger m \<le> next_logger m'"
  by (auto simp: apply_define_def Let_def dest!: make_appenders_next getLogger_mono split: if_splits prod.splits)

lemma apply_defines_mono: "apply_defines env old new m = Inr m' \<Longrightarrow> next_logger m \<le> next_logger m'"
  by (induction new arbitrary: m) (auto simp: bindE_eq_Inr dest!: apply_define_mono intro: order.trans)

lemma delete_defines_mono: "next_logger m \<le> next_logger (fold (delete_define new) old m)"
proof (induction old arbitrary: m)
  case (Cons i old)
  have "next_logger m \<le> next_logger (delete_define new i m)"
    by (auto simp: delete_define_def dest: getLogger_mono split: prod.splits)
  then show ?case using Cons.IH [of "delete_define new i m"] by simp
qed simp

lemma conf_changed_mono:
  assumes "log_inv m" and "dates_fit env" and "on_logger_conf_changed env e old new m = Some (Inr m')"
  shows "next_logger m \<le> next_logger m'"
proof -
  have root: "m_root m < next_logger m" using assms(1) by (simp add: log_inv_def)
  obtain m1 where m1: "SYLAR_LOG_LEVEL env (m_root m) INFO e ''on_logger_conf_changed'' m = Some (Inr m1)" "same_setup m m1"
    using log_message_setup [OF assms(1) root assms(2)] by blast
  obtain m2 where m2: "apply_defines env old new m1 = Inr m2" "m' = fold (delete_define new) old m2"
    using assms(3) m1(1) by (auto simp: on_logger_conf_changed_def bindE_eq_Inr)
  have "next_logger m = next_logger m1" using m1(2) by (simp add: same_setup_def)
  with apply_defines_mono [OF m2(1)] delete_defines_mono [of m2 new old] m2(2) show ?thesis by simp
qed

section \<open>Changing a variable\<close>

abbreviation stored :: "var_ptr \<Rightarrow> conf_value \<Rightarrow> program \<Rightarrow> program" where
  "stored p val s \<equiv> s\<lparr>p_conf := (p_conf s)\<lparr>vars := (vars (p_conf s))(p := (vars (p_conf s) p)\<lparr>m_val := val\<rparr>)\<rparr>\<rparr>"

lemma no_calls: "calls c = [] \<Longrightarrow> c\<lparr>vars := x, calls := []\<rparr> = c\<lparr>vars := x\<rparr>" "calls c = [] \<Longrightarrow> c\<lparr>calls := []\<rparr> = c"
  by (cases c; simp)+

lemma set_value_runs:
  assumes "calls (p_conf s) = []"
  shows "set_value env e p val s = run_calls env e (snd (setValue val (vars (p_conf s) p))) (stored p val s)"
  using assms by (auto simp: set_value_def commit_def set_var_def setValue_def no_calls)

lemma stored_inv:
  assumes "config_inv T (p_conf s)" and "wired (p_conf s)" and "t_ok (T (cv_tag (vars (p_conf s) p))) val"
  shows "config_inv T (p_conf (stored p val s)) \<and> wired (p_conf (stored p val s))"
  using assms by (auto simp: config_inv_def var_ok_def wired_def)

lemma conf_types_ok:
  "t_ok (conf_types Y B logs_tag) v \<longleftrightarrow> (\<exists>ds. v = LogsV ds \<and> defines_ok ds)"
  "t_ok (conf_types Y B ''int'') v \<longleftrightarrow> (\<exists>n. v = IntV n)"
  by (cases v; simp add: conf_types_def)+

lemma set_logs:
  assumes "program_inv Y B s" and "defines_ok new" and "dates_fit env"
  shows "\<exists>s'. set_value env e 0 (LogsV new) s = Some (Inr s') \<and> program_inv Y B s' \<and> p_conf s' = p_conf (stored 0 (LogsV new) s)"
proof -
  have inv: "config_inv (conf_types Y B) (p_conf s)" "wired (p_conf s)" "log_inv (p_logs s)" "g_logger s < next_logger (p_logs s)"
    "timeout_in_force s" using assms(1) by (simp_all add: program_inv_def)
  obtain old where old: "m_val (vars (p_conf s) 0) = LogsV old" "defines_ok old" "\<forall>d \<in> set old. settled (p_logs s) d"
    using assms(1) by (auto simp: program_inv_def logs_in_force_def)
  have tag: "cv_tag (vars (p_conf s) 0) = logs_tag" "m_cbs (vars (p_conf s) 0) = [(1, OnLogConf)]" "calls (p_conf s) = []"
    using inv(2) by (simp_all add: wired_def)
  have c': "config_inv (conf_types Y B) (p_conf (stored 0 (LogsV new) s))" "wired (p_conf (stored 0 (LogsV new) s))"
    using stored_inv [OF inv(1,2), of 0 "LogsV new"] assms(2) by (simp_all add: tag(1) conf_types_ok)
  have types: "\<forall>d \<in> set new. types_ok d" using assms(2) by (simp add: defines_ok_def)
  obtain m' where m': "on_logger_conf_changed env e old new (p_logs s) = Some (Inr m')" "log_inv m'"
    "\<forall>d \<in> set new. d \<notin> set old \<or> settled (p_logs s) d \<longrightarrow> settled m' d"
    using conf_changed_spec [OF inv(3) assms(3) defines_distinct [OF old(2)] defines_distinct [OF assms(2)] types] by blast
  define m where "m = (if new = old then p_logs s else m')"
  have "set_value env e 0 (LogsV new) s = Some (Inr ((stored 0 (LogsV new) s)\<lparr>p_logs := m\<rparr>))"
    unfolding set_value_runs [OF tag(3)] by (simp add: setValue_def old(1) tag(2) m'(1) m_def)
  moreover have "log_inv m" "\<forall>d \<in> set new. settled m d" "g_logger s < next_logger m"
    using inv(3,4) m' old(3) conf_changed_mono [OF inv(3) assms(3) m'(1)] by (auto simp: m_def)
  ultimately show ?thesis
    using c' inv(5) assms(2) by (auto simp: program_inv_def logs_in_force_def timeout_in_force_def)
qed

lemma set_timeout:
  assumes "program_inv Y B s" and "dates_fit env"
  shows "\<exists>s'. set_value env e 2 (IntV new) s = Some (Inr s') \<and> program_inv Y B s' \<and> p_conf s' = p_conf (stored 2 (IntV new) s)"
proof -
  have inv: "config_inv (conf_types Y B) (p_conf s)" "wired (p_conf s)" "log_inv (p_logs s)" "g_logger s < next_logger (p_logs s)"
    "logs_in_force s" using assms(1) by (simp_all add: program_inv_def)
  obtain old where old: "m_val (vars (p_conf s) 2) = IntV old" "s_connect_timeout s = scast old"
    using assms(1) by (auto simp: program_inv_def timeout_in_force_def)
  have tag: "cv_tag (vars (p_conf s) 2) = ''int''" "m_cbs (vars (p_conf s) 2) = [(1, OnConnectTimeout)]" "calls (p_conf s) = []"
    using inv(2) by (simp_all add: wired_def)
  have c': "config_inv (conf_types Y B) (p_conf (stored 2 (IntV new) s))" "wired (p_conf (stored 2 (IntV new) s))"
    using stored_inv [OF inv(1,2), of 2 "IntV new"] by (simp_all add: tag(1) conf_types_ok)
  let ?msg = "''tcp connect timeout changed from '' @ show_int (sint old) @ '' to '' @ show_int (sint new)"
  obtain m' where m': "SYLAR_LOG_LEVEL env (g_logger s) INFO e ?msg (p_logs s) = Some (Inr m')" "same_setup (p_logs s) m'"
    using log_message_setup [OF inv(3,4) assms(2)] by blast
  define m where "m = (if new = old then p_logs s else m')"
  have "set_value env e 2 (IntV new) s = Some (Inr ((stored 2 (IntV new) s)\<lparr>p_logs := m, s_connect_timeout := scast new\<rparr>))"
    using m'(1) unfolding set_value_runs [OF tag(3)] by (simp add: setValue_def old tag(2) m_def on_connect_timeout_def)
  moreover have same: "same_setup (p_logs s) m" using m'(2) by (simp add: m_def)
  moreover have "logs_in_force ((stored 2 (IntV new) s)\<lparr>p_logs := m, s_connect_timeout := scast new\<rparr>)"
    using inv(5) settled_same_setup [OF same] by (auto simp: logs_in_force_def)
  moreover have "log_inv m" "g_logger s < next_logger m"
    using log_inv_same_setup [OF same inv(3)] inv(4) same by (simp_all add: same_setup_def)
  ultimately show ?thesis using c' by (auto simp: program_inv_def timeout_in_force_def)
qed

lemma set_other:
  assumes "program_inv Y B s" and "p \<noteq> 0" and "p \<noteq> 2" and "t_ok (conf_types Y B (cv_tag (vars (p_conf s) p))) val"
  shows "\<exists>s'. set_value env e p val s = Some (Inr s') \<and> program_inv Y B s' \<and> p_conf s' = p_conf (stored p val s)"
proof -
  have w: "m_cbs (vars (p_conf s) p) = []" "calls (p_conf s) = []" using assms(1-3) by (simp_all add: program_inv_def wired_def)
  then have "set_value env e p val s = Some (Inr (stored p val s))" by (simp add: set_value_runs setValue_def)
  moreover have "config_inv (conf_types Y B) (p_conf (stored p val s)) \<and> wired (p_conf (stored p val s))"
    using assms(1,4) by (intro stored_inv) (simp_all add: program_inv_def)
  ultimately show ?thesis
    using assms(1-3) by (simp add: program_inv_def logs_in_force_def timeout_in_force_def)
qed

lemma set_value_inv:
  assumes "program_inv Y B s" and "t_ok (conf_types Y B (cv_tag (vars (p_conf s) p))) val" and "dates_fit env"
  shows "\<exists>s'. set_value env e p val s = Some (Inr s') \<and> program_inv Y B s' \<and> p_conf s' = p_conf (stored p val s)"
proof -
  have tags: "cv_tag (vars (p_conf s) 0) = logs_tag" "cv_tag (vars (p_conf s) 2) = ''int''"
    using assms(1) by (simp_all add: program_inv_def wired_def)
  consider "p = 0" | "p = 2" | "p \<noteq> 0" "p \<noteq> 2" by blast
  then show ?thesis
  proof cases
    case 1
    with assms(2) obtain ds where "val = LogsV ds" "defines_ok ds" unfolding 1 tags(1) conf_types_ok by blast
    with 1 show ?thesis using set_logs [OF assms(1) _ assms(3)] by blast
  next
    case 2
    with assms(2) obtain n where "val = IntV n" unfolding 2 tags(2) conf_types_ok by blast
    with 2 show ?thesis using set_timeout [OF assms(1,3)] by blast
  next
    case 3
    with assms(1,2) show ?thesis by (intro set_other)
  qed
qed

section \<open>Loading a document\<close>

lemma load_one_sets:
  assumes "config_inv T c" and "typed T"
  shows "load_one Y T i c = c \<or>
    (\<exists>p val. t_ok (T (cv_tag (vars c p))) val \<and> load_one Y T i c = set_var p (setValue val (vars c p)) c)"
proof -
  have "set_var p (vars c p, []) c = c" for p by (simp add: set_var_def)
  then show ?thesis
    using assms(2) by (simp add: load_one_def fromString_eq typed_def Let_def split: option.split sum.split) blast
qed

lemma stored_set_var: "calls c = [] \<Longrightarrow> (set_var p (setValue val (vars c p)) c)\<lparr>calls := []\<rparr> = c\<lparr>vars := (vars c)(p := (vars c p)\<lparr>m_val := val\<rparr>)\<rparr>"
  by (auto simp: set_var_def setValue_def no_calls)

lemma commit_load_one:
  assumes "program_inv Y B s" and "dates_fit env"
  shows "\<exists>s'. commit env e (load_one Y (conf_types Y B) i (p_conf s)) s = Some (Inr s') \<and> program_inv Y B s' \<and>
    p_conf s' = (load_one Y (conf_types Y B) i (p_conf s))\<lparr>calls := []\<rparr>"
proof -
  have inv: "config_inv (conf_types Y B) (p_conf s)" "calls (p_conf s) = []"
    using assms(1) by (simp_all add: program_inv_def wired_def)
  from load_one_sets [OF inv(1) conf_typed, of Y i] show ?thesis
  proof (elim disjE exE conjE)
    assume "load_one Y (conf_types Y B) i (p_conf s) = p_conf s"
    then show ?thesis using inv(2) assms(1) by (simp add: commit_def no_calls)
  next
    fix p val
    assume ok: "t_ok (conf_types Y B (cv_tag (vars (p_conf s) p))) val"
      and l: "load_one Y (conf_types Y B) i (p_conf s) = set_var p (setValue val (vars (p_conf s) p)) (p_conf s)"
    from set_value_inv [OF assms(1) ok assms(2)] show ?thesis
      unfolding l stored_set_var [OF inv(2)] set_value_def by simp
  qed
qed

lemma load_one_calls: "(load_one Y T i (c\<lparr>calls := []\<rparr>))\<lparr>calls := []\<rparr> = (load_one Y T i c)\<lparr>calls := []\<rparr>"
  by (simp add: load_one_def LookupBase_def set_var_def Let_def split: option.splits)

lemma fold_load_calls: "(fold (load_one Y T) L (c\<lparr>calls := []\<rparr>))\<lparr>calls := []\<rparr> = (fold (load_one Y T) L c)\<lparr>calls := []\<rparr>"
proof (induction L arbitrary: c)
  case (Cons i L)
  show ?case using Cons.IH [of "load_one Y T i (c\<lparr>calls := []\<rparr>)"] Cons.IH [of "load_one Y T i c"] load_one_calls [of Y T i c]
    by simp
qed simp

lemma load_members_inv:
  assumes "program_inv Y B s" and "dates_fit env"
  shows "\<exists>s'. load_members Y B env e L s = Some (Inr s') \<and> program_inv Y B s' \<and>
    p_conf s' = (fold (load_one Y (conf_types Y B)) L (p_conf s))\<lparr>calls := []\<rparr>"
  using assms(1)
proof (induction L arbitrary: s)
  case Nil
  then show ?case by (simp add: program_inv_def wired_def no_calls)
next
  case (Cons i L)
  obtain s1 where s1: "commit env e (load_one Y (conf_types Y B) i (p_conf s)) s = Some (Inr s1)" "program_inv Y B s1"
    "p_conf s1 = (load_one Y (conf_types Y B) i (p_conf s))\<lparr>calls := []\<rparr>"
    using commit_load_one [OF Cons.prems assms(2)] by blast
  with Cons.IH [OF s1(2)] show ?case by (auto simp: fold_load_calls)
qed

section \<open>Executions\<close>

text \<open>
  What the program does once it is initialised, as far as it concerns the configuration: documents are loaded, variables are looked up and
  set, loggers are looked up and used.
\<close>

inductive program_step :: "yaml \<Rightarrow> casts \<Rightarrow> program \<Rightarrow> program \<Rightarrow> bool" for Y :: yaml and B :: casts where
  p_load: "dates_fit env \<Longrightarrow> load_yaml Y B env e root s = Some (Inr s') \<Longrightarrow> program_step Y B s s'"
| p_set: "dates_fit env \<Longrightarrow> t_ok (conf_types Y B (cv_tag (vars (p_conf s) p))) val \<Longrightarrow> set_value env e p val s = Some (Inr s') \<Longrightarrow>
    program_step Y B s s'"
| p_lookup: "t_ok (conf_types Y B t) d \<Longrightarrow> lookup_var t name d desc s = Inr (p, s') \<Longrightarrow> program_step Y B s s'"
| p_get: "getLogger n (p_logs s) = (l, m) \<Longrightarrow> program_step Y B s (s\<lparr>p_logs := m\<rparr>)"
| p_log: "l < next_logger (p_logs s) \<Longrightarrow> Logger_log env level e l (p_logs s) = Some (Inr m) \<Longrightarrow> program_step Y B s (s\<lparr>p_logs := m\<rparr>)"

lemma lookup_var_inv:
  assumes "program_inv Y B s" and "t_ok (conf_types Y B t) d" and "lookup_var t name d desc s = Inr (p, s')"
  shows "program_inv Y B s'"
proof -
  obtain c where c: "Lookup_default t name d desc (p_conf s) = Inr (Some p, c)" "s' = s\<lparr>p_conf := c\<rparr>"
    using assms(3) by (auto simp: lookup_var_def bindE_eq_Inr deref_def split: option.splits)
  have inv: "config_inv (conf_types Y B) (p_conf s)" "wired (p_conf s)" using assms(1) by (simp_all add: program_inv_def)
  have "config_inv (conf_types Y B) c" using Lookup_default_inv [OF inv(1) assms(2) c(1)] .
  moreover have "wired c \<and> vars c 0 = vars (p_conf s) 0 \<and> vars c 2 = vars (p_conf s) 2"
    using c(1) inv(2) by (auto simp: Lookup_default_def wired_def new_ConfigVar_def Let_def split: option.splits if_splits)
  ultimately show ?thesis
    using assms(1) by (simp add: c(2) program_inv_def logs_in_force_def timeout_in_force_def)
qed

lemma same_logs_inv:
  assumes "program_inv Y B s" and "log_inv m" and "next_logger (p_logs s) \<le> next_logger m" and "\<And>d. settled (p_logs s) d \<Longrightarrow> settled m d"
  shows "program_inv Y B (s\<lparr>p_logs := m\<rparr>)"
  using assms by (auto simp: program_inv_def logs_in_force_def timeout_in_force_def)

lemma program_step_inv: "program_step Y B s s' \<Longrightarrow> program_inv Y B s \<Longrightarrow> program_inv Y B s'"
proof (induction rule: program_step.induct)
  case (p_load env e root s s')
  then show ?case using load_members_inv [of Y B s env e "ListAllMember [] root []"] by (auto simp: load_yaml_def)
next
  case (p_set env s p val e s')
  then show ?case using set_value_inv [of Y B s p val env e] by auto
next
  case (p_lookup t d name desc s p s')
  show ?case by (rule lookup_var_inv [OF p_lookup(3,1,2)])
next
  case (p_get n s l m)
  have "log_inv (p_logs s)" using p_get(2) by (simp add: program_inv_def)
  with p_get show ?case
    using getLogger_spec settled_getLogger getLogger_mono by (intro same_logs_inv) blast+
next
  case (p_log l s env level e m)
  have inv: "log_inv (p_logs s)" using p_log(3) by (simp add: program_inv_def)
  have "log_appenders env level e (sinks (p_logs s) l level) (p_logs s) = Inr m"
    using p_log(2) Logger_log_sinks [OF inv p_log(1)] by simp
  then have same: "same_setup (p_logs s) m" by (rule log_appenders_setup)
  show ?case
    using p_log(3) log_inv_same_setup [OF same inv] settled_same_setup [OF same] same
    by (intro same_logs_inv) (simp_all add: same_setup_def)
qed

lemma lookup_var_new:
  assumes "s_datas (p_conf s) name = None" and "valid_name name"
  shows "lookup_var t name d desc s = Inr (next_var (p_conf s), s\<lparr>p_conf := (p_conf s)
    \<lparr>vars := (vars (p_conf s))(next_var (p_conf s) := new_ConfigVar t name d desc), next_var := Suc (next_var (p_conf s)),
     s_datas := (s_datas (p_conf s))(name \<mapsto> next_var (p_conf s))\<rparr>\<rparr>)"
  using assms by (simp add: lookup_var_def Lookup_default_def deref_def Let_def)

lemma startup_names:
  "valid_name ''logs''" "valid_name ''fiber.stack_size''" "valid_name ''tcp.connect.timeout''"
  by (simp_all add: valid_name_def name_chars_def)

abbreviation startup_vars :: "var_ptr \<Rightarrow> (conf_value, listener) config_var" where
  "startup_vars \<equiv> (vars empty_config)
     (0 := (new_ConfigVar logs_tag ''logs'' (LogsV []) ''logs config'')\<lparr>m_cbs := [(1, OnLogConf)]\<rparr>,
      1 := new_ConfigVar ''uint32_t'' ''fiber.stack_size'' (UIntV (128 * 1024)) ''fiber stack size'',
      2 := (new_ConfigVar ''int'' ''tcp.connect.timeout'' (IntV 5000) ''tcp connect timeout'')\<lparr>m_cbs := [(1, OnConnectTimeout)]\<rparr>)"

lemma startup_eq:
  "\<exists>s. startup = Inr s \<and> vars (p_conf s) = startup_vars \<and> next_var (p_conf s) = 3 \<and> calls (p_conf s) = [] \<and>
     s_datas (p_conf s) = [''logs'' \<mapsto> 0, ''fiber.stack_size'' \<mapsto> 1, ''tcp.connect.timeout'' \<mapsto> 2] \<and>
     getLogger ''system'' (new_LoggerManager empty_log_mem) = (g_logger s, p_logs s) \<and> s_connect_timeout s = 5000"
proof (cases "getLogger ''system'' (new_LoggerManager empty_log_mem)")
  case (Pair l m)
  then show ?thesis
    by (simp add: startup_def LogIniter_def init_stack_size_def HookIniter_def lookup_var_new startup_names empty_config_def
        add_listener_def addListener_def set_var_def new_ConfigVar_def Let_def numeral_2_eq_2)
qed

lemma startup_inv:
  assumes "startup = Inr s"
  shows "program_inv Y B s"
proof -
  obtain s0 where s0: "startup = Inr s0" "vars (p_conf s0) = startup_vars \<and> next_var (p_conf s0) = 3 \<and> calls (p_conf s0) = [] \<and>
     s_datas (p_conf s0) = [''logs'' \<mapsto> 0, ''fiber.stack_size'' \<mapsto> 1, ''tcp.connect.timeout'' \<mapsto> 2] \<and>
     getLogger ''system'' (new_LoggerManager empty_log_mem) = (g_logger s0, p_logs s0) \<and> s_connect_timeout s0 = 5000"
    using startup_eq by blast
  have "s0 = s" using s0(1) assms by (metis Inr_inject)
  with s0(2) have c: "vars (p_conf s) = startup_vars" "next_var (p_conf s) = 3" "calls (p_conf s) = []"
    "s_datas (p_conf s) = [''logs'' \<mapsto> 0, ''fiber.stack_size'' \<mapsto> 1, ''tcp.connect.timeout'' \<mapsto> 2]"
    and g: "getLogger ''system'' (new_LoggerManager empty_log_mem) = (g_logger s, p_logs s)" and t: "s_connect_timeout s = 5000"
    by simp_all
  have "wired (p_conf s)" unfolding wired_def c by (simp add: new_ConfigVar_def empty_config_def)
  moreover have "config_inv (conf_types Y B) (p_conf s)"
    unfolding config_inv_def c
  proof (intro conjI allI impI)
    show "var_ok (conf_types Y B) (startup_vars p)" if "p < 3" for p
    proof -
      from that consider "p = 0" | "p = 1" | "p = 2" by linarith
      then show ?thesis by cases (simp_all add: var_ok_def new_ConfigVar_def conf_types_def defines_ok_def)
    qed
    fix n and p :: nat
    assume "[''logs'' \<mapsto> 0, ''fiber.stack_size'' \<mapsto> 1, ''tcp.connect.timeout'' \<mapsto> 2] n = Some p"
    then consider "n = ''logs''" "p = 0" | "n = ''fiber.stack_size''" "p = 1" | "n = ''tcp.connect.timeout''" "p = 2"
      by (simp split: if_splits)
    then show "p < 3" "cv_name (startup_vars p) = n" "valid_name n"
      by (cases; simp add: new_ConfigVar_def startup_names tolower_valid del: list.map)+
  qed
  moreover have "log_inv (p_logs s)" "g_logger s < next_logger (p_logs s)" using getLogger_spec [OF log_inv_init g] by simp_all
  ultimately show ?thesis
    using t by (simp add: program_inv_def logs_in_force_def timeout_in_force_def c(1) new_ConfigVar_def defines_ok_def)
qed

interpretation conf: inductive_invariant "\<lambda>s. startup = Inr s" "program_step Y B" "program_inv Y B" for Y B
  by unfold_locales (auto intro: startup_inv program_step_inv)

section \<open>Properties\<close>


definition demo_casts :: casts where
  "demo_casts = \<lparr>int_of_string = (\<lambda>s. if s = ''9000'' then Inr 9000 else Inl (Thrown s)), string_of_int = (\<lambda>n. show_int (sint n)),
     uint_of_string = (\<lambda>s. Inl (Thrown s)), string_of_uint = (\<lambda>n. show_int (uint n))\<rparr>"

abbreviation demo_doc :: node where
  "demo_doc \<equiv> Map [(''tcp.connect.timeout'', Scalar ''9000'')]"


end
