(* ===== verification/Log_Dump.thy ===== *)
theory Log_Dump
  imports Startup
begin

text \<open>
  The methods \<^verbatim>\<open>toYamlString\<close> of the appenders, of \<^verbatim>\<open>Logger\<close> and of \<^verbatim>\<open>LoggerManager\<close> in \<^verbatim>\<open>sylar/log.cpp\<close>, which print the
  loggers as they are set up, and what the configuration system reads from that text.
\<close>

section \<open>Operations\<close>

definition put_formatter :: "log_formatter option \<Rightarrow> node \<Rightarrow> node" where
  "put_formatter fmt n = (case fmt of Some f \<Rightarrow> node_put ''formatter'' (Scalar (m_pattern f)) n | None \<Rightarrow> n)"

definition Stdout_node :: "appender \<Rightarrow> node" where
  "Stdout_node a =
     (let n = node_put ''type'' (Scalar ''StdoutLogAppender'') Null;
          n1 = (if ap_level a \<noteq> UNKNOW then node_put ''level'' (Scalar (ToString (ap_level a))) n else n)
      in if m_hasFormatter a then put_formatter (ap_formatter a) n1 else n1)"

definition File_node :: "string \<Rightarrow> appender \<Rightarrow> node" where
  "File_node m_filename a =
     (let n = node_put ''type'' (Scalar ''FileLogAppender'') Null;
          n1 = node_put ''file'' (Scalar m_filename) n;
          n2 = node_put ''level'' (Scalar (ToString (ap_level a))) n1
      in if m_hasFormatter a then put_formatter (ap_formatter a) n2 else n2)"

definition Appender_node :: "appender \<Rightarrow> node" where
  "Appender_node a = (case ap_kind a of Stdout \<Rightarrow> Stdout_node a | File m_filename good m_lastTime \<Rightarrow> File_node m_filename a)"

definition Appender_toYamlString :: "yaml \<Rightarrow> appender \<Rightarrow> string" where
  "Appender_toYamlString Y a = y_emit Y (Appender_node a)"

text \<open>\<^verbatim>\<open>node["appenders"].push_back(x)\<close>; the sequence comes into being with its first element.\<close>

fun push_appender :: "node \<Rightarrow> node \<Rightarrow> node" where
  "push_appender x (Map kvs) =
     node_put ''appenders'' (node_push x (case map_of kvs ''appenders'' of Some y \<Rightarrow> y | None \<Rightarrow> Null)) (Map kvs)"
| "push_appender x n = node_put ''appenders'' (node_push x Null) n"

definition Logger_toYamlString :: "yaml \<Rightarrow> logger_ptr \<Rightarrow> log_mem \<Rightarrow> string res" where
  "Logger_toYamlString Y l m =
     (let lg = loggers m l;
          node = node_put ''level'' (Scalar (ToString (lg_level lg))) (node_put ''name'' (Scalar (lg_name lg)) Null);
          node1 = put_formatter (lg_formatter lg) node
      in bindE (cast_all (\<lambda>p. y_load Y (Appender_toYamlString Y (appenders m p))) push_appender (m_appenders lg) node1) (\<lambda>n.
         Inr (y_emit Y n)))"

text \<open>The loop over \<^verbatim>\<open>m_loggers\<close>, a \<^verbatim>\<open>std::map\<close>, goes through the names in order.\<close>

definition logger_names :: "log_mem \<Rightarrow> string list" where
  "logger_names m = sorted_list_of_set (dom (m_loggers m))"

definition LoggerManager_toYamlString :: "yaml \<Rightarrow> log_mem \<Rightarrow> string res" where
  "LoggerManager_toYamlString Y m =
     bindE (cast_all (\<lambda>n. bindE (Logger_toYamlString Y (the (m_loggers m n)) m) (y_load Y)) node_push (logger_names m) Null) (\<lambda>n.
     Inr (y_emit Y n))"

declare push_appender.simps [simp del]

section \<open>What is printed\<close>

definition Logger_node :: "log_mem \<Rightarrow> logger_ptr \<Rightarrow> node" where
  "Logger_node m l =
     (let lg = loggers m l
      in Map ([(''name'', Scalar (lg_name lg)), (''level'', Scalar (ToString (lg_level lg)))] @
           (case lg_formatter lg of Some f \<Rightarrow> [(''formatter'', Scalar (m_pattern f))] | None \<Rightarrow> []) @
           (if m_appenders lg = [] then []
            else [(''appenders'', Sequence (map (\<lambda>p. Appender_node (appenders m p)) (m_appenders lg)))])))"

definition Manager_node :: "log_mem \<Rightarrow> node" where
  "Manager_node m =
     (if logger_names m = [] then Null else Sequence (map (\<lambda>n. Logger_node m (the (m_loggers m n))) (logger_names m)))"

definition reads_back :: "yaml \<Rightarrow> node \<Rightarrow> bool" where
  "reads_back Y n \<longleftrightarrow> y_load Y (y_emit Y n) = Inr n"

text \<open>The library reads back the nodes that the loggers print.\<close>

definition prints_logger :: "yaml \<Rightarrow> log_mem \<Rightarrow> logger_ptr \<Rightarrow> bool" where
  "prints_logger Y m l \<longleftrightarrow> reads_back Y (Logger_node m l) \<and>
     (\<forall>p \<in> set (m_appenders (loggers m l)). reads_back Y (Appender_node (appenders m p)))"

definition prints_loggers :: "yaml \<Rightarrow> log_mem \<Rightarrow> bool" where
  "prints_loggers Y m \<longleftrightarrow> reads_back Y (Manager_node m) \<and> (\<forall>l \<in> ran (m_loggers m). prints_logger Y m l)"

lemma push_first:
  "map_of kvs ''appenders'' = None \<Longrightarrow> push_appender x (Map kvs) = Map (kvs @ [(''appenders'', Sequence [x])])"
  by (frule map_of_eq_None_iff [THEN iffD1]) (simp add: push_appender.simps)

lemma push_appenders:
  assumes "map_of kvs ''appenders'' = None" and "\<forall>p \<in> set ps. f p = Inr (g p)"
  shows "cast_all f push_appender ps (Map (kvs @ [(''appenders'', Sequence ns)])) = Inr (Map (kvs @ [(''appenders'', Sequence (ns @ map g ps))]))"
  using assms(2)
proof (induction ps arbitrary: ns)
  case (Cons p ps)
  have a: "''appenders'' \<notin> fst ` set kvs" using assms(1) by (simp add: map_of_eq_None_iff)
  then have "map (\<lambda>(k, n). (k, if k = ''appenders'' then x else n)) kvs = kvs" for x by (intro map_idI) force
  then have "push_appender x (Map (kvs @ [(''appenders'', Sequence ns)])) = Map (kvs @ [(''appenders'', Sequence (ns @ [x]))])" for x
    using assms(1) by (simp add: push_appender.simps map_add_def)
  with Cons show ?case by simp
qed simp

lemma Logger_toYamlString_eq:
  assumes "\<forall>p \<in> set (m_appenders (loggers m l)). reads_back Y (Appender_node (appenders m p))"
  shows "Logger_toYamlString Y l m = Inr (y_emit Y (Logger_node m l))"
proof -
  let ?lg = "loggers m l"
  let ?kvs = "[(''name'', Scalar (lg_name ?lg)), (''level'', Scalar (ToString (lg_level ?lg)))] @
    (case lg_formatter ?lg of Some f \<Rightarrow> [(''formatter'', Scalar (m_pattern f))] | None \<Rightarrow> [])"
  let ?f = "\<lambda>p. y_load Y (Appender_toYamlString Y (appenders m p))" and ?g = "\<lambda>p. Appender_node (appenders m p)"
  have n: "put_formatter (lg_formatter ?lg) (node_put ''level'' (Scalar (ToString (lg_level ?lg))) (node_put ''name'' (Scalar (lg_name ?lg)) Null)) = Map ?kvs"
    by (simp add: put_formatter_def split: option.split)
  have a: "map_of ?kvs ''appenders'' = None" by (simp split: option.split)
  have f: "\<forall>p \<in> set (m_appenders ?lg). ?f p = Inr (?g p)"
    using assms by (simp add: Appender_toYamlString_def reads_back_def)
  have "cast_all ?f push_appender (m_appenders ?lg) (Map ?kvs) =
      Inr (Map (?kvs @ (if m_appenders ?lg = [] then [] else [(''appenders'', Sequence (map ?g (m_appenders ?lg)))])))"
  proof (cases "m_appenders ?lg")
    case (Cons p ps)
    then show ?thesis using push_appenders [OF a, of ps ?f ?g "[?g p]"] push_first [OF a] f by simp
  qed simp
  then show ?thesis unfolding Logger_toYamlString_def Let_def n by (simp add: Logger_node_def Let_def)
qed

section \<open>What is read\<close>

text \<open>
  The definition that describes a logger as it is set up. The reader of the configuration knows no levels of appenders and
  only the five named levels of a logger; the level 100 of a silenced logger is printed as \<^verbatim>\<open>UNKNOW\<close>.
\<close>

definition live_level :: "level \<Rightarrow> level" where
  "live_level level = (if DEBUG \<le> level \<and> level \<le> FATAL then level else UNKNOW)"

definition live_appender :: "appender \<Rightarrow> log_appender_define" where
  "live_appender a =
     \<lparr>lad_type = (case ap_kind a of Stdout \<Rightarrow> 2 | File n g t \<Rightarrow> 1), lad_level = UNKNOW,
      lad_formatter = (if m_hasFormatter a then case ap_formatter a of Some f \<Rightarrow> m_pattern f | None \<Rightarrow> [] else []),
      lad_file = (case ap_kind a of Stdout \<Rightarrow> [] | File n g t \<Rightarrow> n)\<rparr>"

definition live_define :: "log_mem \<Rightarrow> logger_ptr \<Rightarrow> log_define" where
  "live_define m l =
     (let lg = loggers m l
      in \<lparr>ld_name = lg_name lg, ld_level = live_level (lg_level lg),
          ld_formatter = (case lg_formatter lg of Some f \<Rightarrow> m_pattern f | None \<Rightarrow> []),
          ld_appenders = map (\<lambda>p. live_appender (appenders m p)) (m_appenders lg)\<rparr>)"

lemma FromString_ToString_live: "FromString (ToString level) = live_level level"
  by (auto simp: FromString_def ToString_def live_level_def level_defs)

lemma Appender_node_read:
  assumes "yaml_access Y"
  shows "appender_of_node Y (Appender_node a) = Inr (Some (live_appender a))"
  using assms
  by (auto simp: appender_of_node_def Appender_node_def Stdout_node_def File_node_def put_formatter_def live_appender_def field_or_def
      yaml_access_def Let_def split: appender_kind.split option.split)

lemma Appender_nodes_read:
  assumes "yaml_access Y"
  shows "cast_all (appender_of_node Y) (\<lambda>a acc. case a of None \<Rightarrow> acc | Some d \<Rightarrow> acc @ [d]) (map Appender_node as) acc =
    Inr (acc @ map live_appender as)"
  by (induction "as" arbitrary: acc) (simp_all add: Appender_node_read [OF assms])

lemma Logger_node_read:
  assumes "yaml_access Y"
  shows "define_of_node Y (Logger_node m l) = Inr (live_define m l)"
proof -
  let ?lg = "loggers m l" and ?n = "Logger_node m l"
  have f: "y_field Y ?n ''name'' = Some (Scalar (lg_name ?lg))" "y_field Y ?n ''level'' = Some (Scalar (ToString (lg_level ?lg)))"
    "y_field Y ?n ''formatter'' = map_option (\<lambda>f. Scalar (m_pattern f)) (lg_formatter ?lg)"
    "y_field Y ?n ''appenders'' = (if m_appenders ?lg = [] then None
       else Some (Sequence (map Appender_node (map (appenders m) (m_appenders ?lg)))))"
    using assms by (auto simp: Logger_node_def yaml_access_def Let_def split: option.split)
  have acc: "\<And>ns. y_elems Y (Sequence ns) = ns" "\<And>s. y_string Y (Scalar s) = Inr s" using assms by (simp_all add: yaml_access_def)
  show ?thesis
    using Appender_nodes_read [OF assms, of "map (appenders m) (m_appenders ?lg)" "[]"]
    by (simp add: define_of_node_def field_or_def f acc FromString_ToString_live live_define_def Let_def split: option.split)
qed

lemma logger_roundtrip:
  assumes "yaml_access Y" and "prints_logger Y m l"
  shows "Logger_toYamlString Y l m = Inr (y_emit Y (Logger_node m l))"
    and "define_of_string Y (y_emit Y (Logger_node m l)) = Inr (live_define m l)"
  using assms Logger_toYamlString_eq [of m l Y]
  by (simp_all add: prints_logger_def define_of_string_def reads_back_def Logger_node_read)

lemma log_inv_names:
  assumes "log_inv m"
  shows "finite (dom (m_loggers m))" and "set (logger_names m) = dom (m_loggers m)"
    and "n \<in> dom (m_loggers m) \<Longrightarrow> lg_name (loggers m (the (m_loggers m n))) = n"
proof -
  have "dom (m_loggers m) \<subseteq> (\<lambda>l. lg_name (loggers m l)) ` {..<next_logger m}" using assms by (fastforce simp: log_inv_def)
  then show fin: "finite (dom (m_loggers m))" by (rule finite_subset) simp
  then show "set (logger_names m) = dom (m_loggers m)" by (simp add: logger_names_def)
  show "n \<in> dom (m_loggers m) \<Longrightarrow> lg_name (loggers m (the (m_loggers m n))) = n" using assms by (auto simp: log_inv_def)
qed

definition live_defines :: "log_mem \<Rightarrow> log_define list" where
  "live_defines m = map (\<lambda>n. live_define m (the (m_loggers m n))) (logger_names m)"

lemma live_defines_sorted:
  assumes "log_inv m"
  shows "sorted_wrt define_less (live_defines m)"
proof -
  have "sorted_wrt (<) (logger_names m)" using log_inv_names(1) [OF assms] by (simp add: logger_names_def strict_sorted_list_of_set)
  then show ?thesis
    unfolding live_defines_def sorted_wrt_map
    by (rule sorted_wrt_mono_rel [rotated])
      (simp add: define_less_def live_define_def Let_def log_inv_names [OF assms])
qed

lemma cast_all_eq:
  "\<forall>x \<in> set xs. f x = Inr (g x) \<Longrightarrow> cast_all f ins xs c = Inr (fold (\<lambda>x. ins (g x)) xs c)"
  by (induction xs arbitrary: c) auto

lemma cast_all_map: "cast_all f ins (map h xs) c = cast_all (\<lambda>x. f (h x)) ins xs c"
  by (induction xs arbitrary: c) simp_all

lemma define_less_asym: "define_less a b \<Longrightarrow> \<not> define_less b a"
  by (simp add: define_less_def)

lemma manager_roundtrip:
  assumes "yaml_access Y" and "log_inv m" and "prints_loggers Y m"
  shows "LoggerManager_toYamlString Y m = Inr (y_emit Y (Manager_node m))"
    and "set_of_string Y define_less (define_of_string Y) (y_emit Y (Manager_node m)) = Inr (live_defines m)"
proof -
  let ?l = "\<lambda>n. the (m_loggers m n)"
  have pl: "prints_logger Y m (?l n)" if "n \<in> set (logger_names m)" for n
    using that assms(3) log_inv_names(2) [OF assms(2)] by (auto simp: prints_loggers_def ran_def)
  have "\<forall>n \<in> set (logger_names m). bindE (Logger_toYamlString Y (?l n) m) (y_load Y) = Inr (Logger_node m (?l n))"
    using pl logger_roundtrip(1) [OF assms(1)] by (auto simp: prints_logger_def reads_back_def)
  note cast_all_eq [OF this, of node_push Null]
  then show "LoggerManager_toYamlString Y m = Inr (y_emit Y (Manager_node m))"
    by (simp add: LoggerManager_toYamlString_def Manager_node_def fold_push_Null)
  have elems: "y_elems Y (Manager_node m) = map (\<lambda>n. Logger_node m (?l n)) (logger_names m)"
    using assms(1) by (simp add: Manager_node_def yaml_access_def)
  have "\<forall>n \<in> set (logger_names m). define_of_string Y (y_emit Y (Logger_node m (?l n))) = Inr (live_define m (?l n))"
    using pl logger_roundtrip(2) [OF assms(1)] by blast
  note cast_all_eq [OF this, of "std_insert define_less" "[]"]
  moreover have "fold (std_insert define_less) (live_defines m) [] = live_defines m"
    using fold_std_insert [of define_less "[]" "live_defines m"] define_less_asym live_defines_sorted [OF assms(2)] by simp
  moreover have "y_load Y (y_emit Y (Manager_node m)) = Inr (Manager_node m)" using assms(3) by (simp add: prints_loggers_def reads_back_def)
  ultimately show "set_of_string Y define_less (define_of_string Y) (y_emit Y (Manager_node m)) = Inr (live_defines m)"
    by (simp add: set_of_string_def seq_of_string_def elems cast_all_map live_defines_def fold_map comp_def)
qed

section \<open>Properties\<close>

lemma make_formatter_pattern [simp]: "m_pattern (make_formatter x) = x"
  using init_loop_total [of "[]" "[]" 0 x False]
  by (auto simp: make_formatter_def new_LogFormatter_def LogFormatter_init_def build_items_eq collected_def)

text \<open>What of a definition \<open>d\<close> in force is found again in the definition \<open>d'\<close>.\<close>

definition recovers :: "log_define \<Rightarrow> log_define \<Rightarrow> bool" where
  "recovers d d' \<longleftrightarrow> ld_name d' = ld_name d \<and> ld_level d' = live_level (ld_level d) \<and>
     (ld_formatter d \<noteq> [] \<and> \<not> m_error (make_formatter (ld_formatter d)) \<longrightarrow> ld_formatter d' = ld_formatter d) \<and>
     list_all2 (\<lambda>a a'. lad_type a' = lad_type a \<and> (lad_type a = 1 \<longrightarrow> lad_file a' = lad_file a) \<and>
       lad_formatter a' = (if own_formatter a = None then [] else lad_formatter a)) (ld_appenders d) (ld_appenders d')"

lemma live_recovers:
  assumes "log_inv m" and "m_loggers m (ld_name d) = Some l" and "matches m l d"
  shows "recovers d (live_define m l)"
proof -
  have "list_all2 (\<lambda>a a'. lad_type a' = lad_type a \<and> (lad_type a = 1 \<longrightarrow> lad_file a' = lad_file a) \<and>
      lad_formatter a' = (if own_formatter a = None then [] else lad_formatter a)) (ld_appenders d)
      (map (\<lambda>p. live_appender (appenders m p)) (m_appenders (loggers m l)))"
    using assms(3) unfolding matches_def list_all2_conv_all_nth
    by (auto simp: ap_matches_def kind_matches_def live_appender_def own_formatter_def split: appender_kind.splits if_splits)
  then show ?thesis
    using assms by (auto simp: recovers_def live_define_def matches_def log_inv_def Let_def)
qed

text \<open>
  C20. The dump of the loggers is a configuration that describes them: in every state the program reaches, \<^verbatim>\<open>LoggerManager::toYamlString\<close> gives a text from
  which the conversion of the variable \<^verbatim>\<open>logs\<close> reads exactly one definition for each logger, in the order of the names, with the pattern of its formatter
  and its appenders in order (kind, file and own pattern); and the definition of every logger in the variable \<^verbatim>\<open>logs\<close> is found again in it.
  Lost are the levels of the appenders, which are never read, and the level of a silenced logger, which comes back as \<open>UNKNOW\<close>. It
  is assumed that the YAML library reads back the nodes that are printed.
\<close>

theorem dump_reads_back:
  assumes "reachable (\<lambda>s. startup = Inr s) (program_step Y B) s" and "yaml_access Y" and "prints_loggers Y (p_logs s)"
  shows "\<exists>text p ds. LoggerManager_toYamlString Y (p_logs s) = Inr text \<and>
    set_of_string Y define_less (define_of_string Y) text =
      Inr (map (\<lambda>n. live_define (p_logs s) (the (m_loggers (p_logs s) n))) (logger_names (p_logs s))) \<and>
    Lookup logs_tag ''logs'' (p_conf s) = Some p \<and> m_val (vars (p_conf s) p) = LogsV ds \<and>
    (\<forall>d \<in> set ds. ld_name d \<in> set (logger_names (p_logs s)) \<and> recovers d (live_define (p_logs s) (the (m_loggers (p_logs s) (ld_name d)))))"
proof -
  have inv: "program_inv Y B s" using conf.reachable_inv [OF assms(1)] .
  then have look: "Lookup logs_tag ''logs'' (p_conf s) = Some 0" and logs: "log_inv (p_logs s)"
    by (simp_all add: program_inv_def wired_def Lookup_def)
  obtain ds where ds: "m_val (vars (p_conf s) 0) = LogsV ds" "\<forall>d \<in> set ds. settled (p_logs s) d"
    using inv by (auto simp: program_inv_def logs_in_force_def)
  have "ld_name d \<in> set (logger_names (p_logs s)) \<and> recovers d (live_define (p_logs s) (the (m_loggers (p_logs s) (ld_name d))))"
    if "d \<in> set ds" for d
    using ds(2) that live_recovers [OF logs, of d] log_inv_names(2) [OF logs] by (auto simp: settled_def)
  then show ?thesis
    using manager_roundtrip [OF assms(2) logs assms(3)] look ds(1) unfolding live_defines_def by blast
qed

text \<open>A library for the loggers that the static initialisers leave.\<close>

abbreviation start_logs :: log_mem where
  "start_logs \<equiv> snd (getLogger ''system'' demo_logs)"

definition yaml_for :: "node \<Rightarrow> node \<Rightarrow> node \<Rightarrow> node \<Rightarrow> yaml" where
  "yaml_for a r s m = demo_yaml\<lparr>y_emit := (\<lambda>n. if n = a then ''a'' else if n = r then ''r'' else if n = s then ''s'' else ''m''),
     y_load := (\<lambda>t. if t = ''a'' then Inr a else if t = ''r'' then Inr r else if t = ''s'' then Inr s else Inr m)\<rparr>"

lemma yaml_for_ok: "yaml_access (yaml_for a r s m)" "n \<in> {a, r, s, m} \<Longrightarrow> reads_back (yaml_for a r s m) n"
  using demo_yaml_access by (auto simp: yaml_access_def yaml_for_def reads_back_def)

definition dump_yaml :: yaml where
  "dump_yaml = yaml_for (Appender_node (appenders start_logs 0)) (Logger_node start_logs 0) (Logger_node start_logs 1) (Manager_node start_logs)"

lemma start_logs_eq:
  "m_loggers start_logs = [''root'' \<mapsto> 0, ''system'' \<mapsto> 1]" "m_appenders (loggers start_logs 0) = [0]" "m_appenders (loggers start_logs 1) = []"
  "lg_name (loggers start_logs 0) = ''root''" "lg_level (loggers start_logs 0) = DEBUG" "lg_name (loggers start_logs 1) = ''system''"
  by (simp_all add: getLogger_def new_LoggerManager_def new_Logger_def new_appender_def addAppender_def Appender_getFormatter_def empty_log_mem_def Let_def)

lemma dump_yaml_ok: "yaml_access dump_yaml" "prints_loggers dump_yaml start_logs"
proof -
  show "yaml_access dump_yaml" unfolding dump_yaml_def by (rule yaml_for_ok)
  have ran: "ran (m_loggers start_logs) = {0, 1}" by (simp add: start_logs_eq ran_map_upd insert_commute)
  show "prints_loggers dump_yaml start_logs"
    unfolding prints_loggers_def prints_logger_def ran dump_yaml_def by (simp add: start_logs_eq yaml_for_ok(2) del: One_nat_def)
qed

lemma start_names: "logger_names start_logs = [''root'', ''system'']"
  by (simp add: logger_names_def start_logs_eq insert_commute)

theorem dump_reads_back_witness:
  "\<exists>s text ds. startup = Inr s \<and> LoggerManager_toYamlString dump_yaml (p_logs s) = Inr text \<and>
     set_of_string dump_yaml define_less (define_of_string dump_yaml) text = Inr ds \<and> map ld_name ds = [''root'', ''system''] \<and>
     ld_level (hd ds) = DEBUG \<and> map lad_type (ld_appenders (hd ds)) = [2]"
proof -
  obtain s where s: "startup = Inr s" "getLogger ''system'' demo_logs = (g_logger s, p_logs s)" using startup_eq by blast
  have m: "p_logs s = start_logs" by (simp add: s(2))
  have r: "reachable (\<lambda>s. startup = Inr s) (program_step dump_yaml demo_casts) s" by (rule reachable_init) (rule s(1))
  have "ap_kind (appenders start_logs 0) = Stdout"
    by (simp add: getLogger_def new_LoggerManager_def new_Logger_def new_appender_def addAppender_def Appender_getFormatter_def empty_log_mem_def Let_def)
  then have live: "ld_name (live_define start_logs 0) = ''root''" "ld_name (live_define start_logs 1) = ''system''"
    "ld_level (live_define start_logs 0) = DEBUG" "map lad_type (ld_appenders (live_define start_logs 0)) = [2]"
    by (simp_all add: live_define_def live_level_def live_appender_def start_logs_eq Let_def level_defs del: One_nat_def)
  have ds: "map (\<lambda>n. live_define start_logs (the (m_loggers start_logs n))) (logger_names start_logs) = [live_define start_logs 0, live_define start_logs 1]"
    by (simp add: start_names start_logs_eq del: One_nat_def)
  obtain out where "LoggerManager_toYamlString dump_yaml (p_logs s) = Inr out"
    "set_of_string dump_yaml define_less (define_of_string dump_yaml) out = Inr [live_define start_logs 0, live_define start_logs 1]"
    using dump_reads_back [OF r dump_yaml_ok(1) dump_yaml_ok(2) [folded m]] unfolding m ds by (elim exE conjE)
  with s(1) live show ?thesis
    by (intro exI [of _ s] exI [of _ out] exI [of _ "[live_define start_logs 0, live_define start_logs 1]"] conjI) simp_all
qed

end
