(* ===== verification/Address.thy ===== *)
theory Address
  imports Sylar_Prelude "HOL-Library.List_Lexorder"
begin

text \<open>
  \<^verbatim>\<open>sylar/endian.h\<close>, \<^verbatim>\<open>sylar/address.h\<close> and \<^verbatim>\<open>sylar/address.cpp\<close>: byte order and socket addresses. The byte order of the
  machine is the parameter \<open>little\<close>. An address is one of the four classes with its \<^verbatim>\<open>sockaddr\<close>
  structure; \<open>getAddr\<close> is the bytes of that structure.
\<close>

unbundle bit_operations_syntax

section \<open>Byte order\<close>

definition bswap_16 :: "u16 \<Rightarrow> u16" where
  "bswap_16 x = push_bit 8 x OR drop_bit 8 x"

definition bswap_32 :: "u32 \<Rightarrow> u32" where
  "bswap_32 x = drop_bit 24 (x AND 0xff000000) OR drop_bit 8 (x AND 0x00ff0000)
     OR push_bit 8 (x AND 0x0000ff00) OR push_bit 24 (x AND 0x000000ff)"

definition bswap_64 :: "u64 \<Rightarrow> u64" where
  "bswap_64 x = push_bit 32 (ucast (bswap_32 (ucast x))) OR ucast (bswap_32 (ucast (drop_bit 32 x)))"

definition byteswapOnLittleEndian_16 :: "bool \<Rightarrow> u16 \<Rightarrow> u16" where
  "byteswapOnLittleEndian_16 little t = (if little then bswap_16 t else t)"

definition byteswapOnLittleEndian_32 :: "bool \<Rightarrow> u32 \<Rightarrow> u32" where
  "byteswapOnLittleEndian_32 little t = (if little then bswap_32 t else t)"

definition byteswapOnBigEndian_16 :: "bool \<Rightarrow> u16 \<Rightarrow> u16" where
  "byteswapOnBigEndian_16 little t = (if little then t else bswap_16 t)"

definition byteswapOnBigEndian_32 :: "bool \<Rightarrow> u32 \<Rightarrow> u32" where
  "byteswapOnBigEndian_32 little t = (if little then t else bswap_32 t)"

text \<open>On every machine exactly one of the two functions swaps.\<close>

lemma byteswap_either:
  "byteswapOnBigEndian_16 little (byteswapOnLittleEndian_16 little x) = bswap_16 x"
  "byteswapOnBigEndian_32 little (byteswapOnLittleEndian_32 little y) = bswap_32 y"
  by (simp_all add: byteswapOnBigEndian_16_def byteswapOnLittleEndian_16_def byteswapOnBigEndian_32_def byteswapOnLittleEndian_32_def)

section \<open>Data\<close>

definition AF_UNIX :: u16 where "AF_UNIX = 1"
definition AF_INET :: u16 where "AF_INET = 2"
definition AF_INET6 :: u16 where "AF_INET6 = 10"

record sockaddr_in =
  sin_family :: u16
  sin_port :: u16
  s_addr :: u32

record sockaddr_in6 =
  sin6_family :: u16
  sin6_port :: u16
  sin6_flowinfo :: u32
  s6_addr :: "u8 list"
  sin6_scope_id :: u32

record sockaddr_un =
  sun_family :: u16
  sun_path :: "u8 list"

datatype address =
    IPv4 sockaddr_in
  | IPv6 sockaddr_in6
  | Unix sockaddr_un u32
  | Unknow u16

text \<open>The bytes of an integer in memory.\<close>

definition mem_16 :: "bool \<Rightarrow> u16 \<Rightarrow> u8 list" where
  "mem_16 little x = (let bs = [ucast x, ucast (drop_bit 8 x)] in if little then bs else rev bs)"

definition mem_32 :: "bool \<Rightarrow> u32 \<Rightarrow> u8 list" where
  "mem_32 little x =
     (let bs = [ucast x, ucast (drop_bit 8 x), ucast (drop_bit 16 x), ucast (drop_bit 24 x)] in if little then bs else rev bs)"

definition sun_path_size :: nat where "sun_path_size = 108"
definition MAX_PATH_LEN :: nat where "MAX_PATH_LEN = sun_path_size - 1"

section \<open>Operations\<close>

fun getAddr :: "bool \<Rightarrow> address \<Rightarrow> u8 list" where
  "getAddr little (IPv4 a) = mem_16 little (sin_family a) @ mem_16 little (sin_port a) @ mem_32 little (s_addr a) @ replicate 8 0"
| "getAddr little (IPv6 a) = mem_16 little (sin6_family a) @ mem_16 little (sin6_port a) @ mem_32 little (sin6_flowinfo a) @
     s6_addr a @ mem_32 little (sin6_scope_id a)"
| "getAddr little (Unix a m_length) = mem_16 little (sun_family a) @ sun_path a"
| "getAddr little (Unknow family) = mem_16 little family @ replicate 14 0"

fun getAddrLen :: "address \<Rightarrow> nat" where
  "getAddrLen (IPv4 a) = 16"
| "getAddrLen (IPv6 a) = 28"
| "getAddrLen (Unix a m_length) = unat m_length"
| "getAddrLen (Unknow family) = 16"

fun getFamily :: "address \<Rightarrow> u16" where
  "getFamily (IPv4 a) = sin_family a"
| "getFamily (IPv6 a) = sin6_family a"
| "getFamily (Unix a m_length) = sun_family a"
| "getFamily (Unknow family) = family"

text \<open>\<^verbatim>\<open>memcmp\<close>: negative, zero or positive; reading past the end of a structure is out of range.\<close>

fun memcmp :: "u8 list \<Rightarrow> u8 list \<Rightarrow> nat \<Rightarrow> int res" where
  "memcmp xs ys 0 = Inr 0"
| "memcmp (x # xs) (y # ys) (Suc n) = (if x = y then memcmp xs ys n else Inr (if x < y then - 1 else 1))"
| "memcmp xs ys (Suc n) = Inl (OutOfRange ''memcmp'')"

definition Address_less :: "bool \<Rightarrow> address \<Rightarrow> address \<Rightarrow> bool res" where
  "Address_less little a rhs =
     (let minlen = min (getAddrLen a) (getAddrLen rhs)
      in bindE (memcmp (getAddr little a) (getAddr little rhs) minlen) (\<lambda>result.
         Inr (if result < 0 then True else if result > 0 then False else getAddrLen a < getAddrLen rhs)))"

definition Address_eq :: "bool \<Rightarrow> address \<Rightarrow> address \<Rightarrow> bool res" where
  "Address_eq little a rhs =
     (if getAddrLen a = getAddrLen rhs
      then bindE (memcmp (getAddr little a) (getAddr little rhs) (getAddrLen a)) (\<lambda>result. Inr (result = 0))
      else Inr False)"

definition Address_neq :: "bool \<Rightarrow> address \<Rightarrow> address \<Rightarrow> bool res" where
  "Address_neq little a rhs = bindE (Address_eq little a rhs) (\<lambda>b. Inr (\<not> b))"

text \<open>
  The ports are \<^verbatim>\<open>uint32_t\<close>: swapped as such and then stored in the 16 bits of the structure.
\<close>

definition IPv4Address :: "bool \<Rightarrow> u32 \<Rightarrow> u32 \<Rightarrow> sockaddr_in" where
  "IPv4Address little address port =
     \<lparr>sin_family = AF_INET, sin_port = ucast (byteswapOnLittleEndian_32 little port),
      s_addr = byteswapOnLittleEndian_32 little address\<rparr>"

definition IPv4_getPort :: "bool \<Rightarrow> sockaddr_in \<Rightarrow> u32" where
  "IPv4_getPort little a = ucast (byteswapOnLittleEndian_16 little (sin_port a))"

definition IPv4_setPort :: "bool \<Rightarrow> u32 \<Rightarrow> sockaddr_in \<Rightarrow> sockaddr_in" where
  "IPv4_setPort little v a = a\<lparr>sin_port := ucast (byteswapOnLittleEndian_32 little v)\<rparr>"

definition IPv6Address0 :: sockaddr_in6 where
  "IPv6Address0 = \<lparr>sin6_family = AF_INET6, sin6_port = 0, sin6_flowinfo = 0, s6_addr = replicate 16 0, sin6_scope_id = 0\<rparr>"

text \<open>\<open>address\<close> are the bytes the pointer argument points at.\<close>

definition IPv6Address :: "bool \<Rightarrow> u8 list \<Rightarrow> u32 \<Rightarrow> sockaddr_in6 res" where
  "IPv6Address little address port =
     (if length address < 16 then Inl (OutOfRange ''memcpy'')
      else Inr (IPv6Address0\<lparr>sin6_port := ucast (byteswapOnLittleEndian_32 little port), s6_addr := take 16 address\<rparr>))"

definition IPv6_getPort :: "bool \<Rightarrow> sockaddr_in6 \<Rightarrow> u32" where
  "IPv6_getPort little a = ucast (byteswapOnLittleEndian_16 little (sin6_port a))"

definition IPv6_setPort :: "bool \<Rightarrow> u32 \<Rightarrow> sockaddr_in6 \<Rightarrow> sockaddr_in6" where
  "IPv6_setPort little v a = a\<lparr>sin6_port := ucast (byteswapOnLittleEndian_32 little v)\<rparr>"

text \<open>\<^verbatim>\<open>broadcastAddress\<close>, \<^verbatim>\<open>networdAddress\<close> and \<^verbatim>\<open>subnetMask\<close> of both classes return a null pointer.\<close>

definition IPv4_broadcastAddress :: "u32 \<Rightarrow> sockaddr_in \<Rightarrow> sockaddr_in option" where
  "IPv4_broadcastAddress prefix_len a = (if prefix_len > 32 then None else (let baddr = a in None))"

definition IPv4_networdAddress :: "u32 \<Rightarrow> sockaddr_in \<Rightarrow> sockaddr_in option" where
  "IPv4_networdAddress prefix_len a = None"

definition IPv4_subnetMask :: "u32 \<Rightarrow> sockaddr_in \<Rightarrow> sockaddr_in option" where
  "IPv4_subnetMask prefix_len a = None"

definition IPv6_broadcastAddress :: "u32 \<Rightarrow> sockaddr_in6 \<Rightarrow> sockaddr_in6 option" where
  "IPv6_broadcastAddress prefix_len a = None"

definition IPv6_networdAddress :: "u32 \<Rightarrow> sockaddr_in6 \<Rightarrow> sockaddr_in6 option" where
  "IPv6_networdAddress prefix_len a = None"

definition IPv6_subnetMask :: "u32 \<Rightarrow> sockaddr_in6 \<Rightarrow> sockaddr_in6 option" where
  "IPv6_subnetMask prefix_len a = None"

text \<open>
  The constructor of a Unix address from a path. \<^verbatim>\<open>memcpy\<close> of more than the 108 bytes of
  \<^verbatim>\<open>sun_path\<close> writes past the structure.
\<close>

definition UnixAddress0 :: address where
  "UnixAddress0 = Unix \<lparr>sun_family = AF_UNIX, sun_path = replicate sun_path_size 0\<rparr> (of_nat (2 + MAX_PATH_LEN))"

definition UnixAddress :: "u8 list \<Rightarrow> address res" where
  "UnixAddress path =
     (let len0 = of_nat (length path + 1) :: u32;
          len1 = (if path \<noteq> [] \<and> hd path = 0 then len0 - 1 else len0)
      in if len1 \<le> of_nat sun_path_size then Inl (Thrown ''path too long'')
         else if unat len1 > sun_path_size then Inl (OutOfRange ''sun_path'')
         else Inr (Unix \<lparr>sun_family = AF_UNIX,
                sun_path = take (unat len1) (path @ [0]) @ replicate (sun_path_size - unat len1) 0\<rparr> (len1 + 2)))"

definition UnknowAddress :: "int \<Rightarrow> address" where
  "UnknowAddress family = Unknow (word_of_int family)"

section \<open>Text\<close>

text \<open>Unsigned numbers in a base up to 16, as a stream prints them.\<close>

definition digit :: "nat \<Rightarrow> char" where
  "digit d = (if d < 10 then char_of (48 + d) else char_of (87 + d))"

fun show_base :: "nat \<Rightarrow> nat \<Rightarrow> string" where
  "show_base b n = (if b < 2 \<or> n < b then [digit n] else show_base b (n div b) @ [digit (n mod b)])"

declare show_base.simps [simp del]

definition dec :: "nat \<Rightarrow> string" where "dec n = show_base 10 n"
definition hex :: "nat \<Rightarrow> string" where "hex n = show_base 16 n"

definition IPv4_insert :: "bool \<Rightarrow> sockaddr_in \<Rightarrow> string" where
  "IPv4_insert little a =
     (let addr = byteswapOnLittleEndian_32 little (s_addr a)
      in dec (unat (drop_bit 24 addr AND 0xff)) @ ''.'' @ dec (unat (drop_bit 16 addr AND 0xff)) @ ''.'' @
         dec (unat (drop_bit 8 addr AND 0xff)) @ ''.'' @ dec (unat (addr AND 0xff)) @ '':'' @
         dec (unat (byteswapOnLittleEndian_16 little (sin_port a))))"

text \<open>The eight groups as the machine reads them: \<^verbatim>\<open>(uint16_t*)m_addr.sin6_addr.s6_addr\<close>.\<close>

fun groups :: "bool \<Rightarrow> u8 list \<Rightarrow> u16 list" where
  "groups little (b0 # b1 # bs) =
     (if little then ucast b0 OR push_bit 8 (ucast b1) else ucast b1 OR push_bit 8 (ucast b0)) # groups little bs"
| "groups little bs = []"

text \<open>
  The loop over the groups: \<open>i\<close> says whether the position is not the first, \<open>prev\<close> is the group before it. The result
  has the text and \<^verbatim>\<open>used_zeros\<close> at the end.
\<close>

fun insert_groups :: "(u16 \<Rightarrow> string) \<Rightarrow> bool \<Rightarrow> u16 \<Rightarrow> bool \<Rightarrow> u16 list \<Rightarrow> string \<times> bool" where
  "insert_groups pr i prev used_zeros [] = ([], used_zeros)"
| "insert_groups pr i prev used_zeros (g # gs) =
     (if g = 0 \<and> \<not> used_zeros then insert_groups pr True g used_zeros gs
      else
        let zeros = i \<and> prev = 0 \<and> \<not> used_zeros;
            (out, u) = insert_groups pr True g (used_zeros \<or> zeros) gs
        in ((if zeros then '':'' else []) @ (if i then '':'' else []) @ pr g @ out, u))"

definition IPv6_insert :: "bool \<Rightarrow> sockaddr_in6 \<Rightarrow> string" where
  "IPv6_insert little a =
     (let addr = groups little (s6_addr a);
          (out, used_zeros) = insert_groups (\<lambda>g. hex (unat (byteswapOnLittleEndian_16 little g))) False 0 False addr
      in ''['' @ out @ (if \<not> used_zeros \<and> addr ! 7 = 0 then ''::'' else []) @ '']:'' @
         dec (unat (byteswapOnLittleEndian_16 little (sin6_port a))))"

definition char_of_byte :: "u8 \<Rightarrow> char" where "char_of_byte b = char_of (unat b)"

definition Unix_insert :: "sockaddr_un \<Rightarrow> u32 \<Rightarrow> string" where
  "Unix_insert a m_length =
     (if m_length > 2 \<and> hd (sun_path a) = 0
      then CHR 0x5C # ''0'' @ map char_of_byte (take (unat m_length - 2 - 1) (drop 1 (sun_path a)))
      else map char_of_byte (takeWhile (\<lambda>b. b \<noteq> 0) (sun_path a)))"

definition Unknow_insert :: "u16 \<Rightarrow> string" where
  "Unknow_insert family = ''[UnknowAddress family='' @ dec (unat family) @ '']''"

fun Address_toString :: "bool \<Rightarrow> address \<Rightarrow> string" where
  "Address_toString little (IPv4 a) = IPv4_insert little a"
| "Address_toString little (IPv6 a) = IPv6_insert little a"
| "Address_toString little (Unix a m_length) = Unix_insert a m_length"
| "Address_toString little (Unknow family) = Unknow_insert family"

section \<open>The order of addresses\<close>

text \<open>The structures are filled: 16 bytes of an IPv6 address, a Unix path within its array.\<close>

fun addr_ok :: "address \<Rightarrow> bool" where
  "addr_ok (IPv6 a) = (length (s6_addr a) = 16)"
| "addr_ok (Unix a m_length) = (length (sun_path a) = sun_path_size \<and> unat m_length \<le> 2 + sun_path_size)"
| "addr_ok a = True"

definition addr_bytes :: "bool \<Rightarrow> address \<Rightarrow> u8 list" where
  "addr_bytes little a = take (getAddrLen a) (getAddr little a)"

lemma mem_lengths [simp]: "length (mem_16 little x) = 2" "length (mem_32 little y) = 4"
  by (simp_all add: mem_16_def mem_32_def Let_def)

lemma length_getAddr: "addr_ok a \<Longrightarrow> getAddrLen a \<le> length (getAddr little a)"
  by (cases a) (simp_all add: sun_path_size_def)

lemma length_addr_bytes: "addr_ok a \<Longrightarrow> length (addr_bytes little a) = getAddrLen a"
  using length_getAddr by (simp add: addr_bytes_def)

lemma memcmp_eq:
  "n \<le> length xs \<Longrightarrow> n \<le> length ys \<Longrightarrow>
   memcmp xs ys n = Inr (if take n xs = take n ys then 0 else if take n xs < take n ys then - 1 else 1)"
proof (induction xs ys n rule: memcmp.induct)
  case (2 x xs y ys n)
  then show ?case by auto
qed simp_all

lemma less_list_min:
  fixes xs ys :: "'a :: linorder list"
  defines "m \<equiv> min (length xs) (length ys)"
  shows "xs < ys \<longleftrightarrow> take m xs < take m ys \<or> take m xs = take m ys \<and> length xs < length ys"
proof -
  have "xs < ys \<longleftrightarrow> take (min (length xs) (length ys)) xs < take (min (length xs) (length ys)) ys \<or>
      take (min (length xs) (length ys)) xs = take (min (length xs) (length ys)) ys \<and> length xs < length ys"
  proof (induction xs arbitrary: ys)
    case Nil
    then show ?case by (cases ys) auto
  next
    case (Cons x xs)
    then show ?case by (cases ys) auto
  qed
  then show ?thesis by (simp add: m_def)
qed

text \<open>
  C32. The comparison operators are the lexicographic order of the address bytes: on addresses whose structures are filled they
  never read out of bounds, \<open>operator<\<close> is the strict total order of byte strings in which a proper prefix comes first, and \<open>operator==\<close> is equality
  of the bytes.
\<close>

theorem address_order:
  assumes "addr_ok a" and "addr_ok b"
  shows "Address_less little a b = Inr (addr_bytes little a < addr_bytes little b) \<and>
    Address_eq little a b = Inr (addr_bytes little a = addr_bytes little b) \<and>
    Address_neq little a b = Inr (addr_bytes little a \<noteq> addr_bytes little b)"
proof -
  let ?x = "getAddr little a" and ?y = "getAddr little b" and ?m = "min (getAddrLen a) (getAddrLen b)"
  have len: "?m \<le> length ?x" "?m \<le> length ?y"
    using length_getAddr [OF assms(1), of little] length_getAddr [OF assms(2), of little] by auto
  have bl: "length (addr_bytes little a) = getAddrLen a" "length (addr_bytes little b) = getAddrLen b"
    using length_addr_bytes assms by auto
  have tk: "take ?m (addr_bytes little a) = take ?m ?x" "take ?m (addr_bytes little b) = take ?m ?y"
    by (simp_all add: addr_bytes_def min.commute)
  have "Address_less little a b = Inr (addr_bytes little a < addr_bytes little b)"
    using memcmp_eq [OF len] less_list_min [of "addr_bytes little a" "addr_bytes little b"] bl tk
    by (auto simp: Address_less_def Let_def)
  moreover have eq: "Address_eq little a b = Inr (addr_bytes little a = addr_bytes little b)"
  proof (cases "getAddrLen a = getAddrLen b")
    case True
    then show ?thesis using memcmp_eq [of "getAddrLen a" ?x ?y] len by (simp add: Address_eq_def addr_bytes_def)
  next
    case False
    then have "addr_bytes little a \<noteq> addr_bytes little b" using bl by metis
    with False show ?thesis by (simp add: Address_eq_def)
  qed
  moreover have "Address_neq little a b = Inr (addr_bytes little a \<noteq> addr_bytes little b)"
    using eq by (simp add: Address_neq_def)
  ultimately show ?thesis by blast
qed

theorem address_order_witness:
  "Address_less True (IPv4 (IPv4Address True 0x7f000001 0)) UnixAddress0 = Inr False \<and>
   Address_eq True (IPv4 (IPv4Address True 0x7f000001 0)) (IPv4 (IPv4Address True 0x7f000001 0)) = Inr True"
proof -
  have ok: "addr_ok (IPv4 (IPv4Address True 0x7f000001 0))" "addr_ok UnixAddress0"
    by (simp_all add: UnixAddress0_def sun_path_size_def MAX_PATH_LEN_def)
  have "\<not> addr_bytes True (IPv4 (IPv4Address True 0x7f000001 0)) < addr_bytes True UnixAddress0"
    by (simp add: addr_bytes_def UnixAddress0_def IPv4Address_def mem_16_def AF_INET_def AF_UNIX_def MAX_PATH_LEN_def sun_path_size_def)
  with address_order [OF ok(1) ok(2), of True] address_order [OF ok(1) ok(1), of True] show ?thesis by simp
qed

section \<open>Byte order and ports\<close>

lemma masks:
  "(0xff000000 :: u32) = push_bit 24 (mask 8)" "(0x00ff0000 :: u32) = push_bit 16 (mask 8)"
  "(0x0000ff00 :: u32) = push_bit 8 (mask 8)" "(0x000000ff :: u32) = mask 8"
  by (simp_all add: mask_eq_exp_minus_1 push_bit_eq_mult)

lemma bit_bswap_16: "bit (bswap_16 x) n \<longleftrightarrow> n < 16 \<and> bit x (if n < 8 then n + 8 else n - 8)"
  by (auto simp: bswap_16_def bit_simps add.commute dest: bit_imp_le_length)

lemma bit_bswap_32:
  "bit (bswap_32 x) n \<longleftrightarrow> n < 32 \<and> bit x (if n < 8 then n + 24 else if n < 16 then n + 8 else if n < 24 then n - 8 else n - 24)"
  unfolding bswap_32_def masks by (auto simp: bit_simps add.commute dest: bit_imp_le_length)

lemma bswap_16_involution: "bswap_16 (bswap_16 x) = x"
  by (rule bit_word_eqI) (auto simp: bit_bswap_16)

lemma bswap_32_involution: "bswap_32 (bswap_32 x) = x"
  by (rule bit_word_eqI) (auto simp: bit_bswap_32)

lemma port_swapped: "bswap_16 (ucast (bswap_32 v)) = ucast (drop_bit 16 v)"
  by (rule bit_word_eqI) (auto simp: bit_bswap_16 bit_bswap_32 bit_simps)

text \<open>
  Ports are lost: the port is swapped as a 32-bit number before it is stored in 16 bits. On a little-endian machine both IP classes
  keep the upper half of the argument, so that every port below 65536, given to the constructor or to \<open>setPort\<close>, is
  stored and reported as 0; on a big-endian machine the lower half is kept. The IPv4 address itself is stored in network byte order.
\<close>

theorem port_lost:
  "IPv4_getPort True (IPv4Address True address v) = drop_bit 16 v \<and>
   IPv4_getPort True (IPv4_setPort True v a) = drop_bit 16 v \<and>
   IPv6_getPort True (IPv6_setPort True v b) = drop_bit 16 v \<and>
   (unat v < 65536 \<longrightarrow> IPv4_getPort True (IPv4Address True address v) = 0 \<and> IPv6_getPort True (IPv6_setPort True v b) = 0) \<and>
   IPv4_getPort False (IPv4_setPort False v a) = v AND 0xffff \<and>
   mem_32 True (s_addr (IPv4Address True address v)) = mem_32 False address"
proof (intro conjI impI)
  have up: "ucast (ucast (drop_bit 16 v) :: u16) = drop_bit 16 (v :: u32)" for v
    by (rule bit_word_eqI) (auto simp: bit_simps dest: bit_imp_le_length)
  show p4: "IPv4_getPort True (IPv4_setPort True v a) = drop_bit 16 v"
    using up by (simp add: IPv4_getPort_def IPv4_setPort_def byteswapOnLittleEndian_16_def byteswapOnLittleEndian_32_def port_swapped)
  show p6: "IPv6_getPort True (IPv6_setPort True v b) = drop_bit 16 v"
    using up by (simp add: IPv6_getPort_def IPv6_setPort_def byteswapOnLittleEndian_16_def byteswapOnLittleEndian_32_def port_swapped)
  show new: "IPv4_getPort True (IPv4Address True address v) = drop_bit 16 v"
    using up by (simp add: IPv4_getPort_def IPv4Address_def byteswapOnLittleEndian_16_def byteswapOnLittleEndian_32_def port_swapped)
  show "IPv4_getPort True (IPv4Address True address v) = 0" "IPv6_getPort True (IPv6_setPort True v b) = 0" if "unat v < 65536"
  proof -
    have "drop_bit 16 v = 0" using that by (simp add: drop_bit_eq_div word_arith_nat_div unat_eq_zero div_eq_0_iff)
    then show "IPv4_getPort True (IPv4Address True address v) = 0" "IPv6_getPort True (IPv6_setPort True v b) = 0" using new p6 by simp_all
  qed
  have m: "(0xffff :: u32) = mask 16" by (simp add: mask_eq_exp_minus_1)
  show "IPv4_getPort False (IPv4_setPort False v a) = v AND 0xffff" unfolding m
    by (rule bit_word_eqI) (auto simp: IPv4_getPort_def IPv4_setPort_def byteswapOnLittleEndian_16_def byteswapOnLittleEndian_32_def bit_simps)
  have "ucast (bswap_32 address) = (ucast (drop_bit 24 address) :: u8)" "ucast (drop_bit 8 (bswap_32 address)) = (ucast (drop_bit 16 address) :: u8)"
    "ucast (drop_bit 16 (bswap_32 address)) = (ucast (drop_bit 8 address) :: u8)" "ucast (drop_bit 24 (bswap_32 address)) = (ucast address :: u8)"
    by (rule bit_word_eqI; auto simp: bit_bswap_32 bit_simps add.commute)+
  then show "mem_32 True (s_addr (IPv4Address True address v)) = mem_32 False address"
    by (simp add: mem_32_def IPv4Address_def byteswapOnLittleEndian_32_def)
qed

theorem port_lost_witness:
  "IPv4_getPort True (IPv4Address True 0x7f000001 8080) = 0"
proof -
  have "unat (8080 :: u32) < 65536" by simp
  with port_lost [where address = "0x7f000001" and v = 8080 and a = "IPv4Address True 0 0" and b = IPv6Address0] show ?thesis by blast
qed

section \<open>IPv6 text\<close>

text \<open>
  The usual reading: groups separated by colons, where the first run of zero groups is replaced by two colons.
\<close>

fun colons :: "('g \<Rightarrow> string) \<Rightarrow> 'g list \<Rightarrow> string" where
  "colons pr [] = []"
| "colons pr [g] = pr g"
| "colons pr (g # gs) = pr g @ '':'' @ colons pr gs"

definition ipv6_text :: "(u16 \<Rightarrow> string) \<Rightarrow> u16 list \<Rightarrow> string" where
  "ipv6_text pr gs =
     (let pre = takeWhile (\<lambda>g. g \<noteq> 0) gs; rest = dropWhile (\<lambda>g. g \<noteq> 0) gs
      in colons pr pre @ (if rest = [] then [] else ''::'' @ colons pr (dropWhile (\<lambda>g. g = 0) rest)))"

lemma colons_Cons: "colons pr (g # gs) = pr g @ concat (map (\<lambda>g. '':'' @ pr g) gs)"
  by (induction gs arbitrary: g) auto

lemma insert_groups_used:
  "insert_groups pr True prev True gs = (concat (map (\<lambda>g. '':'' @ pr g) gs), True)"
  by (induction gs arbitrary: prev) auto

lemma insert_groups_zeros:
  "\<forall>g \<in> set zs. g = 0 \<Longrightarrow> insert_groups pr True 0 False (zs @ post) = insert_groups pr True 0 False post"
  by (induction zs) auto

lemma insert_groups_after_zero:
  "post = [] \<or> hd post \<noteq> 0 \<Longrightarrow>
   insert_groups pr True 0 False post = (if post = [] then ([], False) else (''::'' @ colons pr post, True))"
  by (cases post) (auto simp: insert_groups_used colons_Cons)

lemma insert_groups_nonzero:
  "\<forall>g \<in> set pre. g \<noteq> 0 \<Longrightarrow> prev \<noteq> 0 \<Longrightarrow>
   insert_groups pr True prev False (pre @ rest) =
     (concat (map (\<lambda>g. '':'' @ pr g) pre) @ fst (insert_groups pr True (last (prev # pre)) False rest),
      snd (insert_groups pr True (last (prev # pre)) False rest))"
  by (induction pre arbitrary: prev) (auto split: prod.splits)

lemma insert_groups_text:
  assumes "gs \<noteq> []"
  shows "fst (insert_groups pr False 0 False gs) @ (if \<not> snd (insert_groups pr False 0 False gs) \<and> last gs = 0 then ''::'' else []) =
    ipv6_text pr gs"
proof -
  let ?pre = "takeWhile (\<lambda>g. g \<noteq> 0) gs" and ?rest = "dropWhile (\<lambda>g. g \<noteq> 0) gs"
  define post where "post = dropWhile (\<lambda>g. g = 0) ?rest"
  have rest: "insert_groups pr True prev False ?rest = (if post = [] then ([], False) else (''::'' @ colons pr post, True))"
    "insert_groups pr False prev False ?rest = (if post = [] then ([], False) else (''::'' @ colons pr post, True))"
    if ne: "?rest \<noteq> []" for prev
  proof -
    obtain zs where r: "?rest = 0 # zs" using ne hd_dropWhile [OF ne] by (cases ?rest) auto
    have zs: "zs = takeWhile (\<lambda>g. g = 0) zs @ post" by (simp add: post_def r)
    have post: "post = [] \<or> hd post \<noteq> 0" using hd_dropWhile [of "\<lambda>g. g = 0" ?rest] by (auto simp: post_def)
    have "insert_groups pr True 0 False zs = insert_groups pr True 0 False post"
      using insert_groups_zeros [of "takeWhile (\<lambda>g. g = 0) zs" pr post] zs by (metis set_takeWhileD)
    with insert_groups_after_zero [OF post] r
    show "insert_groups pr True prev False ?rest = (if post = [] then ([], False) else (''::'' @ colons pr post, True))"
      "insert_groups pr False prev False ?rest = (if post = [] then ([], False) else (''::'' @ colons pr post, True))"
      by simp_all
  qed
  have gs: "gs = ?pre @ ?rest" by simp
  let ?R = "if ?rest = [] \<or> post = [] then ([], False) else (''::'' @ colons pr post, True)"
  have R: "insert_groups pr True prev False ?rest = ?R" for prev
  proof (cases "?rest = []")
    case True
    then show ?thesis unfolding True by simp
  next
    case False
    with rest(1) [OF False, of prev] show ?thesis by (simp del: dropWhile_eq_Nil_conv)
  qed
  have run: "insert_groups pr False 0 False gs = (colons pr ?pre @ fst ?R, snd ?R)"
  proof (cases ?pre)
    case Nil
    then have "?rest = gs" by (metis append_Nil takeWhile_dropWhile_id)
    with assms rest(2) [of 0] Nil show ?thesis by simp
  next
    case (Cons g pre)
    have nz: "g \<noteq> 0" "\<forall>x \<in> set pre. x \<noteq> 0" using Cons set_takeWhileD [of _ "\<lambda>g. g \<noteq> 0" gs] by auto
    have "insert_groups pr False 0 False ((g # pre) @ ?rest) = (colons pr (g # pre) @ fst ?R, snd ?R)"
      using insert_groups_nonzero [OF nz(2,1), of pr ?rest] nz(1) unfolding R by (simp add: colons_Cons)
    then show ?thesis using Cons gs by metis
  qed
  have "last gs \<noteq> 0" if "?rest = []"
    using that last_in_set [OF assms] by simp
  moreover have "last gs = 0" if "?rest \<noteq> []" "post = []"
  proof -
    have "\<forall>g \<in> set ?rest. g = 0" using that(2) unfolding post_def dropWhile_eq_Nil_conv .
    moreover have "last (?pre @ ?rest) = last ?rest" using that(1) by (rule last_appendR)
    then have "last gs = last ?rest" unfolding takeWhile_dropWhile_id .
    ultimately show ?thesis using last_in_set [OF that(1)] by metis
  qed
  ultimately show ?thesis by (auto simp: run ipv6_text_def post_def [symmetric] Let_def)
qed

lemma length_groups: "length (groups little bs) = length bs div 2"
  by (induction little bs rule: groups.induct) auto

text \<open>
  C33. The text of an IPv6 address is the usual one: the loop of \<open>insert\<close> prints the eight groups in hexadecimal, separated by colons, with
  the first run of zero groups, wherever it stands, written as two colons.
\<close>

theorem ipv6_insert_text:
  assumes "length (s6_addr a) = 16"
  shows "IPv6_insert little a =
    ''['' @ ipv6_text (\<lambda>g. hex (unat (byteswapOnLittleEndian_16 little g))) (groups little (s6_addr a)) @ '']:'' @
    dec (unat (byteswapOnLittleEndian_16 little (sin6_port a)))"
proof -
  let ?gs = "groups little (s6_addr a)" and ?pr = "\<lambda>g. hex (unat (byteswapOnLittleEndian_16 little g))"
  have len: "length ?gs = 8" using assms by (simp add: length_groups)
  then have ne: "?gs \<noteq> []" by auto
  then have "?gs ! 7 = last ?gs" using len by (simp add: last_conv_nth)
  then show ?thesis
    using insert_groups_text [OF ne, of ?pr]
    by (cases "insert_groups ?pr False 0 False ?gs") (simp add: IPv6_insert_def Let_def)
qed

theorem ipv6_insert_text_witness:
  "IPv6_insert True (IPv6Address0\<lparr>s6_addr := replicate 15 0 @ [1]\<rparr>) = ''[::1]:0''"
proof -
  have "length (s6_addr (IPv6Address0\<lparr>s6_addr := replicate 15 0 @ [1]\<rparr>)) = 16" by simp
  moreover have "groups True (replicate 15 0 @ [1]) = [0, 0, 0, 0, 0, 0, 0, 256]" by code_simp
  moreover have "hex (unat (byteswapOnLittleEndian_16 True 256)) = ''1''" "dec (unat (byteswapOnLittleEndian_16 True 0)) = ''0''"
    by code_simp+
  ultimately show ?thesis using ipv6_insert_text [of "IPv6Address0\<lparr>s6_addr := replicate 15 0 @ [1]\<rparr>" True]
    by (simp add: ipv6_text_def IPv6Address0_def)
qed

text \<open>
  The constructor of \<^verbatim>\<open>UnixAddress\<close> never returns: it throws for every path that fits, because its test is the wrong way round, and
  a path that passes the test is longer than the array it is copied to.
\<close>

theorem unix_address_fails:
  "\<exists>e. UnixAddress path = Inl e \<and> (length path < 108 \<longrightarrow> e = Thrown ''path too long'')"
proof -
  let ?l = "(if path \<noteq> [] \<and> hd path = 0 then of_nat (length path + 1) - 1 else of_nat (length path + 1)) :: u32"
  have "?l \<le> of_nat sun_path_size" if "length path < 108"
  proof -
    have "unat (of_nat (length path + 1) :: u32) = length path + 1" using that unfolding unat_of_nat by (simp add: take_bit_eq_mod)
    then show ?thesis using that by (auto simp: word_le_nat_alt sun_path_size_def unat_of_nat)
  qed
  then show ?thesis by (auto simp: UnixAddress_def Let_def word_le_nat_alt sun_path_size_def)
qed

end
