(* ===== verification/Spec2Isabelle.thy ===== *)
theory Spec2Isabelle
  imports Pool Util Connect Closing Drain Epoll_Text Log_Dump Address
begin

text \<open>
  \<^bold>\<open>A verification of the sylar network framework\<close>

  sylar (\<^verbatim>\<open>src/sylar/sylar\<close>) is a C++ framework that runs coroutines (fibers) on a pool of threads. A
  \<^verbatim>\<open>Scheduler\<close> has a queue of tasks and threads that take them; an \<^verbatim>\<open>IOManager\<close> is a scheduler whose idle
  threads wait in epoll and that has a \<^verbatim>\<open>TimerManager\<close>; the hooks replace blocking system calls by calls that park the
  fiber with the I/O manager and resume it when the descriptor is ready or a timer fires, using what \<^verbatim>\<open>FdManager\<close>
  knows of the descriptor. Beside them stand the locks, the logging and configuration system, and socket addresses.

  \<^bold>\<open>Theories and sources\<close>

  \<^item> \<open>Sylar_Prelude\<close>: machine integers, failures (\<open>error\<close>, results \<open>'a res\<close>, \<open>bindE\<close>; \<open>SYLAR_ASSERT\<close> of macro.h), the
    generic \<open>reachable\<close> states of a step relation and the locale \<open>inductive_invariant\<close> that every component with a
    state machine interprets.
  \<^item> \<open>Std_Set\<close>: the ordered set of the C++ library over its comparison; locale \<open>strict_total_order\<close>.
  \<^item> \<open>Timer\<close> (timer.h, timer.cpp): timers in a heap, the manager as an ordered set of addresses. The operations
    are \<^verbatim>\<open>cancel\<close>, \<^verbatim>\<open>refresh\<close>, \<^verbatim>\<open>reset\<close>, \<^verbatim>\<open>addTimer\<close>, \<^verbatim>\<open>addConditionTimer\<close>, \<^verbatim>\<open>getNextTimer\<close>, \<^verbatim>\<open>listExpiredCb\<close>. They are shown to
    implement an abstract map from armed timers to deadlines; the two critical sections of \<^verbatim>\<open>listExpiredCb\<close> are also given
    separately, with the race between them.
  \<^item> \<open>Fiber\<close> (fiber.h, fiber.cpp): the states of fibers, the context switches of one thread with its thread-local variables,
    the entry functions. Shown: the invariant of a thread, that yields switch to the scheduling fiber, and that a callback runs once.
  \<^item> \<open>Scheduler\<close> (scheduler.h, scheduler.cpp): queue, counters, \<^verbatim>\<open>start\<close>, \<^verbatim>\<open>stop\<close> and the loop of \<^verbatim>\<open>run\<close>, cut where the
    thread switches to a fiber. The virtual functions are the locale \<open>scheduler_virtuals\<close>, interpreted on those of the base class
    here and of the I/O manager in \<open>IOManager\<close>. Shown: the counters of every interleaving of the workers, what a search takes,
    the turn of a fiber, and that a stopping worker leaves. \<open>Pool\<close>: \<^verbatim>\<open>start\<close> and \<^verbatim>\<open>stop\<close> with the \<^verbatim>\<open>Thread\<close> objects they create and join, shown
    to implement the former, and what a failed thread creation leaves.
    \<open>Drain\<close>: the turns of one worker in sequence; its queue of callbacks, which may schedule others and may throw, is emptied in order, and a stopping worker
    leaves only then.
  \<^item> \<open>Sync\<close> (mutex.h, mutex.cpp): locks, guards and semaphores; locale \<open>lockable\<close>, interpreted on \<^verbatim>\<open>Mutex\<close>,
    \<^verbatim>\<open>Spinlock\<close>, \<^verbatim>\<open>CASLock\<close> and \<^verbatim>\<open>RWMutex\<close>, gives exclusion of the scoped locks; \<^verbatim>\<open>FiberSemaphore\<close> runs over the scheduler through the
    locale \<open>task_scheduler\<close>.
  \<^item> \<open>IOManager\<close> (iomanager.h, iomanager.cpp): the descriptor contexts, \<^verbatim>\<open>addEvent\<close>, \<^verbatim>\<open>delEvent\<close>, \<^verbatim>\<open>cancelEvent\<close>, \<^verbatim>\<open>cancelAll\<close>,
    \<^verbatim>\<open>triggerEvent\<close>, \<^verbatim>\<open>stopping\<close> and the \<^verbatim>\<open>idle\<close> loop. The record extends those of the scheduler and holds a timer manager. Shown:
    the account of pending events in every reachable state, delivery of reported events and due timers, quiescence of
    \<^verbatim>\<open>stopping\<close>, and three races or overflows of the code. \<open>Epoll_Text\<close>: the text of event masks in its messages.
  \<^item> \<open>Fd_Manager\<close> (fd_manager.h, fd_manager.cpp) and \<open>Hook\<close> (hook.h, hook.cpp): the descriptor table (locale \<open>fd_table\<close>) and
    the replaced system calls. Shown: what a hooked call returns, its timeout, sleeping, and the view of \<^verbatim>\<open>O_NONBLOCK\<close> that a user gets.
  \<^item> \<open>Hooked_IO\<close> and \<open>Connect\<close>: the runtime put together. A fiber that waits in a hooked call or sleeps is followed through the loop of its worker, the idle
    fiber, epoll or the timers, the callback fiber and back (\<open>woken_by_event\<close>, \<open>woken_by_timer\<close>); the call ends as it should and nothing is left behind
    (\<open>as_before\<close>). \<open>Connect\<close> does the same for \<^verbatim>\<open>connect\<close>; the last section of this theory joins it with the configured timeout. \<open>Closing\<close>: \<^verbatim>\<open>close\<close> with
    the I/O manager and the descriptor table, and the waiters it releases.
  \<^item> \<open>Log_Format\<close> and \<open>Logger\<close> (log.h, log.cpp): the pattern parser and the format items; loggers, appenders and the listener that applies
    a changed configuration. Shown: the parser ends and reads back printed patterns, logging delivers to the right appenders, and
    a configuration is in force after it was applied. \<open>Log_Dump\<close>: \<^verbatim>\<open>toYamlString\<close> of loggers and appenders, and that its text reads back.
  \<^item> \<open>Config\<close> (config.h, config.cpp, the conversions in log.cpp): conversions, variables, listeners, registry, \<^verbatim>\<open>LoadFromYaml\<close>. Shown:
    typing of the registry, the effect of loading a document, round trips.
  \<^item> \<open>Startup\<close>: the program as the static initialisers of log.cpp, fiber.cpp and hook.cpp leave it, with the listeners run. Shown: the
    configuration is in force in every reachable state, across \<open>Config\<close>, \<open>Logger\<close> and the timeout that \<open>Hook\<close> uses.
  \<^item> \<open>Thread\<close> (thread.h, thread.cpp) and \<open>Util\<close> (util.h, util.cpp): the handshake of a thread's constructor with the thread it creates, in
    every interleaving; the clocks and the text of a backtrace.
  \<^item> \<open>Address\<close> (address.h, address.cpp, endian.h): byte swaps, address classes, comparison and text.

  \<^bold>\<open>Modelling choices\<close>

  Objects behind pointers live in heaps (maps from addresses); operations pass the state explicitly. An assertion, exception or
  out-of-range access is a value of \<open>error\<close>. A critical section is one step; an operation that gives up its lock in between
  is also given in pieces where that matters. Unsigned integers that can wrap are words. What the kernel, the clock, yaml-cpp and boost return
  are arguments.

  \<^bold>\<open>Bounds and loops\<close>

  The only definition with fuel is \<open>drain\<close>, the number of turns of a worker; its theorems state that all large enough numbers give the same result. Loops over data are structural; the spinning of \<^verbatim>\<open>CASLock\<close>, the parser loop and the delegation
  of a logger to the root are \<^verbatim>\<open>partial_function (option)\<close>, and the theorems about the latter two state that they return. The retry
  loops around system calls (\<^verbatim>\<open>do_io\<close>, \<^verbatim>\<open>epoll_wait\<close>) recurse over the list of results the kernel gives; a list that ends early is a call
  that has not returned.

  \<^bold>\<open>Not modelled\<close>

  Stack memory and \<^verbatim>\<open>ucontext\<close> beyond which fiber runs; the templates \<^verbatim>\<open>Singleton\<close> (there is one state per manager) and \<^verbatim>\<open>Noncopyable\<close>;
  the guards of \<^verbatim>\<open>NullRWMutex\<close>, which do not compile; accessors that only return a member; \<^verbatim>\<open>lock.h\<close>, \<^verbatim>\<open>lock.cpp\<close> and \<^verbatim>\<open>sylar.h\<close>, which hold no code; the test programs;
  memory ordering and reference counts. The log messages of the runtime itself are left out of the models of timers, fibers, schedulers and hooks.
\<close>

section \<open>The configured timeout of a connection\<close>

lemma scast_minus_one: "(scast (n :: i32) :: u64) = - 1 \<longleftrightarrow> n = - 1"
proof
  assume "(scast n :: u64) = - 1"
  then have "(scast (scast n :: u64) :: i32) = scast (- 1 :: u64)" by simp
  moreover have "(scast (scast n :: u64) :: i32) = n" by (simp add: scast_down_scast_id is_down)
  ultimately show "n = - 1" by simp
qed simp

lemma configured_timeout:
  assumes "reachable (\<lambda>s. startup = Inr s) (program_step Y B) P" and "Lookup ''int'' ''tcp.connect.timeout'' (p_conf P) = Some v"
    and "m_val (vars (p_conf P) v) = IntV n"
  shows "s_connect_timeout P = scast n"
proof -
  have "wired (p_conf P)" "timeout_in_force P" using conf.reachable_inv [OF assms(1)] by (simp_all add: program_inv_def)
  then show ?thesis using assms(2,3) by (auto simp: wired_def timeout_in_force_def Lookup_def split: if_splits)
qed

text \<open>
  C8. A hooked \<open>connect\<close> follows the configuration: in every state the program reaches, with the variable \<^verbatim>\<open>tcp.connect.timeout\<close> at \<open>n\<close>, a worker runs a fiber that
  connects a managed socket, and the kernel answers \<^verbatim>\<open>EINPROGRESS\<close>. The fiber parks with the event \<open>WRITE\<close> and, unless \<open>n\<close> is -1, a timer of \<open>n\<close> milliseconds. When epoll reports the event and no timer is due, the worker
  comes back to the fiber and the call returns what \<^verbatim>\<open>SO_ERROR\<close> says: 0, or that error. When that timer is due first, the call fails with \<^verbatim>\<open>ETIMEDOUT\<close>. In both cases nothing is left
  behind: timers, events, counters and queue are as before the call.
\<close>

theorem connect_configured:
  assumes "reachable (\<lambda>s. startup = Inr s) (program_step Y B) P" and "Lookup ''int'' ''tcp.connect.timeout'' (p_conf P) = Some v"
    and "m_val (vars (p_conf P) v) = IntV tmo"
    and "runs w f" and "running_on (w_tls w) (h_iom h) f m" and "m_fibers (h_iom h) = []"
    and "resumable (mem (h_iom h)) (w_idle_fiber w)" and "w_idle_fiber w \<noteq> f" and "w_idle_fiber w \<noteq> m"
    and "iom_inv (h_iom h)" and "Suc (registered (h_iom h)) < 2 ^ 64" and "cb_slot (spare_cb w) {f, m, w_idle_fiber w} (mem (h_iom h))"
    and "tm_inv (timers (h_iom h))" and "p \<notin> set (m_timers (timers (h_iom h)))"
    and "connect_managed K fd' fdm k" and "do_io_block ctl fd' WRITE (scast tmo) ti now p (w_tls w) (h_iom h) = Inr (True, l1, s1)"
    and "context_at fd' s1 = Inr c" and "length (m_fdContexts s1) < 2 ^ 31" and "\<And>op fd evs p. ctl op fd evs p = 0"
    and "q \<notin> set (m_timers (timers s1))" and "0 < now1"
  shows "armed (timers s1) =
      (if tmo \<noteq> - 1 then (armed (timers (h_iom h)))(p \<mapsto> wait_timer (scast tmo) ti fd' WRITE now) else armed (timers (h_iom h))) \<and>
    (no_timer_due now2 (timers s1) \<longrightarrow>
     (\<exists>w4 s4 h'. woken_by_event dflt ctl now1 now2 q n c WRITE f (w\<lparr>w_tls := l1\<rparr>) s1 w4 s4 \<and>
      connect (s_connect_timeout P) K ctl fd' (Err EINPROGRESS) ti now p (w_tls w4) \<lparr>h_iom = s4, h_tinfo = (h_tinfo h)(ti \<mapsto> 0)\<rparr> so_error
        fdm k (w_tls w) h = Inr (connect_finish so_error, w_tls w4, h') \<and>
      h_tinfo h' = (h_tinfo h)(ti := None) \<and> as_before f m w (h_iom h) w4 (h_iom h'))) \<and>
    (tmo \<noteq> - 1 \<and> only_due now2 p (timers s1) \<longrightarrow>
     (\<exists>w6 s6 h5 h'. woken_by_timer dflt ctl user tinfo_alive now1 now2 q n (timeout_cb ti fd' WRITE) ((h_tinfo h)(ti \<mapsto> 0)) f (w\<lparr>w_tls := l1\<rparr>) s1 w6 s6 h5 \<and>
      connect (s_connect_timeout P) K ctl fd' (Err EINPROGRESS) ti now p (w_tls w6) (h5\<lparr>h_iom := s6\<rparr>) so_error fdm k (w_tls w) h =
        Inr (Err ETIMEDOUT, w_tls w6, h') \<and>
      h_tinfo h' = (h_tinfo h)(ti := None) \<and> as_before f m w (h_iom h) w6 (h_iom h')))"
  unfolding configured_timeout [OF assms(1-3)]
proof (intro conjI impI)
  show "armed (timers s1) =
      (if tmo \<noteq> - 1 then (armed (timers (h_iom h)))(p \<mapsto> wait_timer (scast tmo) ti fd' WRITE now) else armed (timers (h_iom h)))"
    using do_io_block_parks [OF assms(5,10,16)] by (simp add: scast_minus_one)
  show "\<exists>w4 s4 h'. woken_by_event dflt ctl now1 now2 q n c WRITE f (w\<lparr>w_tls := l1\<rparr>) s1 w4 s4 \<and>
      connect (scast tmo) K ctl fd' (Err EINPROGRESS) ti now p (w_tls w4) \<lparr>h_iom = s4, h_tinfo = (h_tinfo h)(ti \<mapsto> 0)\<rparr> so_error
        fdm k (w_tls w) h = Inr (connect_finish so_error, w_tls w4, h') \<and>
      h_tinfo h' = (h_tinfo h)(ti := None) \<and> as_before f m w (h_iom h) w4 (h_iom h')"
    if "no_timer_due now2 (timers s1)"
    by (rule connect_completes [OF assms(4-11,13,14,16,17,19,20) that assms(15)])
  show "\<exists>w6 s6 h5 h'. woken_by_timer dflt ctl user tinfo_alive now1 now2 q n (timeout_cb ti fd' WRITE) ((h_tinfo h)(ti \<mapsto> 0)) f (w\<lparr>w_tls := l1\<rparr>) s1 w6 s6 h5 \<and>
      connect (scast tmo) K ctl fd' (Err EINPROGRESS) ti now p (w_tls w6) (h5\<lparr>h_iom := s6\<rparr>) so_error fdm k (w_tls w) h =
        Inr (Err ETIMEDOUT, w_tls w6, h') \<and>
      h_tinfo h' = (h_tinfo h)(ti := None) \<and> as_before f m w (h_iom h) w6 (h_iom h')"
    if "tmo \<noteq> - 1 \<and> only_due now2 p (timers s1)"
    by (rule connect_times_out [OF assms(4-10,12-14) _ assms(16,18-20) conjunct2 [OF that] assms(21,15)])
      (use that in \<open>simp add: scast_minus_one\<close>)
qed

theorem connect_configured_witness:
  "\<exists>P (w6 :: nat hook_cb callback worker) wake h'. startup = Inr P \<and> s_connect_timeout P = 5000 \<and> runs w6 1 \<and>
     connect (s_connect_timeout P) demo_kernel (\<lambda>_ _ _ _. 0) 1 (Err EINPROGRESS) 0 500 7 (w_tls w6) wake (Ret 0) demo_fdm (\<lambda>_. 0) demo_io_tls
       \<lparr>h_iom = demo_io, h_tinfo = Map.empty\<rparr> = Inr (Err ETIMEDOUT, w_tls w6, h') \<and> m_fibers (h_iom h') = []"
proof -
  let ?h = "\<lparr>h_iom = demo_io, h_tinfo = Map.empty\<rparr>"
  obtain P where P: "startup = Inr P" "vars (p_conf P) = startup_vars" "s_connect_timeout P = 5000"
    "s_datas (p_conf P) = [''logs'' \<mapsto> 0, ''fiber.stack_size'' \<mapsto> 1, ''tcp.connect.timeout'' \<mapsto> 2]"
    using startup_eq by blast
  have r: "reachable (\<lambda>s. startup = Inr s) (program_step dump_yaml demo_casts) P" by (rule reachable_init) (rule P(1))
  have v: "Lookup ''int'' ''tcp.connect.timeout'' (p_conf P) = Some 2" "m_val (vars (p_conf P) 2) = IntV 5000"
    by (simp_all add: Lookup_def P(2,4) new_ConfigVar_def)
  obtain l1 s1 where b: "do_io_block (\<lambda>_ _ _ _. 0) 1 WRITE 5000 0 500 7 demo_io_tls demo_io = Inr (True, l1, s1)"
    "m_fdContexts s1 = [Some 0, Some 1]"
    "timers s1 = snd (addTimer 5000 (Some (BindOnTimer 0 (Some (Callback (OnTimeout 0 1 WRITE))))) False 500 7 (new_TimerManager 100))"
    using demo_block [of WRITE 5000] by auto
  have t: "99 \<notin> set (m_timers (timers s1))" "only_due 5500 7 (timers s1)"
    by (simp_all add: b(3) addTimer_def addTimer_locked_def new_TimerManager_def set_timer_def Let_def cmp.set_std_insert
        only_due_def armed_def detectClockRollover_def due_def new_Timer_def)
  have d: "do_io_block (\<lambda>_ _ _ _. 0) 1 WRITE (scast (5000 :: i32)) 0 500 7 (w_tls demo_io_worker) (h_iom ?h) = Inr (True, l1, s1)"
    and tls: "w_tls demo_io_worker = demo_io_tls" and c: "context_at 1 s1 = Inr 1"
    using b(1,2) by (simp_all add: demo_io_worker_def context_at_def)
  have ok: "running_on (w_tls demo_io_worker) (h_iom ?h) 1 0" "m_fibers (h_iom ?h) = []"
    "resumable (mem (h_iom ?h)) (w_idle_fiber demo_io_worker)" "w_idle_fiber demo_io_worker \<noteq> 1" "w_idle_fiber demo_io_worker \<noteq> 0"
    "iom_inv (h_iom ?h)" "Suc (registered (h_iom ?h)) < 2 ^ 64" "cb_slot (spare_cb demo_io_worker) {1, 0, w_idle_fiber demo_io_worker} (mem (h_iom ?h))"
    "tm_inv (timers (h_iom ?h))" "7 \<notin> set (m_timers (timers (h_iom ?h)))" "length (m_fdContexts s1) < 2 ^ 31"
    using demo_io_worker_ok demo_inv demo_io_slot b(2) by (simp_all add: new_TimerManager_def)
  have "\<exists>w6 s6 h5 h'. woken_by_timer 131072 (\<lambda>_ _ _ _. 0) (\<lambda>_. Inr) tinfo_alive 510 5500 99 1 (timeout_cb 0 1 WRITE) ((h_tinfo ?h)(0 \<mapsto> 0)) 1
        (demo_io_worker\<lparr>w_tls := l1\<rparr>) s1 w6 s6 h5 \<and>
      connect (s_connect_timeout P) demo_kernel (\<lambda>_ _ _ _. 0) 1 (Err EINPROGRESS) 0 500 7 (w_tls w6) (h5\<lparr>h_iom := s6\<rparr>) (Ret 0) demo_fdm (\<lambda>_. 0)
        (w_tls demo_io_worker) ?h = Inr (Err ETIMEDOUT, w_tls w6, h') \<and>
      h_tinfo h' = (h_tinfo ?h)(0 := None) \<and> as_before 1 0 demo_io_worker (h_iom ?h) w6 (h_iom h')"
    using t(2) by (intro connect_configured [OF r v demo_io_worker_ok(1) ok(1-10) demo_connect_managed d c ok(11) refl t(1), of 510,
          THEN conjunct2, THEN conjunct2, THEN mp]) simp_all
  then show ?thesis using P(1,3) unfolding tls as_before_def by blast
qed

end
